(* ===== verification/Prelude.thy ===== *)
theory Prelude
  imports Main "HOL-Library.Word" "HOL-Library.Monad_Syntax"
begin

text \<open>
  What every component of the development shares: the C integer types as words of their
  width, the pointer type, the fact collections the component theories add to, and a few
  generic lemmas on the option monad and on lists.

  C integers are kept at their LP64 width: \<open>unsigned long\<close> and pointers have 64 bits,
  \<open>int\<close> has 32. Where the code only compares a signed value and never lets it overflow
  (file descriptors, return codes), it is an \<open>int\<close>.
\<close>

unbundle bit_operations_syntax

type_synonym u8 = "8 word"
type_synonym u16 = "16 word"
type_synonym u32 = "32 word"
type_synonym u64 = "64 word"

text \<open>A pointer is a 64-bit address; \<open>NULL\<close> is address 0.\<close>

type_synonym addr = "64 word"

abbreviation NULL :: addr where
  "NULL \<equiv> 0"

named_theorems heap_simps \<open>reads after writes on a pointer heap\<close>
named_theorems layout_simps \<open>sizes, alignments and offsets of C types\<close>
named_theorems trace_simps \<open>what one operation appends to the trace of a component\<close>

section \<open>The option monad\<close>

lemma bind_Some_iff: "Option.bind m f = Some y \<longleftrightarrow> (\<exists>x. m = Some x \<and> f x = Some y)"
  by (cases m) auto

lemma bind_None_iff: "Option.bind m f = None \<longleftrightarrow> m = None \<or> (\<exists>x. m = Some x \<and> f x = None)"
  by (cases m) auto

text \<open>A loop over a list whose body may fail.\<close>

fun run_all :: "('a \<Rightarrow> 's \<Rightarrow> 's option) \<Rightarrow> 'a list \<Rightarrow> 's \<Rightarrow> 's option" where
  "run_all f [] s = Some s"
| "run_all f (x # xs) s = do { s \<leftarrow> f x s; run_all f xs s }"

lemma run_all_append: "run_all f (xs @ ys) s = do { s \<leftarrow> run_all f xs s; run_all f ys s }"
  by (induction xs arbitrary: s) (auto split: bind_splits)

lemma run_all_total: "run_all (\<lambda>x s. Some (f x s)) xs s = Some (fold f xs s)"
  by (induction xs arbitrary: s) auto

section \<open>Lists\<close>

lemma takeWhile_append_sentinel:
  "\<not> P z \<Longrightarrow> takeWhile P (xs @ z # ys) = takeWhile P xs"
  by (induction xs) auto

lemma list_split_at:
  assumes "y \<in> set xs"
  obtains us vs where "xs = us @ y # vs" and "y \<notin> set us"
  using assms by (metis split_list_first)

lemma remove1_split: "y \<notin> set us \<Longrightarrow> remove1 y (us @ y # vs) = us @ vs"
  by (induction us) auto

end
