(* ===== verification/Simulation.thy ===== *)
theory Simulation
  imports Prelude
begin

text \<open>
  Forward simulation: every step the specification allows is a step of the implementation that
  ends in a related state. A whole run of the specification is then a run of the implementation,
  which does not fail.
\<close>

locale simulation =
  fixes related :: "'c \<Rightarrow> 'a \<Rightarrow> bool"
    and spec :: "'o \<Rightarrow> 'a \<Rightarrow> 'a option"
    and impl :: "'o \<Rightarrow> 'c \<Rightarrow> 'c option"
  assumes step: "related c a \<Longrightarrow> spec x a = Some a' \<Longrightarrow> \<exists>c'. impl x c = Some c' \<and> related c' a'"
begin

lemma run: "related c a \<Longrightarrow> run_all spec xs a = Some a' \<Longrightarrow> \<exists>c'. run_all impl xs c = Some c' \<and> related c' a'"
proof (induction xs arbitrary: c a)
  case (Cons x xs)
  from Cons.prems(2) obtain b where b: "spec x a = Some b" "run_all spec xs b = Some a'" by (auto simp: bind_Some_iff)
  from step [OF Cons.prems(1) b(1)] obtain d where "impl x c = Some d" "related d b" by blast
  then show ?case using Cons.IH [of d b] b(2) by auto
qed simp

lemma run_prefix:
  assumes "related c a" and "run_all spec (xs @ ys) a = Some a'"
  shows "\<exists>d b. run_all impl xs c = Some d \<and> run_all spec xs a = Some b \<and> related d b"
proof -
  from assms(2) obtain b where "run_all spec xs a = Some b" by (auto simp: run_all_append bind_Some_iff)
  then show ?thesis using run [OF assms(1)] by blast
qed

end

end
