(* ===== verification/Node_Deque.thy ===== *)
theory Node_Deque
  imports Simulation
begin

text \<open>
  The interface of an intrusive list: what a client that owns list heads and list nodes may
  rely on, whatever the representation. \<open>rep s l xs\<close> says that in state \<open>s\<close> the list with
  head \<open>l\<close> holds the nodes \<open>xs\<close>; an operation may fail (\<open>None\<close>). The lemmas of the locale
  are the uses the documentation of the operations names: stacks and queues.
\<close>

locale node_deque =
  fixes rep :: "'s \<Rightarrow> 'l \<Rightarrow> 'l list \<Rightarrow> bool"
    and alloc :: "'s \<Rightarrow> 'l set"
    and init :: "'l \<Rightarrow> 's \<Rightarrow> 's option"
    and push :: "'l \<Rightarrow> 'l \<Rightarrow> 's \<Rightarrow> 's option"
    and enqueue :: "'l \<Rightarrow> 'l \<Rightarrow> 's \<Rightarrow> 's option"
    and unlink :: "'l \<Rightarrow> 's \<Rightarrow> 's option"
  assumes init_rep: "l \<in> alloc s \<Longrightarrow> \<exists>s'. init l s = Some s' \<and> rep s' l [] \<and> alloc s' = alloc s
      \<and> (\<forall>m ys. rep s m ys \<and> l \<notin> set (m # ys) \<longrightarrow> rep s' m ys)"
    and push_rep: "rep s l xs \<Longrightarrow> x \<in> alloc s \<Longrightarrow> x \<notin> set (l # xs) \<Longrightarrow>
      \<exists>s'. push x l s = Some s' \<and> rep s' l (x # xs) \<and> alloc s' = alloc s
      \<and> (\<forall>m ys. rep s m ys \<and> set (m # ys) \<inter> set (l # x # xs) = {} \<longrightarrow> rep s' m ys)"
    and enqueue_rep: "rep s l xs \<Longrightarrow> x \<in> alloc s \<Longrightarrow> x \<notin> set (l # xs) \<Longrightarrow>
      \<exists>s'. enqueue x l s = Some s' \<and> rep s' l (xs @ [x]) \<and> alloc s' = alloc s
      \<and> (\<forall>m ys. rep s m ys \<and> set (m # ys) \<inter> set (l # x # xs) = {} \<longrightarrow> rep s' m ys)"
    and unlink_rep: "rep s l xs \<Longrightarrow> x \<in> set xs \<Longrightarrow>
      \<exists>s'. unlink x s = Some s' \<and> rep s' l (remove1 x xs) \<and> alloc s' = alloc s
      \<and> (\<forall>m ys. rep s m ys \<and> set (m # ys) \<inter> set (l # xs) = {} \<longrightarrow> rep s' m ys)"
    and rep_wf: "rep s l xs \<Longrightarrow> distinct (l # xs) \<and> set (l # xs) \<subseteq> alloc s"
begin

text \<open>Pushing nodes one by one leaves them in reverse order: a stack.\<close>

lemma push_all:
  assumes "rep s l xs" "distinct ys" "set ys \<subseteq> alloc s" "set ys \<inter> set (l # xs) = {}"
  shows "\<exists>s'. run_all (\<lambda>y. push y l) ys s = Some s' \<and> rep s' l (rev ys @ xs) \<and> alloc s' = alloc s"
  using assms
proof (induction ys arbitrary: s xs)
  case (Cons y ys)
  then obtain s1 where s1: "push y l s = Some s1" "rep s1 l (y # xs)" "alloc s1 = alloc s"
    using push_rep [of s l xs y] by auto
  with Cons.IH [of s1 "y # xs"] Cons.prems show ?case by auto
qed simp

text \<open>Enqueueing nodes one by one keeps their order: a queue.\<close>

lemma enqueue_all:
  assumes "rep s l xs" "distinct ys" "set ys \<subseteq> alloc s" "set ys \<inter> set (l # xs) = {}"
  shows "\<exists>s'. run_all (\<lambda>y. enqueue y l) ys s = Some s' \<and> rep s' l (xs @ ys) \<and> alloc s' = alloc s"
  using assms
proof (induction ys arbitrary: s xs)
  case (Cons y ys)
  then obtain s1 where s1: "enqueue y l s = Some s1" "rep s1 l (xs @ [y])" "alloc s1 = alloc s"
    using enqueue_rep [of s l xs y] by auto
  with Cons.IH [of s1 "xs @ [y]"] Cons.prems show ?case by auto
qed simp

text \<open>Removing a set of nodes, in any order, leaves the others in place.\<close>

lemma unlink_all:
  assumes "rep s l xs" "distinct ys" "set ys \<subseteq> set xs"
  shows "\<exists>s'. run_all unlink ys s = Some s' \<and> rep s' l (filter (\<lambda>x. x \<notin> set ys) xs)
    \<and> alloc s' = alloc s"
  using assms
proof (induction ys arbitrary: s xs)
  case (Cons y ys)
  then obtain s1 where s1: "unlink y s = Some s1" "rep s1 l (remove1 y xs)" "alloc s1 = alloc s"
    using unlink_rep [of s l xs y] by auto
  have d: "distinct xs" using rep_wf [OF Cons.prems(1)] by simp
  have "filter (\<lambda>x. x \<notin> set ys) (remove1 y xs) = filter (\<lambda>x. x \<notin> set (y # ys)) xs"
    using d by (auto simp: distinct_remove1_removeAll removeAll_filter_not_eq filter_filter conj_commute
      intro!: filter_cong)
  moreover have "set ys \<subseteq> set (remove1 y xs)" using Cons.prems d by auto
  ultimately show ?case using Cons.IH [OF s1(2)] Cons.prems s1 by auto
qed simp

text \<open>A node that is added and removed again leaves the list as it was.\<close>

lemma push_unlink:
  assumes "rep s l xs" "x \<in> alloc s" "x \<notin> set (l # xs)"
  shows "\<exists>s' s''. push x l s = Some s' \<and> unlink x s' = Some s'' \<and> rep s'' l xs"
proof -
  obtain s' where "push x l s = Some s'" "rep s' l (x # xs)" using push_rep [OF assms] by blast
  then show ?thesis using unlink_rep [of s' l "x # xs" x] by auto
qed

text \<open>Moving a node from one list to another, as the kernel does between its queues.\<close>

lemma move_node:
  assumes "rep s l xs" "rep s m ys" "set (l # xs) \<inter> set (m # ys) = {}" "x \<in> set xs"
  shows "\<exists>s' s''. unlink x s = Some s' \<and> enqueue x m s' = Some s''
    \<and> rep s'' l (remove1 x xs) \<and> rep s'' m (ys @ [x])"
proof -
  have wf: "distinct (l # xs)" "x \<in> alloc s" using rep_wf [OF assms(1)] assms(4) by auto
  obtain s' where s': "unlink x s = Some s'" "rep s' l (remove1 x xs)" "alloc s' = alloc s"
    "rep s' m ys"
    using unlink_rep [OF assms(1,4)] assms(2,3) by blast
  have "x \<notin> set (m # ys)" using assms(3,4) by auto
  then obtain s'' where s'': "enqueue x m s' = Some s''" "rep s'' m (ys @ [x])"
    and fr: "\<forall>k zs. rep s' k zs \<and> set (k # zs) \<inter> set (m # x # ys) = {} \<longrightarrow> rep s'' k zs"
    using enqueue_rep [of s' m ys x] s' wf(2) by auto
  have "set (l # remove1 x xs) \<inter> set (m # x # ys) = {}"
    using assms(3,4) wf(1) by (auto dest: notin_set_remove1)
  then show ?thesis using s' s'' fr by blast
qed

end

section \<open>Several lists and sequences of operations\<close>

text \<open>The operations of a client, and what they mean for a collection of lists: heads with their
  contents. A call is allowed (\<open>Some\<close>) when the node that is added is a cell in no list, the list
  is there, the node that is removed is in a list, and a head that is initialised is no node.\<close>

datatype 'l list_op = Init 'l | Push 'l 'l | Enqueue 'l 'l | Unlink 'l

type_synonym 'l lists = "('l \<times> 'l list) list"

definition cells :: "'l lists \<Rightarrow> 'l list" where
  "cells A = concat (map (\<lambda>(l, xs). l # xs) A)"

definition change :: "'l \<Rightarrow> ('l list \<Rightarrow> 'l list) \<Rightarrow> 'l lists \<Rightarrow> 'l lists" where
  "change l f A = map (\<lambda>(m, xs). (m, if m = l then f xs else xs)) A"

fun spec_call :: "'l set \<Rightarrow> 'l list_op \<Rightarrow> 'l lists \<Rightarrow> 'l lists option" where
  "spec_call U (Init l) A =
     (if l \<in> set (map fst A) then Some (change l (\<lambda>xs. []) A)
      else if l \<in> U \<and> l \<notin> set (cells A) then Some ((l, []) # A) else None)"
| "spec_call U (Push x l) A =
     (if l \<in> set (map fst A) \<and> x \<in> U \<and> x \<notin> set (cells A) then Some (change l (\<lambda>xs. x # xs) A) else None)"
| "spec_call U (Enqueue x l) A =
     (if l \<in> set (map fst A) \<and> x \<in> U \<and> x \<notin> set (cells A) then Some (change l (\<lambda>xs. xs @ [x]) A) else None)"
| "spec_call U (Unlink x) A =
     (if x \<in> set (concat (map snd A)) then Some (map (\<lambda>(l, xs). (l, remove1 x xs)) A) else None)"

fun deque_call :: "('l \<Rightarrow> 's \<Rightarrow> 's option) \<Rightarrow> ('l \<Rightarrow> 'l \<Rightarrow> 's \<Rightarrow> 's option) \<Rightarrow> ('l \<Rightarrow> 'l \<Rightarrow> 's \<Rightarrow> 's option)
    \<Rightarrow> ('l \<Rightarrow> 's \<Rightarrow> 's option) \<Rightarrow> 'l list_op \<Rightarrow> 's \<Rightarrow> 's option" where
  "deque_call init push enqueue unlink (Init l) s = init l s"
| "deque_call init push enqueue unlink (Push x l) s = push x l s"
| "deque_call init push enqueue unlink (Enqueue x l) s = enqueue x l s"
| "deque_call init push enqueue unlink (Unlink x) s = unlink x s"

lemma cells_simps [simp]: "cells [] = []" "cells ((l, xs) # A) = l # xs @ cells A" "cells (A @ B) = cells A @ cells B"
  by (simp_all add: cells_def)

lemma change_simps [simp]:
  "change l f [] = []" "change l f ((m, xs) # A) = (m, if m = l then f xs else xs) # change l f A"
  "change l f (A @ B) = change l f A @ change l f B"
  by (simp_all add: change_def)

lemma change_absent: "l \<notin> set (map fst A) \<Longrightarrow> change l f A = A"
  by (induction A) auto

lemma in_cells: "(l, xs) \<in> set A \<Longrightarrow> set (l # xs) \<subseteq> set (cells A)"
  by (force simp: cells_def)

lemma heads_cells: "set (map fst A) \<subseteq> set (cells A)"
  by (force simp: cells_def)

text \<open>A list of the collection and the others, disjoint from it.\<close>

lemma pick_list:
  assumes "l \<in> set (map fst A)" and "distinct (cells A)"
  obtains B xs C where "A = B @ (l, xs) # C" and "\<And>f. change l f A = B @ (l, f xs) # C"
    and "\<And>m ys. (m, ys) \<in> set (B @ C) \<Longrightarrow> set (m # ys) \<inter> set (l # xs) = {}"
proof -
  obtain xs where "(l, xs) \<in> set A" using assms(1) by auto
  then obtain B C where A: "A = B @ (l, xs) # C" by (meson split_list)
  have "l \<notin> set (map fst (B @ C))" using assms(2) heads_cells [of B] heads_cells [of C] by (auto simp: A)
  then have "change l f A = B @ (l, f xs) # C" for f by (simp add: A change_absent)
  moreover have "set (m # ys) \<inter> set (l # xs) = {}" if "(m, ys) \<in> set (B @ C)" for m ys
    using in_cells [of m ys B] in_cells [of m ys C] that assms(2) by (fastforce simp: A)
  ultimately show thesis using A that by blast
qed

lemma unlink_elsewhere: "x \<notin> set (cells A) \<Longrightarrow> map (\<lambda>(l, xs). (l, remove1 x xs)) A = A"
  by (induction A) (auto simp: remove1_idem)

context node_deque
begin

definition holds_lists :: "'l set \<Rightarrow> 's \<Rightarrow> 'l lists \<Rightarrow> bool" where
  "holds_lists U s A \<longleftrightarrow> alloc s = U \<and> distinct (cells A) \<and> (\<forall>(l, xs) \<in> set A. rep s l xs)"

lemma holds_change:
  assumes "holds_lists U s (B @ (l, xs) # C)" and "alloc s' = alloc s" and "rep s' l xs'"
    and "\<And>m ys. (m, ys) \<in> set (B @ C) \<Longrightarrow> rep s m ys \<Longrightarrow> rep s' m ys" and "distinct (cells (B @ (l, xs') # C))"
  shows "holds_lists U s' (B @ (l, xs') # C)"
proof -
  have "\<forall>(m, ys) \<in> set (B @ C). rep s m ys" using assms(1) by (simp add: holds_lists_def)
  then have "\<forall>(m, ys) \<in> set (B @ C). rep s' m ys" using assms(4) by blast
  then show ?thesis using assms(1-3,5) by (simp add: holds_lists_def)
qed

text \<open>Adding a node to a list, by either operation.\<close>

lemma holds_add:
  assumes A: "holds_lists U s A" and l: "l \<in> set (map fst A)" and x: "x \<in> U" "x \<notin> set (cells A)"
    and "\<And>xs. set (f xs) = insert x (set xs) \<and> (distinct (f xs) \<longleftrightarrow> x \<notin> set xs \<and> distinct xs)"
    and op: "\<And>xs. rep s l xs \<Longrightarrow> x \<in> alloc s \<Longrightarrow> x \<notin> set (l # xs) \<Longrightarrow>
      \<exists>s'. call s = Some s' \<and> rep s' l (f xs) \<and> alloc s' = alloc s
      \<and> (\<forall>m ys. rep s m ys \<and> set (m # ys) \<inter> set (l # x # xs) = {} \<longrightarrow> rep s' m ys)"
  shows "\<exists>s'. call s = Some s' \<and> holds_lists U s' (change l f A)"
proof -
  have d: "distinct (cells A)" using A by (simp add: holds_lists_def)
  obtain B xs C where split: "A = B @ (l, xs) # C" "\<And>f. change l f A = B @ (l, f xs) # C"
    and others: "\<And>m ys. (m, ys) \<in> set (B @ C) \<Longrightarrow> set (m # ys) \<inter> set (l # xs) = {}"
    using pick_list [OF l d] by blast
  have "rep s l xs" "x \<in> alloc s" "x \<notin> set (l # xs)" using A x by (auto simp: holds_lists_def split(1))
  then obtain s' where s': "call s = Some s'" "rep s' l (f xs)" "alloc s' = alloc s"
    and frame: "\<And>m ys. rep s m ys \<Longrightarrow> set (m # ys) \<inter> set (l # x # xs) = {} \<Longrightarrow> rep s' m ys"
    using op by blast
  have "rep s' m ys" if "(m, ys) \<in> set (B @ C)" "rep s m ys" for m ys
  proof (rule frame [OF that(2)])
    have "x \<notin> set (m # ys)" using x(2) in_cells [of m ys A] that(1) by (auto simp: split(1))
    then show "set (m # ys) \<inter> set (l # x # xs) = {}" using others [OF that(1)] by auto
  qed
  moreover have "distinct (cells (B @ (l, f xs) # C))" using d x(2) assms(5) [of xs] by (auto simp: split(1))
  ultimately show ?thesis
    using holds_change [OF A [unfolded split(1)] s'(3,2)] s'(1) by (simp add: split(2))
qed

lemma holds_init:
  assumes A: "holds_lists U s A" and c: "spec_call U (Init l) A = Some A'"
  shows "\<exists>s'. init l s = Some s' \<and> holds_lists U s' A'"
proof (cases "l \<in> set (map fst A)")
  case True
  have d: "distinct (cells A)" using A by (simp add: holds_lists_def)
  obtain B xs C where split: "A = B @ (l, xs) # C" "\<And>f. change l f A = B @ (l, f xs) # C"
    and others: "\<And>m ys. (m, ys) \<in> set (B @ C) \<Longrightarrow> set (m # ys) \<inter> set (l # xs) = {}"
    using pick_list [OF True d] by blast
  have "rep s l xs" using A by (simp add: holds_lists_def split(1))
  then have "l \<in> alloc s" using rep_wf by fastforce
  then obtain s' where s': "init l s = Some s'" "rep s' l []" "alloc s' = alloc s"
    and frame: "\<And>m ys. rep s m ys \<Longrightarrow> l \<notin> set (m # ys) \<Longrightarrow> rep s' m ys"
    using init_rep by meson
  have "rep s' m ys" if "(m, ys) \<in> set (B @ C)" "rep s m ys" for m ys
    using frame [OF that(2)] others [OF that(1)] by auto
  moreover have "distinct (cells (B @ (l, []) # C))" using d by (auto simp: split(1))
  ultimately show ?thesis
    using holds_change [OF A [unfolded split(1)] s'(3,2)] s'(1) c True by (simp add: split(2))
next
  case False
  then have l: "l \<in> alloc s" "l \<notin> set (cells A)" and A': "A' = (l, []) # A"
    using c A by (auto simp: holds_lists_def split: if_splits)
  then obtain s' where s': "init l s = Some s'" "rep s' l []" "alloc s' = alloc s"
    and frame: "\<And>m ys. rep s m ys \<Longrightarrow> l \<notin> set (m # ys) \<Longrightarrow> rep s' m ys"
    using init_rep by meson
  have "rep s' m ys" if "(m, ys) \<in> set A" for m ys
    using frame [of m ys] in_cells [OF that] l(2) A that by (auto simp: holds_lists_def)
  then show ?thesis using s' l(2) A by (auto simp: holds_lists_def A')
qed

lemma holds_unlink:
  assumes A: "holds_lists U s A" and c: "spec_call U (Unlink x) A = Some A'"
  shows "\<exists>s'. unlink x s = Some s' \<and> holds_lists U s' A'"
proof -
  have d: "distinct (cells A)" using A by (simp add: holds_lists_def)
  obtain l xs where lx: "(l, xs) \<in> set A" "x \<in> set xs" using c by (auto split: if_splits)
  then obtain B C where split: "A = B @ (l, xs) # C" by (meson split_list)
  have x: "x \<notin> set (cells B)" "x \<notin> set (cells C)" using d lx(2) by (auto simp: split)
  have A': "A' = B @ (l, remove1 x xs) # C" using c by (auto simp: split unlink_elsewhere x split: if_splits)
  have "rep s l xs" using A by (simp add: holds_lists_def split)
  then obtain s' where s': "unlink x s = Some s'" "rep s' l (remove1 x xs)" "alloc s' = alloc s"
    and frame: "\<And>m ys. rep s m ys \<Longrightarrow> set (m # ys) \<inter> set (l # xs) = {} \<Longrightarrow> rep s' m ys"
    using unlink_rep [OF _ lx(2)] by blast
  have "rep s' m ys" if "(m, ys) \<in> set (B @ C)" "rep s m ys" for m ys
    using frame [OF that(2)] in_cells [of m ys B] in_cells [of m ys C] that(1) d by (fastforce simp: split)
  moreover have "distinct (cells (B @ (l, remove1 x xs) # C))"
    using d by (auto simp: split distinct_remove1 dest: notin_set_remove1)
  ultimately show ?thesis using holds_change [OF A [unfolded split] s'(3,2)] s'(1) by (simp add: A')
qed

lemma holds_step:
  assumes A: "holds_lists U s A" and c: "spec_call U op A = Some A'"
  shows "\<exists>s'. deque_call init push enqueue unlink op s = Some s' \<and> holds_lists U s' A'"
proof (cases op)
  case (Push x l)
  then show ?thesis using c holds_add [OF A, of l x "\<lambda>xs. x # xs" "push x l"] push_rep [of s l _ x]
    by (auto split: if_splits)
next
  case (Enqueue x l)
  then show ?thesis using c holds_add [OF A, of l x "\<lambda>xs. xs @ [x]" "enqueue x l"] enqueue_rep [of s l _ x]
    by (auto split: if_splits)
qed (use c holds_init [OF A] holds_unlink [OF A] in auto)

end

sublocale node_deque \<subseteq> calls: simulation "holds_lists U" "spec_call U" "deque_call init push enqueue unlink" for U
  by unfold_locales (rule holds_step)

end
