(* ===== verification/Kernel_List.thy ===== *)
theory Kernel_List
  imports Node_Deque
begin

text \<open>
  The circular doubly linked lists of \<open>util.c\<close> (\<open>INIT_LIST_HEAD\<close>, \<open>list_add\<close>,
  \<open>list_add_tail\<close>, \<open>list_del\<close> and their internal helpers) over an explicit heap of
  \<open>struct list_head\<close> cells. A read or a write through a pointer that is not the address of a
  cell is a fault, the value \<open>None\<close>. Names that start with two underscores in the source start
  with \<open>u_\<close> here.
\<close>

section \<open>The heap\<close>

record list_head =
  next_ptr :: addr
  prev_ptr :: addr

type_synonym heap = "addr \<rightharpoonup> list_head"

text \<open>The four accesses the code makes: \<open>p->next\<close> and \<open>p->prev\<close>, read and written.\<close>

definition get_next :: "addr \<Rightarrow> heap \<Rightarrow> addr option" where
  "get_next p h = map_option next_ptr (h p)"

definition get_prev :: "addr \<Rightarrow> heap \<Rightarrow> addr option" where
  "get_prev p h = map_option prev_ptr (h p)"

definition set_next :: "addr \<Rightarrow> addr \<Rightarrow> heap \<Rightarrow> heap option" where
  "set_next p v h = (case h p of None \<Rightarrow> None | Some c \<Rightarrow> Some (h(p \<mapsto> c\<lparr>next_ptr := v\<rparr>)))"

definition set_prev :: "addr \<Rightarrow> addr \<Rightarrow> heap \<Rightarrow> heap option" where
  "set_prev p v h = (case h p of None \<Rightarrow> None | Some c \<Rightarrow> Some (h(p \<mapsto> c\<lparr>prev_ptr := v\<rparr>)))"

section \<open>The operations\<close>

text \<open>
  Under \<open>CONFIG_DEBUG_LIST\<close> the two validity checks are external functions: a build either
  has none (\<open>None\<close>, the checks return true) or is given them.
\<close>

record debug_list =
  dbg_add_valid :: "addr \<Rightarrow> addr \<Rightarrow> addr \<Rightarrow> heap \<Rightarrow> bool"
  dbg_del_valid :: "addr \<Rightarrow> heap \<Rightarrow> bool"

type_synonym list_config = "debug_list option"

definition u_list_add_valid :: "list_config \<Rightarrow> addr \<Rightarrow> addr \<Rightarrow> addr \<Rightarrow> heap \<Rightarrow> bool" where
  "u_list_add_valid cfg new prev nxt h =
     (case cfg of None \<Rightarrow> True | Some d \<Rightarrow> dbg_add_valid d new prev nxt h)"

definition u_list_del_entry_valid :: "list_config \<Rightarrow> addr \<Rightarrow> heap \<Rightarrow> bool" where
  "u_list_del_entry_valid cfg entry h =
     (case cfg of None \<Rightarrow> True | Some d \<Rightarrow> dbg_del_valid d entry h)"

definition INIT_LIST_HEAD :: "addr \<Rightarrow> heap \<Rightarrow> heap option" where
  "INIT_LIST_HEAD l h = do {
     h \<leftarrow> set_next l l h;
     set_prev l l h }"

text \<open>The initialiser of a list head, and the declaration of a head variable with it.\<close>

definition LIST_HEAD_INIT :: "addr \<Rightarrow> list_head" where
  "LIST_HEAD_INIT name = \<lparr>next_ptr = name, prev_ptr = name\<rparr>"

definition LIST_HEAD :: "addr \<Rightarrow> heap \<Rightarrow> heap" where
  "LIST_HEAD name h = h(name \<mapsto> LIST_HEAD_INIT name)"

definition u_list_add :: "list_config \<Rightarrow> addr \<Rightarrow> addr \<Rightarrow> addr \<Rightarrow> heap \<Rightarrow> heap option" where
  "u_list_add cfg new prev nxt h =
     (if \<not> u_list_add_valid cfg new prev nxt h then Some h
      else do {
        h \<leftarrow> set_prev nxt new h;
        h \<leftarrow> set_next new nxt h;
        h \<leftarrow> set_prev new prev h;
        set_next prev new h })"

definition list_add :: "list_config \<Rightarrow> addr \<Rightarrow> addr \<Rightarrow> heap \<Rightarrow> heap option" where
  "list_add cfg new head h = do {
     n \<leftarrow> get_next head h;
     u_list_add cfg new head n h }"

definition list_add_tail :: "list_config \<Rightarrow> addr \<Rightarrow> addr \<Rightarrow> heap \<Rightarrow> heap option" where
  "list_add_tail cfg new head h = do {
     p \<leftarrow> get_prev head h;
     u_list_add cfg new p head h }"

definition u_list_del :: "addr \<Rightarrow> addr \<Rightarrow> heap \<Rightarrow> heap option" where
  "u_list_del prev nxt h = do {
     h \<leftarrow> set_prev nxt prev h;
     set_next prev nxt h }"

definition u_list_del_entry :: "list_config \<Rightarrow> addr \<Rightarrow> heap \<Rightarrow> heap option" where
  "u_list_del_entry cfg entry h =
     (if \<not> u_list_del_entry_valid cfg entry h then Some h
      else do {
        p \<leftarrow> get_prev entry h;
        n \<leftarrow> get_next entry h;
        u_list_del p n h })"

text \<open>The poison pointers; the offset is a build option (0 unless configured).\<close>

definition POISON_POINTER_DELTA :: "addr option \<Rightarrow> addr" where
  "POISON_POINTER_DELTA config = (case config of Some d \<Rightarrow> d | None \<Rightarrow> 0)"

definition LIST_POISON1 :: "addr option \<Rightarrow> addr" where
  "LIST_POISON1 config = 0x100 + POISON_POINTER_DELTA config"

definition LIST_POISON2 :: "addr option \<Rightarrow> addr" where
  "LIST_POISON2 config = 0x200 + POISON_POINTER_DELTA config"

definition list_del :: "list_config \<Rightarrow> addr option \<Rightarrow> addr \<Rightarrow> heap \<Rightarrow> heap option" where
  "list_del cfg delta entry h = do {
     h \<leftarrow> u_list_del_entry cfg entry h;
     h \<leftarrow> set_next entry (LIST_POISON1 delta) h;
     set_prev entry (LIST_POISON2 delta) h }"

section \<open>Heap lemmas\<close>

definition upd_next :: "addr \<Rightarrow> addr \<Rightarrow> heap \<Rightarrow> heap" where
  "upd_next p v h = h(p := map_option (next_ptr_update (\<lambda>_. v)) (h p))"

definition upd_prev :: "addr \<Rightarrow> addr \<Rightarrow> heap \<Rightarrow> heap" where
  "upd_prev p v h = h(p := map_option (prev_ptr_update (\<lambda>_. v)) (h p))"

lemma set_next_eq: "set_next p v h = (if p \<in> dom h then Some (upd_next p v h) else None)"
  by (auto simp: set_next_def upd_next_def split: option.splits)

lemma set_prev_eq: "set_prev p v h = (if p \<in> dom h then Some (upd_prev p v h) else None)"
  by (auto simp: set_prev_def upd_prev_def split: option.splits)

lemma dom_upd [simp]: "dom (upd_next p v h) = dom h" "dom (upd_prev p v h) = dom h"
  by (auto simp: upd_next_def upd_prev_def dom_def)

lemma get_upd [heap_simps]:
  "get_next q (upd_next p v h) = (if q = p \<and> p \<in> dom h then Some v else get_next q h)"
  "get_next q (upd_prev p v h) = get_next q h"
  "get_prev q (upd_prev p v h) = (if q = p \<and> p \<in> dom h then Some v else get_prev q h)"
  "get_prev q (upd_next p v h) = get_prev q h"
  by (cases "h p"; auto simp: get_next_def get_prev_def upd_next_def upd_prev_def)+

lemma get_Some_dom: "get_next p h = Some q \<Longrightarrow> p \<in> dom h" "get_prev p h = Some q \<Longrightarrow> p \<in> dom h"
  by (auto simp: get_next_def get_prev_def)

lemma upd_other [heap_simps]:
  "q \<noteq> p \<Longrightarrow> upd_next p v h q = h q" "q \<noteq> p \<Longrightarrow> upd_prev p v h q = h q"
  by (simp_all add: upd_next_def upd_prev_def)

section \<open>The ring invariant\<close>

text \<open>
  Two cells are adjacent when each points to the other. The list with head \<open>head\<close> holds the
  entries \<open>xs\<close> when the path head, \<open>xs\<close>, head is adjacent at every step and visits no cell
  twice: the abstraction relation of the component.
\<close>

definition adj :: "heap \<Rightarrow> addr \<Rightarrow> addr \<Rightarrow> bool" where
  "adj h a b \<longleftrightarrow> get_next a h = Some b \<and> get_prev b h = Some a"

definition ring :: "heap \<Rightarrow> addr \<Rightarrow> addr list \<Rightarrow> bool" where
  "ring h head xs \<longleftrightarrow> distinct (head # xs) \<and> successively (adj h) (head # xs @ [head])"

lemma linked_frame:
  assumes "\<forall>q\<in>set (butlast l). get_next q h' = get_next q h"
    and "\<forall>q\<in>set (tl l). get_prev q h' = get_prev q h"
  shows "successively (adj h') l = successively (adj h) l"
  using assms by (induction l rule: induct_list012) (auto simp: adj_def)

lemma ring_frame:
  assumes "\<forall>q\<in>set (head # xs). h' q = h q"
  shows "ring h' head xs = ring h head xs"
proof -
  have "successively (adj h') (head # xs @ [head]) = successively (adj h) (head # xs @ [head])"
    by (rule linked_frame) (use assms in \<open>auto simp: get_next_def get_prev_def dest: in_set_butlastD\<close>)
  then show ?thesis by (simp add: ring_def)
qed

lemma ring_split:
  assumes "ring h head (us @ vs)"
  shows "adj h (last (head # us)) (hd (vs @ [head]))"
    and "successively (adj h) (head # us)" and "successively (adj h) (vs @ [head])"
  using assms successively_append_iff [of "adj h" "head # us" "vs @ [head]"]
  by (simp_all add: ring_def)

lemma ring_join:
  assumes "distinct (head # us @ vs)" and "successively (adj h) (head # us)"
    and "successively (adj h) (vs @ [head])" and "adj h (last (head # us)) (hd (vs @ [head]))"
  shows "ring h head (us @ vs)"
  using assms successively_append_iff [of "adj h" "head # us" "vs @ [head]"]
  by (simp add: ring_def)

text \<open>The cells around a position of the ring: distinctness in the form the proofs use.\<close>

lemma around:
  assumes "distinct (head # us @ vs)"
  shows "last (head # us) \<notin> set (butlast (head # us))" "hd (vs @ [head]) \<notin> set us"
    "last (head # us) \<notin> set vs" "hd (vs @ [head]) \<notin> set (tl (vs @ [head]))"
proof -
  have d: "distinct (head # us)" using assms by simp
  then show "last (head # us) \<notin> set (butlast (head # us))"
    by (metis append_butlast_last_id distinct_butlast list.distinct(1) not_distinct_conv_prefix)
  have "last (head # us) \<in> set (head # us)" by (rule last_in_set) simp
  with assms show "last (head # us) \<notin> set vs" by auto
  show "hd (vs @ [head]) \<notin> set us" and "hd (vs @ [head]) \<notin> set (tl (vs @ [head]))"
    using assms by (cases vs; auto)+
qed

text \<open>Every cell of a ring is allocated.\<close>

lemma linked_dom: "successively (adj h) (xs @ [b]) \<Longrightarrow> set xs \<subseteq> dom h"
  by (induction xs rule: induct_list012) (auto simp: adj_def dest: get_Some_dom)

lemma ring_wf: "ring h head xs \<Longrightarrow> distinct (head # xs) \<and> set (head # xs) \<subseteq> dom h"
  unfolding ring_def using linked_dom [of h "head # xs" head] by simp

section \<open>Insertion\<close>

lemma u_list_add_effect:
  assumes valid: "u_list_add_valid cfg new p n h"
    and "p \<in> dom h" "n \<in> dom h" "new \<in> dom h"
  shows "u_list_add cfg new p n h =
    Some (upd_next p new (upd_prev new p (upd_next new n (upd_prev n new h))))"
  using assms by (simp add: u_list_add_def set_next_eq set_prev_eq)

text \<open>Insertion at any position: the lemma behind both public operations.\<close>

lemma ring_insert:
  assumes r: "ring h head (us @ vs)" and new: "new \<in> dom h" "new \<notin> set (head # us @ vs)"
    and p: "p = last (head # us)" and n: "n = hd (vs @ [head])"
    and valid: "u_list_add_valid cfg new p n h"
  shows "\<exists>h'. u_list_add cfg new p n h = Some h' \<and> ring h' head (us @ new # vs)
    \<and> dom h' = dom h \<and> (\<forall>q. q \<notin> {p, n, new} \<longrightarrow> h' q = h q)"
proof -
  let ?h = "upd_next p new (upd_prev new p (upd_next new n (upd_prev n new h)))"
  have d: "distinct (head # us @ vs)" using r by (simp add: ring_def)
  note ar = around [OF d, folded p n]
  have a: "adj h p n" using ring_split(1) [OF r] p n by simp
  then have dm: "p \<in> dom h" "n \<in> dom h" by (auto simp: adj_def dest: get_Some_dom)
  have "p \<in> set (head # us)" unfolding p by (rule last_in_set) simp
  moreover have "n \<in> set (vs @ [head])" unfolding n by (rule hd_in_set) simp
  ultimately have ne: "p \<noteq> new" "n \<noteq> new" using new by auto
  have tl: "new \<notin> set (tl (vs @ [head]))" using new by (cases vs) auto
  have "successively (adj ?h) (head # us) = successively (adj h) (head # us)"
    by (rule linked_frame) (use ar ne new dm in \<open>auto simp: heap_simps dest: in_set_butlastD\<close>)
  moreover have "successively (adj ?h) (vs @ [head]) = successively (adj h) (vs @ [head])"
    by (rule linked_frame)
      (use ar ne new dm tl in \<open>auto simp: heap_simps butlast_append\<close>)
  moreover have "adj ?h p new" "adj ?h new n"
    using ne new dm by (auto simp: adj_def heap_simps)
  ultimately have "ring ?h head (us @ new # vs)"
    using ring_split(2,3) [OF r] d new p n
    by (intro ring_join) (auto simp: successively_Cons)
  then show ?thesis
    using u_list_add_effect [OF valid dm new(1)] by (auto simp: heap_simps)
qed

lemma ring_add:
  assumes "ring h head xs" and "new \<in> dom h" "new \<notin> set (head # xs)"
    and "u_list_add_valid cfg new head (hd (xs @ [head])) h"
  shows "\<exists>h'. list_add cfg new head h = Some h' \<and> ring h' head (new # xs)
    \<and> dom h' = dom h \<and> (\<forall>q. q \<notin> set (head # new # xs) \<longrightarrow> h' q = h q)"
proof -
  have "get_next head h = Some (hd (xs @ [head]))"
    using ring_split(1) [of h head "[]" xs] assms(1) by (simp add: adj_def)
  moreover have "hd (xs @ [head]) \<in> set (head # xs)" by (cases xs) auto
  ultimately show ?thesis
    using ring_insert [of h head "[]" xs new head "hd (xs @ [head])" cfg] assms
    by (auto simp: list_add_def)
qed

lemma ring_add_tail:
  assumes "ring h head xs" and "new \<in> dom h" "new \<notin> set (head # xs)"
    and "u_list_add_valid cfg new (last (head # xs)) head h"
  shows "\<exists>h'. list_add_tail cfg new head h = Some h' \<and> ring h' head (xs @ [new])
    \<and> dom h' = dom h \<and> (\<forall>q. q \<notin> set (head # new # xs) \<longrightarrow> h' q = h q)"
proof -
  have "get_prev head h = Some (last (head # xs))"
    using ring_split(1) [of h head xs "[]"] assms(1) by (simp add: adj_def)
  moreover have "last (head # xs) \<in> set (head # xs)" by (rule last_in_set) simp
  ultimately show ?thesis
    using ring_insert [of h head xs "[]" new "last (head # xs)" head cfg] assms
    by (auto simp: list_add_tail_def) (metis last_in_set)
qed

section \<open>Deletion\<close>

lemma u_list_del_entry_effect:
  assumes "u_list_del_entry_valid cfg e h" and "adj h p e" "adj h e n"
  shows "u_list_del_entry cfg e h = Some (upd_next p n (upd_prev n p h))"
proof -
  have "p \<in> dom h" "n \<in> dom h" "get_prev e h = Some p" "get_next e h = Some n"
    using assms(2,3) by (auto simp: adj_def dest: get_Some_dom)
  then show ?thesis
    using assms(1) by (simp add: u_list_del_entry_def u_list_del_def set_next_eq set_prev_eq)
qed

lemma ring_del:
  assumes r: "ring h head (us @ e # vs)" and valid: "u_list_del_entry_valid cfg e h"
    and p: "p = last (head # us)" and n: "n = hd (vs @ [head])"
  shows "\<exists>h'. list_del cfg delta e h = Some h' \<and> ring h' head (us @ vs)
    \<and> get_next e h' = Some (LIST_POISON1 delta) \<and> get_prev e h' = Some (LIST_POISON2 delta)
    \<and> dom h' = dom h \<and> (\<forall>q. q \<notin> {p, n, e} \<longrightarrow> h' q = h q)"
proof -
  let ?g = "upd_next p n (upd_prev n p h)"
  let ?h = "upd_prev e (LIST_POISON2 delta) (upd_next e (LIST_POISON1 delta) ?g)"
  have d: "distinct (head # us @ vs)" and e: "e \<notin> set (head # us @ vs)"
    using r by (auto simp: ring_def)
  note ar = around [OF d, folded p n]
  have a: "adj h p e" "adj h e n"
    using ring_split(1) [of h head us "e # vs"] ring_split(1) [of h head "us @ [e]" vs] r p n
    by simp_all
  then have dm: "p \<in> dom h" "n \<in> dom h" "e \<in> dom h" by (auto simp: adj_def dest: get_Some_dom)
  have "p \<in> set (head # us)" unfolding p by (rule last_in_set) simp
  moreover have "n \<in> set (vs @ [head])" unfolding n by (rule hd_in_set) simp
  ultimately have ne: "p \<noteq> e" "n \<noteq> e" using e by auto
  have tl: "e \<notin> set (tl (vs @ [head]))" using e by (cases vs) auto
  have "successively (adj ?h) (head # us) = successively (adj h) (head # us)"
    by (rule linked_frame) (use ar ne e dm in \<open>auto simp: heap_simps dest: in_set_butlastD\<close>)
  moreover have "successively (adj ?h) (vs @ [head]) = successively (adj h) (vs @ [head])"
    by (rule linked_frame) (use ar ne e dm tl in \<open>auto simp: heap_simps butlast_append\<close>)
  moreover have "successively (adj h) (head # us)"
    using ring_split(2) [of h head us "e # vs"] r by simp
  moreover have "successively (adj h) (vs @ [head])"
    using ring_split(3) [of h head "us @ [e]" vs] r by simp
  moreover have "adj ?h p n" using ne dm by (simp add: adj_def heap_simps)
  ultimately have "ring ?h head (us @ vs)" using d p n by (intro ring_join) simp_all
  moreover have "list_del cfg delta e h = Some ?h"
    using u_list_del_entry_effect [OF valid a] dm by (simp add: list_del_def set_next_eq set_prev_eq)
  ultimately show ?thesis using dm by (auto simp: heap_simps)
qed

lemma ring_del_in:
  assumes "ring h head xs" "e \<in> set xs" "u_list_del_entry_valid cfg e h"
  shows "\<exists>h'. list_del cfg delta e h = Some h' \<and> ring h' head (remove1 e xs)
    \<and> get_next e h' = Some (LIST_POISON1 delta) \<and> get_prev e h' = Some (LIST_POISON2 delta)
    \<and> dom h' = dom h \<and> (\<forall>q. q \<notin> set (head # xs) \<longrightarrow> h' q = h q)"
proof -
  obtain us vs where xs: "xs = us @ e # vs" and us: "e \<notin> set us"
    using assms(2) by (rule list_split_at)
  have "last (head # us) \<in> set (head # us)" by (rule last_in_set) simp
  moreover have "hd (vs @ [head]) \<in> set (vs @ [head])" by (rule hd_in_set) simp
  ultimately have mem: "{last (head # us), hd (vs @ [head]), e} \<subseteq> set (head # xs)"
    unfolding xs by auto
  obtain h' where h': "list_del cfg delta e h = Some h'" "ring h' head (us @ vs)"
    "get_next e h' = Some (LIST_POISON1 delta)" "get_prev e h' = Some (LIST_POISON2 delta)"
    "dom h' = dom h" and fr: "\<forall>q. q \<notin> {last (head # us), hd (vs @ [head]), e} \<longrightarrow> h' q = h q"
    using ring_del [OF assms(1) [unfolded xs] assms(3) refl refl] by metis
  have "\<forall>q. q \<notin> set (head # xs) \<longrightarrow> h' q = h q"
    using fr mem by blast
  then show ?thesis using h' us by (auto simp: xs remove1_split)
qed

lemma ring_init:
  assumes "l \<in> dom h"
  shows "\<exists>h'. INIT_LIST_HEAD l h = Some h' \<and> ring h' l [] \<and> dom h' = dom h
    \<and> (\<forall>q. q \<noteq> l \<longrightarrow> h' q = h q)"
  using assms
  by (auto simp: INIT_LIST_HEAD_def set_next_eq set_prev_eq ring_def adj_def heap_simps)

section \<open>The contract\<close>

text \<open>
  The rings of one heap are a node deque: the linked lists of the kernel honour the contract,
  without debug checks or with checks that accept what the operations are given.
\<close>

interpretation ring_deque: node_deque ring dom INIT_LIST_HEAD "list_add None" "list_add_tail None"
  "list_del None delta"
proof unfold_locales
  fix l and s :: heap
  assume "l \<in> dom s"
  then show "\<exists>s'. INIT_LIST_HEAD l s = Some s' \<and> ring s' l [] \<and> dom s' = dom s
    \<and> (\<forall>m ys. ring s m ys \<and> l \<notin> set (m # ys) \<longrightarrow> ring s' m ys)"
    using ring_init [of l s] ring_frame by (metis (no_types, lifting))
next
  fix s :: heap and l x xs
  assume "ring s l xs" "x \<in> dom s" "x \<notin> set (l # xs)"
  then obtain s' where s': "list_add None x l s = Some s'" "ring s' l (x # xs)" "dom s' = dom s"
    and fr: "\<forall>q. q \<notin> set (l # x # xs) \<longrightarrow> s' q = s q"
    using ring_add [of s l xs x None] by (auto simp: u_list_add_valid_def)
  have "ring s' m ys" if "ring s m ys" "set (m # ys) \<inter> set (l # x # xs) = {}" for m ys
    using that fr ring_frame [of m ys s' s] by (simp add: disjoint_iff)
  with s' show "\<exists>s'. list_add None x l s = Some s' \<and> ring s' l (x # xs) \<and> dom s' = dom s
    \<and> (\<forall>m ys. ring s m ys \<and> set (m # ys) \<inter> set (l # x # xs) = {} \<longrightarrow> ring s' m ys)" by blast
next
  fix s :: heap and l x xs
  assume "ring s l xs" "x \<in> dom s" "x \<notin> set (l # xs)"
  then obtain s' where s': "list_add_tail None x l s = Some s'" "ring s' l (xs @ [x])" "dom s' = dom s"
    and fr: "\<forall>q. q \<notin> set (l # x # xs) \<longrightarrow> s' q = s q"
    using ring_add_tail [of s l xs x None] by (auto simp: u_list_add_valid_def)
  have "ring s' m ys" if "ring s m ys" "set (m # ys) \<inter> set (l # x # xs) = {}" for m ys
    using that fr ring_frame [of m ys s' s] by (simp add: disjoint_iff)
  with s' show "\<exists>s'. list_add_tail None x l s = Some s' \<and> ring s' l (xs @ [x]) \<and> dom s' = dom s
    \<and> (\<forall>m ys. ring s m ys \<and> set (m # ys) \<inter> set (l # x # xs) = {} \<longrightarrow> ring s' m ys)" by blast
next
  fix s :: heap and l x xs
  assume "ring s l xs" "x \<in> set xs"
  then obtain s' where s': "list_del None delta x s = Some s'" "ring s' l (remove1 x xs)" "dom s' = dom s"
    and fr: "\<forall>q. q \<notin> set (l # xs) \<longrightarrow> s' q = s q"
    using ring_del_in [of s l xs x None delta] by (auto simp: u_list_del_entry_valid_def)
  have "ring s' m ys" if "ring s m ys" "set (m # ys) \<inter> set (l # xs) = {}" for m ys
    using that fr ring_frame [of m ys s' s] by (simp add: disjoint_iff)
  with s' show "\<exists>s'. list_del None delta x s = Some s' \<and> ring s' l (remove1 x xs) \<and> dom s' = dom s
    \<and> (\<forall>m ys. ring s m ys \<and> set (m # ys) \<inter> set (l # xs) = {} \<longrightarrow> ring s' m ys)" by blast
next
  fix s :: heap and l xs
  assume "ring s l xs"
  then show "distinct (l # xs) \<and> set (l # xs) \<subseteq> dom s"
    by (rule ring_wf)
qed

text \<open>A declared head is an empty list; initialising it at run time gives the same cell.\<close>

lemma LIST_HEAD_ring: "ring (LIST_HEAD name h) name []"
  by (simp add: ring_def adj_def LIST_HEAD_def LIST_HEAD_INIT_def get_next_def get_prev_def)

lemma INIT_LIST_HEAD_eq:
  assumes "name \<in> dom h"
  shows "INIT_LIST_HEAD name h = Some (LIST_HEAD name h)"
proof -
  obtain c where "h name = Some c" using assms by blast
  then show ?thesis
    by (cases c) (simp add: INIT_LIST_HEAD_def LIST_HEAD_def LIST_HEAD_INIT_def set_next_def set_prev_def)
qed

lemma LIST_HEAD_frame:
  assumes "ring h m ys" and "name \<notin> dom h"
  shows "ring (LIST_HEAD name h) m ys"
proof -
  have "q \<noteq> name" if "q \<in> set (m # ys)" for q using ring_wf [OF assms(1)] assms(2) that by blast
  then show ?thesis using assms(1) ring_frame [of m ys "LIST_HEAD name h" h] by (auto simp: LIST_HEAD_def)
qed

section \<open>Sequences of calls\<close>

text \<open>A client that owns several lists in one heap calls the operations in any order.\<close>

abbreviation list_call :: "addr option \<Rightarrow> addr list_op \<Rightarrow> heap \<Rightarrow> heap option" where
  "list_call delta \<equiv> deque_call INIT_LIST_HEAD (list_add None) (list_add_tail None) (list_del None delta)"

text \<open>The lists \<open>A\<close> are in the heap: they share no cell, and each is a well-formed ring.\<close>

definition lists_in :: "heap \<Rightarrow> addr lists \<Rightarrow> bool" where
  "lists_in h A \<longleftrightarrow> distinct (cells A) \<and> (\<forall>(l, xs) \<in> set A. ring h l xs)"

lemma lists_in_holds: "ring_deque.holds_lists U h A \<longleftrightarrow> dom h = U \<and> lists_in h A"
  by (simp add: ring_deque.holds_lists_def lists_in_def)

section \<open>Properties\<close>

text \<open>A heap with an empty list at 0x1000 and three free cells, for the witnesses.\<close>

definition sample_heap :: heap where
  "sample_heap = [0x1000 \<mapsto> \<lparr>next_ptr = 0x1000, prev_ptr = 0x1000\<rparr>,
     0x2000 \<mapsto> \<lparr>next_ptr = 0, prev_ptr = 0\<rparr>, 0x3000 \<mapsto> \<lparr>next_ptr = 0, prev_ptr = 0\<rparr>,
     0x4000 \<mapsto> \<lparr>next_ptr = 0, prev_ptr = 0\<rparr>]"

lemma sample_ring: "ring sample_heap 0x1000 []"
  by (simp add: ring_def adj_def sample_heap_def get_next_def get_prev_def)

lemma dom_sample: "dom sample_heap = {0x1000, 0x2000, 0x3000, 0x4000}"
  by (auto simp: sample_heap_def split: if_splits)

text \<open>C2: \<open>list_add\<close> puts a new entry right after the head of a well-formed list and keeps the
  list well-formed; no cell outside the list changes, and nothing is allocated or freed.\<close>

theorem list_add_correct:
  assumes "ring h head xs" and "new \<in> dom h" and "new \<notin> set (head # xs)"
    and "u_list_add_valid cfg new head (hd (xs @ [head])) h"
  shows "\<exists>h'. list_add cfg new head h = Some h' \<and> ring h' head (new # xs)
    \<and> dom h' = dom h \<and> (\<forall>q. q \<notin> set (head # new # xs) \<longrightarrow> h' q = h q)"
  using assms by (rule ring_add)

theorem list_add_correct_witness:
  "\<exists>h'. list_add None 0x2000 0x1000 sample_heap = Some h' \<and> ring h' 0x1000 [0x2000]
    \<and> dom h' = dom sample_heap \<and> h' 0x3000 = sample_heap 0x3000"
proof -
  have "\<exists>h'. list_add None 0x2000 0x1000 sample_heap = Some h' \<and> ring h' 0x1000 [0x2000]
    \<and> dom h' = dom sample_heap \<and> (\<forall>q. q \<notin> {0x1000, 0x2000} \<longrightarrow> h' q = sample_heap q)"
    using list_add_correct [OF sample_ring, of "0x2000" None]
    by (simp add: dom_sample u_list_add_valid_def)
  then obtain h' where h': "list_add None 0x2000 0x1000 sample_heap = Some h'" "ring h' 0x1000 [0x2000]"
    "dom h' = dom sample_heap" and fr: "\<forall>q. q \<notin> {0x1000, 0x2000} \<longrightarrow> h' q = sample_heap q"
    by - (elim exE conjE, rule that, assumption+)
  have "h' 0x3000 = sample_heap 0x3000" using fr by simp
  with h' show ?thesis by (intro exI [of _ h'] conjI)
qed

text \<open>C3: \<open>list_add_tail\<close> puts a new entry right before the head, that is, after the last entry,
  under the same conditions and with the same frame.\<close>

theorem list_add_tail_correct:
  assumes "ring h head xs" and "new \<in> dom h" and "new \<notin> set (head # xs)"
    and "u_list_add_valid cfg new (last (head # xs)) head h"
  shows "\<exists>h'. list_add_tail cfg new head h = Some h' \<and> ring h' head (xs @ [new])
    \<and> dom h' = dom h \<and> (\<forall>q. q \<notin> set (head # new # xs) \<longrightarrow> h' q = h q)"
  using assms by (rule ring_add_tail)

theorem list_add_tail_correct_witness:
  "\<exists>h'. list_add_tail None 0x2000 0x1000 sample_heap = Some h' \<and> ring h' 0x1000 [0x2000]
    \<and> dom h' = dom sample_heap \<and> h' 0x3000 = sample_heap 0x3000"
proof -
  have "\<exists>h'. list_add_tail None 0x2000 0x1000 sample_heap = Some h' \<and> ring h' 0x1000 [0x2000]
    \<and> dom h' = dom sample_heap \<and> (\<forall>q. q \<notin> {0x1000, 0x2000} \<longrightarrow> h' q = sample_heap q)"
    using list_add_tail_correct [OF sample_ring, of "0x2000" None]
    by (simp add: dom_sample u_list_add_valid_def)
  then obtain h' where h': "list_add_tail None 0x2000 0x1000 sample_heap = Some h'" "ring h' 0x1000 [0x2000]"
    "dom h' = dom sample_heap" and fr: "\<forall>q. q \<notin> {0x1000, 0x2000} \<longrightarrow> h' q = sample_heap q"
    by - (elim exE conjE, rule that, assumption+)
  have "h' 0x3000 = sample_heap 0x3000" using fr by simp
  with h' show ?thesis by (intro exI [of _ h'] conjI)
qed

text \<open>C1: \<open>list_del\<close> unlinks an entry from any position, keeps the order of the others, leaves
  the two poison pointers in the entry and touches no cell outside the list.\<close>

theorem list_del_correct:
  assumes "ring h head xs" and "entry \<in> set xs" and "u_list_del_entry_valid cfg entry h"
  shows "\<exists>h'. list_del cfg delta entry h = Some h' \<and> ring h' head (remove1 entry xs)
    \<and> get_next entry h' = Some (LIST_POISON1 delta) \<and> get_prev entry h' = Some (LIST_POISON2 delta)
    \<and> dom h' = dom h \<and> (\<forall>q. q \<notin> set (head # xs) \<longrightarrow> h' q = h q)"
  using assms by (rule ring_del_in)

definition sample_heap2 :: heap where
  "sample_heap2 = [0x1000 \<mapsto> \<lparr>next_ptr = 0x2000, prev_ptr = 0x3000\<rparr>,
     0x2000 \<mapsto> \<lparr>next_ptr = 0x3000, prev_ptr = 0x1000\<rparr>,
     0x3000 \<mapsto> \<lparr>next_ptr = 0x1000, prev_ptr = 0x2000\<rparr>,
     0x4000 \<mapsto> \<lparr>next_ptr = 0x4000, prev_ptr = 0x4000\<rparr>]"

lemma sample_ring2: "ring sample_heap2 0x1000 [0x2000, 0x3000]" "ring sample_heap2 0x4000 []"
  by (simp_all add: ring_def adj_def sample_heap2_def get_next_def get_prev_def)

lemma dom_sample2: "dom sample_heap2 = {0x1000, 0x2000, 0x3000, 0x4000}"
  by (auto simp: sample_heap2_def split: if_splits)

theorem list_del_correct_witness:
  "\<exists>h'. list_del None None 0x2000 sample_heap2 = Some h' \<and> ring h' 0x1000 [0x3000]
    \<and> get_next 0x2000 h' = Some 0x100 \<and> get_prev 0x2000 h' = Some 0x200
    \<and> dom h' = dom sample_heap2 \<and> h' 0x4000 = sample_heap2 0x4000"
proof -
  have "\<exists>h'. list_del None None 0x2000 sample_heap2 = Some h' \<and> ring h' 0x1000 [0x3000]
    \<and> get_next 0x2000 h' = Some 0x100 \<and> get_prev 0x2000 h' = Some 0x200
    \<and> dom h' = dom sample_heap2 \<and> (\<forall>q. q \<notin> {0x1000, 0x2000, 0x3000} \<longrightarrow> h' q = sample_heap2 q)"
    using list_del_correct [OF sample_ring2(1), of "0x2000" None None]
    by (simp add: u_list_del_entry_valid_def LIST_POISON1_def LIST_POISON2_def POISON_POINTER_DELTA_def)
  then obtain h' where h': "list_del None None 0x2000 sample_heap2 = Some h'" "ring h' 0x1000 [0x3000]"
    "get_next 0x2000 h' = Some 0x100" "get_prev 0x2000 h' = Some 0x200" "dom h' = dom sample_heap2"
    and fr: "\<forall>q. q \<notin> {0x1000, 0x2000, 0x3000} \<longrightarrow> h' q = sample_heap2 q"
    by - (elim exE conjE, rule that, assumption+)
  have "h' 0x4000 = sample_heap2 0x4000" using fr by simp
  with h' show ?thesis by (intro exI [of _ h'] conjI)
qed

text \<open>C4: whatever calls a client makes on several lists of one heap, as long as it adds only entries
  that are on no list, removes only entries that are on one, and initialises no entry of a list, none of
  them faults, and the lists hold what the same calls give on abstract lists: pushing at the front for
  \<open>list_add\<close>, appending for \<open>list_add_tail\<close>, removing for \<open>list_del\<close>, the empty list for
  \<open>INIT_LIST_HEAD\<close>. The lists stay disjoint and well-formed throughout.\<close>

theorem list_calls_simulate:
  assumes "lists_in h A" and "run_all (spec_call (dom h)) calls A = Some A'"
  shows "\<exists>h'. run_all (list_call delta) calls h = Some h' \<and> lists_in h' A' \<and> dom h' = dom h"
  using ring_deque.calls.run [of "dom h" h A calls A' delta] assms by (auto simp: lists_in_holds)

theorem list_calls_simulate_witness:
  "\<exists>h'. run_all (list_call None) [Init 0x1000, Enqueue 0x2000 0x1000, Push 0x3000 0x1000, Init 0x4000, Unlink 0x2000,
      Enqueue 0x2000 0x4000] sample_heap = Some h'
    \<and> lists_in h' [(0x4000, [0x2000]), (0x1000, [0x3000])]"
  using list_calls_simulate [of sample_heap "[]" "[Init 0x1000, Enqueue 0x2000 0x1000, Push 0x3000 0x1000, Init 0x4000,
      Unlink 0x2000, Enqueue 0x2000 0x4000]" "[(0x4000, [0x2000]), (0x1000, [0x3000])]" None]
  by (auto simp: dom_sample lists_in_def simp del: deque_call.simps)

text \<open>A list that is initialised and then filled is a stack with \<open>list_add\<close> (the entries are
  in reverse order of insertion) and a queue with \<open>list_add_tail\<close> (in order of insertion), as
  the comments of the two functions say; filling it never faults.\<close>

theorem list_stack_and_queue:
  assumes "head \<in> dom h" and "distinct (head # ys)" and "set ys \<subseteq> dom h"
  shows "\<exists>h0 h1 h2. INIT_LIST_HEAD head h = Some h0
    \<and> run_all (\<lambda>y. list_add None y head) ys h0 = Some h1 \<and> ring h1 head (rev ys)
    \<and> run_all (\<lambda>y. list_add_tail None y head) ys h0 = Some h2 \<and> ring h2 head ys"
proof -
  obtain h0 where "INIT_LIST_HEAD head h = Some h0" "ring h0 head []" "dom h0 = dom h"
    using ring_deque.init_rep [OF assms(1)] by blast
  then show ?thesis
    using ring_deque.push_all [of h0 head "[]" ys] ring_deque.enqueue_all [of h0 head "[]" ys] assms
    by auto
qed

theorem list_stack_and_queue_witness:
  "\<exists>h0 h1 h2. INIT_LIST_HEAD 0x1000 sample_heap = Some h0
    \<and> run_all (\<lambda>y. list_add None y 0x1000) [0x2000, 0x3000, 0x4000] h0 = Some h1
    \<and> ring h1 0x1000 [0x4000, 0x3000, 0x2000]
    \<and> run_all (\<lambda>y. list_add_tail None y 0x1000) [0x2000, 0x3000, 0x4000] h0 = Some h2
    \<and> ring h2 0x1000 [0x2000, 0x3000, 0x4000]"
  using list_stack_and_queue [of "0x1000" sample_heap "[0x2000, 0x3000, 0x4000]"]
  by (simp add: dom_sample del: run_all.simps)

text \<open>An entry moves from one list to the tail of another with \<open>list_del\<close> and
  \<open>list_add_tail\<close>: both lists stay well-formed and no other entry moves.\<close>

theorem list_move_between_lists:
  assumes "ring h head xs" and "ring h head2 ys" and "set (head # xs) \<inter> set (head2 # ys) = {}"
    and "entry \<in> set xs"
  shows "\<exists>h' h''. list_del None delta entry h = Some h' \<and> list_add_tail None entry head2 h' = Some h''
    \<and> ring h'' head (remove1 entry xs) \<and> ring h'' head2 (ys @ [entry])"
  using assms by (rule ring_deque.move_node)

theorem list_move_between_lists_witness:
  "\<exists>h' h''. list_del None None 0x3000 sample_heap2 = Some h'
    \<and> list_add_tail None 0x3000 0x4000 h' = Some h''
    \<and> ring h'' 0x1000 [0x2000] \<and> ring h'' 0x4000 [0x3000]"
  using list_move_between_lists [OF sample_ring2, of "0x3000" None] by simp

text \<open>Deleting an entry twice is caught: when the poison addresses are not mapped, the
  second \<open>list_del\<close> of an entry faults instead of corrupting a list.\<close>

theorem list_del_twice_faults:
  assumes "ring h head xs" and "entry \<in> set xs"
    and "LIST_POISON1 delta \<notin> dom h" and "list_del None delta entry h = Some h'"
  shows "list_del None delta entry h' = None"
proof -
  have "get_next entry h' = Some (LIST_POISON1 delta)" "dom h' = dom h"
    "get_prev entry h' = Some (LIST_POISON2 delta)"
    using ring_del_in [OF assms(1,2), of None delta] assms(4) by (auto simp: u_list_del_entry_valid_def)
  then show ?thesis
    using assms(3)
    by (simp add: list_del_def u_list_del_entry_def u_list_del_entry_valid_def u_list_del_def set_prev_eq)
qed

theorem list_del_twice_faults_witness:
  "\<exists>h'. list_del None None 0x2000 sample_heap2 = Some h' \<and> list_del None None 0x2000 h' = None"
proof -
  obtain h' where h': "list_del None None 0x2000 sample_heap2 = Some h'"
    using ring_del_in [OF sample_ring2(1), of "0x2000" None None]
    by (auto simp: u_list_del_entry_valid_def)
  moreover have "LIST_POISON1 None \<notin> dom sample_heap2"
    by (simp add: dom_sample2 LIST_POISON1_def POISON_POINTER_DELTA_def)
  ultimately show ?thesis using list_del_twice_faults [OF sample_ring2(1), of "0x2000" None h'] by simp
qed

text \<open>When the debug check of \<open>CONFIG_DEBUG_LIST\<close> rejects a deletion, the entry is not
  unlinked but is poisoned all the same: its neighbours still point to it, and the list is no
  longer well-formed. A rejected insertion, in contrast, leaves the heap as it was.\<close>

theorem list_del_rejected_breaks_list:
  assumes "ring h head xs" and "entry \<in> set xs" and "\<not> u_list_del_entry_valid cfg entry h"
    and "LIST_POISON1 delta \<notin> dom h"
  shows "\<exists>h'. list_del cfg delta entry h = Some h' \<and> (\<forall>q. q \<noteq> entry \<longrightarrow> h' q = h q)
    \<and> (\<forall>ys. entry \<in> set ys \<longrightarrow> \<not> ring h' head ys)"
proof -
  have e: "entry \<in> dom h" using ring_wf [OF assms(1)] assms(2) by auto
  let ?h = "upd_prev entry (LIST_POISON2 delta) (upd_next entry (LIST_POISON1 delta) h)"
  have del: "list_del cfg delta entry h = Some ?h"
    using e assms(3) by (simp add: list_del_def u_list_del_entry_def set_next_eq set_prev_eq)
  have "\<not> ring ?h head ys" if ys: "entry \<in> set ys" for ys
  proof
    assume r: "ring ?h head ys"
    obtain us vs where "ys = us @ entry # vs" using ys by (meson split_list)
    then have "adj ?h entry (hd (vs @ [head]))"
      using ring_split(1) [of ?h head "us @ [entry]" vs] r by simp
    then have "LIST_POISON1 delta = hd (vs @ [head])" using e by (auto simp: adj_def heap_simps)
    moreover have "hd (vs @ [head]) \<in> dom ?h"
      using ring_wf [OF r] \<open>ys = _\<close> by (cases vs) auto
    ultimately show False using assms(4) by simp
  qed
  then show ?thesis using del by (auto simp: heap_simps)
qed

definition reject_del :: debug_list where
  "reject_del = \<lparr>dbg_add_valid = (\<lambda>_ _ _ _. True), dbg_del_valid = (\<lambda>_ _. False)\<rparr>"

theorem list_del_rejected_breaks_list_witness:
  "\<exists>h'. list_del (Some reject_del) None 0x2000 sample_heap2 = Some h'
    \<and> h' 0x3000 = sample_heap2 0x3000 \<and> \<not> ring h' 0x1000 [0x2000, 0x3000]"
proof -
  have "\<exists>h'. list_del (Some reject_del) None 0x2000 sample_heap2 = Some h'
    \<and> (\<forall>q. q \<noteq> 0x2000 \<longrightarrow> h' q = sample_heap2 q) \<and> (\<forall>ys. 0x2000 \<in> set ys \<longrightarrow> \<not> ring h' 0x1000 ys)"
    using list_del_rejected_breaks_list [OF sample_ring2(1), of "0x2000" "Some reject_del" None]
    by (simp add: dom_sample2 u_list_del_entry_valid_def reject_del_def LIST_POISON1_def
      POISON_POINTER_DELTA_def)
  then obtain h' where h': "list_del (Some reject_del) None 0x2000 sample_heap2 = Some h'"
    and fr: "\<forall>q. q \<noteq> 0x2000 \<longrightarrow> h' q = sample_heap2 q" "\<forall>ys. 0x2000 \<in> set ys \<longrightarrow> \<not> ring h' 0x1000 ys"
    by - (elim exE conjE, rule that, assumption+)
  have "h' 0x3000 = sample_heap2 0x3000" "\<not> ring h' 0x1000 [0x2000, 0x3000]" using fr by simp_all
  with h' show ?thesis by (intro exI [of _ h'] conjI)
qed

end
