(* ===== verification/Dev_Num.thy ===== *)
theory Dev_Num
  imports Prelude
begin

text \<open>
  Device numbers: the macros \<open>MINORBITS\<close>, \<open>MINORMASK\<close>, \<open>MAJOR\<close>, \<open>MINOR\<close> and \<open>MKDEV\<close>
  of \<open>util.c\<close> on 32-bit values, and the two readers of \<open>fs.c\<close> that use them. A \<open>dev_t\<close> is a
  32-bit unsigned integer.
\<close>

section \<open>The macros\<close>

definition MINORBITS :: nat where
  "MINORBITS = 20"

definition MINORMASK :: u32 where
  "MINORMASK = push_bit MINORBITS 1 - 1"

definition MAJOR :: "u32 \<Rightarrow> u32" where
  "MAJOR dev = drop_bit MINORBITS dev"

definition MINOR :: "u32 \<Rightarrow> u32" where
  "MINOR dev = dev AND MINORMASK"

definition MKDEV :: "u32 \<Rightarrow> u32 \<Rightarrow> u32" where
  "MKDEV ma mi = push_bit MINORBITS ma OR mi"

section \<open>The readers of a struct inode\<close>

text \<open>The readers look at one member of \<open>struct inode\<close>; the whole declaration is laid out in
  the theory of the file system structures.\<close>

record inode =
  i_rdev :: u32

definition iminor :: "inode \<Rightarrow> u32" where
  "iminor ino = MINOR (i_rdev ino)"

definition imajor :: "inode \<Rightarrow> u32" where
  "imajor ino = MAJOR (i_rdev ino)"

section \<open>Bits\<close>

lemma MINORMASK_eq: "MINORMASK = mask 20"
  by (simp add: MINORMASK_def MINORBITS_def mask_eq_exp_minus_1 push_bit_eq_mult)

lemma MINOR_take_bit: "MINOR dev = take_bit 20 dev"
  by (simp add: MINOR_def MINORMASK_eq take_bit_eq_mask)

lemma small_iff_take_bit: "n \<le> LENGTH('a) \<Longrightarrow> take_bit n w = w \<longleftrightarrow> unat w < 2 ^ n" for w :: "'a::len word"
proof -
  have "take_bit n w = w \<longleftrightarrow> unat (take_bit n w) = unat w" by (rule word_unat_eq_iff)
  also have "\<dots> \<longleftrightarrow> take_bit n (unat w) = unat w" by (simp add: unsigned_take_bit_eq)
  also have "\<dots> \<longleftrightarrow> unat w < 2 ^ n" by (simp add: take_bit_nat_eq_self_iff)
  finally show ?thesis .
qed

lemma MAJOR_MKDEV: "MAJOR (MKDEV ma mi) = take_bit 12 ma OR drop_bit 20 mi"
  by (rule bit_word_eqI) (auto simp: MAJOR_def MKDEV_def MINORBITS_def bit_simps)

lemma MINOR_MKDEV: "MINOR (MKDEV ma mi) = take_bit 20 mi"
  by (rule bit_word_eqI) (auto simp: MINOR_take_bit MKDEV_def MINORBITS_def bit_simps)

lemma drop_take_zero: "take_bit n w = w \<Longrightarrow> drop_bit n w = 0" for w :: "'a::len word"
  using drop_bit_take_bit [of n n w] by simp

lemma MKDEV_parts:
  "MAJOR (MKDEV ma mi) = ma \<and> MINOR (MKDEV ma mi) = mi \<longleftrightarrow> unat ma < 2 ^ 12 \<and> unat mi < 2 ^ 20"
proof -
  have "MAJOR (MKDEV ma mi) = ma \<and> MINOR (MKDEV ma mi) = mi \<longleftrightarrow>
      take_bit 12 ma OR drop_bit 20 mi = ma \<and> take_bit 20 mi = mi"
    by (simp add: MAJOR_MKDEV MINOR_MKDEV)
  also have "\<dots> \<longleftrightarrow> take_bit 12 ma = ma \<and> take_bit 20 mi = mi"
    using drop_take_zero [of 20 mi] by auto
  finally show ?thesis by (simp add: small_iff_take_bit)
qed

lemma MKDEV_surj: "MKDEV (MAJOR dev) (MINOR dev) = dev"
  by (rule bit_word_eqI)
    (auto simp: MAJOR_def MINOR_take_bit MKDEV_def MINORBITS_def bit_simps le_less_linear)

lemma MKDEV_MAJOR_0: "MINOR dev = 0 \<Longrightarrow> MKDEV (MAJOR dev) 0 = dev"
  using MKDEV_surj [of dev] by simp

section \<open>Properties\<close>

text \<open>C35: splitting a device number into major and minor and putting it together again gives
  the number back, for every 32-bit value; conversely \<open>MKDEV\<close> keeps both of its arguments
  exactly when the major fits in 12 bits and the minor in 20.\<close>

theorem dev_number_roundtrip:
  "MKDEV (MAJOR dev) (MINOR dev) = dev
   \<and> (MAJOR (MKDEV ma mi) = ma \<and> MINOR (MKDEV ma mi) = mi \<longleftrightarrow> unat ma < 2 ^ 12 \<and> unat mi < 2 ^ 20)"
  by (rule conjI, rule MKDEV_surj, rule MKDEV_parts)

text \<open>\<open>imajor\<close> and \<open>iminor\<close> of an inode are in range (12 and 20 bits) and together
  determine its device number: two inodes agree on both exactly when they name the same device.\<close>

theorem inode_device_identity:
  "unat (imajor a) < 2 ^ 12 \<and> unat (iminor a) < 2 ^ 20
   \<and> (imajor a = imajor b \<and> iminor a = iminor b \<longleftrightarrow> i_rdev a = i_rdev b)"
proof -
  have "MAJOR (MKDEV (imajor a) (iminor a)) = imajor a \<and> MINOR (MKDEV (imajor a) (iminor a)) = iminor a"
    by (simp add: imajor_def iminor_def MKDEV_surj)
  then have "unat (imajor a) < 2 ^ 12 \<and> unat (iminor a) < 2 ^ 20" by (simp only: MKDEV_parts)
  moreover have "imajor a = imajor b \<and> iminor a = iminor b \<longleftrightarrow> i_rdev a = i_rdev b"
    unfolding imajor_def iminor_def by (metis MKDEV_surj)
  ultimately show ?thesis by blast
qed

end
