(* ===== verification/Fact_Bench.thy ===== *)
theory Fact_Bench
  imports Prelude
begin

text \<open>
  The two factorial routines of \<open>factorial.c\<close> and the timing loop around them. \<open>int\<close> has 32
  bits and is compared signed; \<open>unsigned long\<close> has 64 and its products wrap.
\<close>

section \<open>The routines\<close>

text \<open>The conversion of an \<open>int\<close> operand of an \<open>unsigned long\<close> product: sign extension.\<close>

definition ulong_of_int :: "32 word \<Rightarrow> u64" where
  "ulong_of_int n = scast n"

lemma sint_minus_1: "1 <s n \<Longrightarrow> sint (n - 1) = sint n - 1" for n :: "32 word"
  using sint_ge [of n] sint_lt [of n]
  by (simp add: word_sless_alt sint_word_ariths signed_take_bit_int_eq_self)

lemma sint_minus_1_ge: "2 <=s n \<Longrightarrow> sint (n - 1) = sint n - 1" for n :: "32 word"
  by (rule sint_minus_1) (simp add: word_sless_alt word_sle_eq)

function fact_r :: "32 word \<Rightarrow> u64" where
  "fact_r n = (if 1 <s n then fact_r (n - 1) * ulong_of_int n else 1)"
  by pat_completeness auto
termination
  by (relation "measure (\<lambda>n. nat (sint n))") (auto simp: sint_minus_1 word_sless_alt)

declare fact_r.simps [simp del]

text \<open>The loop of \<open>fact_i\<close>: \<open>fact *= n--\<close> multiplies by the old value of \<open>n\<close>.\<close>

function fact_i_loop :: "32 word \<Rightarrow> u64 \<Rightarrow> u64" where
  "fact_i_loop n acc = (if 2 <=s n then fact_i_loop (n - 1) (acc * ulong_of_int n) else acc)"
  by pat_completeness auto
termination
  by (relation "measure (\<lambda>(n, acc). nat (sint n))") (auto simp: sint_minus_1_ge word_sle_eq)

declare fact_i_loop.simps [simp del]

definition fact_i :: "32 word \<Rightarrow> u64" where
  "fact_i n = fact_i_loop n 1"

section \<open>The timing loop\<close>

text \<open>
  \<open>how_long\<close> reads the clock, calls the routine \<open>n_meas\<close> times, reads the clock again, and
  prints the name of the routine and its last result. \<open>clock\<close> is a parameter that threads the
  state of the outside world; \<open>fact\<close> is uninitialised before the loop, its first value the
  parameter \<open>garbage\<close>. The result is the printed line and the number of clock ticks between
  the readings, a signed \<open>clock_t\<close>; the division by \<open>CLOCKS_PER_SEC\<close> is not modelled.
\<close>

datatype routine = Fact_r | Fact_i

definition call :: "routine \<Rightarrow> 32 word \<Rightarrow> u64" where
  "call f n = (case f of Fact_r \<Rightarrow> fact_r n | Fact_i \<Rightarrow> fact_i n)"

function measure_loop :: "32 word \<Rightarrow> 32 word \<Rightarrow> routine \<Rightarrow> 32 word \<Rightarrow> u64 \<Rightarrow> u64" where
  "measure_loop k n_meas f n result =
     (if k <s n_meas then measure_loop (k + 1) n_meas f n (call f n) else result)"
  by pat_completeness auto
termination
proof (relation "measure (\<lambda>(k, m, f, n, r). nat (sint m - sint k))")
  fix k m :: "32 word" and f :: routine and n :: "32 word" and r :: u64
  assume "k <s m"
  then show "((k + 1, m, f, n, call f n), k, m, f, n, r) \<in> measure (\<lambda>(k, m, f, n, r). nat (sint m - sint k))"
    using sint_ge [of k] sint_lt [of m]
    by (simp add: word_sless_alt sint_word_ariths signed_take_bit_int_eq_self)
qed auto

declare measure_loop.simps [simp del]

definition how_long ::
    "('w \<Rightarrow> 64 word \<times> 'w) \<Rightarrow> 32 word \<Rightarrow> 32 word \<Rightarrow> routine \<Rightarrow> u64 \<Rightarrow> 'w \<Rightarrow> (string \<times> u64 \<times> 64 word) \<times> 'w" where
  "how_long clock n n_meas f garbage w =
     (let (start, w) = clock w;
          result = measure_loop 0 n_meas f n garbage;
          (stop, w) = clock w
      in (((if f = Fact_r then ''Recursion'' else ''Iteration''), result, stop - start), w))"

definition bench_main ::
    "('w \<Rightarrow> 64 word \<times> 'w) \<Rightarrow> u64 \<Rightarrow> u64 \<Rightarrow> 'w \<Rightarrow> (string \<times> u64 \<times> 64 word) list \<times> 'w" where
  "bench_main clock garbage1 garbage2 w =
     (let (r, w) = how_long clock 20 10000000 Fact_r garbage1 w;
          (i, w) = how_long clock 20 10000000 Fact_i garbage2 w
      in ([r, i], w))"

section \<open>The routines compute the factorial modulo 2^64\<close>

lemma ulong_of_int_pos: "0 \<le> sint n \<Longrightarrow> ulong_of_int n = of_nat (nat (sint n))"
  by (simp only: ulong_of_int_def scast_eq of_nat_nat)

lemma fact_step: "1 < sint n \<Longrightarrow>
  (of_nat (fact (nat (sint n))) :: u64) = of_nat (fact (nat (sint n - 1))) * of_nat (nat (sint n))"
proof -
  assume "1 < sint n"
  then have "nat (sint n) = Suc (nat (sint n - 1))" by simp
  then show ?thesis by (metis fact_Suc mult.commute of_nat_id of_nat_mult)
qed

lemma fact_r_eq: "fact_r n = of_nat (fact (nat (sint n)))"
proof (induction n rule: fact_r.induct)
  case (1 n)
  show ?case
  proof (cases "1 <s n")
    case True
    then have "fact_r n = of_nat (fact (nat (sint n - 1))) * of_nat (nat (sint n))"
      using 1 by (simp add: fact_r.simps [of n] sint_minus_1 ulong_of_int_pos word_sless_alt)
    then show ?thesis using True fact_step [of n] by (simp add: word_sless_alt)
  next
    case False
    then have "nat (sint n) = 0 \<or> nat (sint n) = 1" by (auto simp: word_sless_alt)
    then show ?thesis using False by (auto simp: fact_r.simps [of n])
  qed
qed

lemma fact_i_loop_eq: "fact_i_loop n acc = acc * of_nat (fact (nat (sint n)))"
proof (induction n acc rule: fact_i_loop.induct)
  case (1 n acc)
  show ?case
  proof (cases "2 <=s n")
    case True
    then have "fact_i_loop n acc = acc * (of_nat (fact (nat (sint n - 1))) * of_nat (nat (sint n)))"
      using 1 by (simp add: fact_i_loop.simps [of n] sint_minus_1_ge ulong_of_int_pos word_sle_eq mult_ac)
    then show ?thesis using True fact_step [of n] by (simp add: word_sle_eq)
  next
    case False
    then have "nat (sint n) = 0 \<or> nat (sint n) = 1" by (auto simp: word_sle_eq)
    then show ?thesis using False by (auto simp: fact_i_loop.simps [of n])
  qed
qed

lemma fact_i_eq: "fact_i n = of_nat (fact (nat (sint n)))"
  by (simp add: fact_i_def fact_i_loop_eq)

lemma call_eq: "call f n = of_nat (fact (nat (sint n)))"
  by (simp add: call_def fact_r_eq fact_i_eq split: routine.splits)

lemma measure_loop_eq: "measure_loop k m f n r = (if k <s m then call f n else r)"
proof (induction k m f n r rule: measure_loop.induct)
  case (1 k m f n r)
  then show ?case by (simp add: measure_loop.simps [of k])
qed

lemma fact_20: "fact 20 = (2432902008176640000::nat)"
  by (simp add: fact_numeral)

lemma fact_21: "fact 21 = (51090942171709440000::nat)"
  by (simp add: fact_numeral)

lemma fact_66_dvd: "(2 ^ 64 :: nat) dvd fact 66"
  by (simp add: fact_numeral)

section \<open>Properties\<close>

text \<open>C34: the recursive and the iterative routine agree on every \<open>int\<close>, negative ones and those
  whose factorial overflows included: both return the factorial modulo 2^64 (1 below 2).\<close>

theorem fact_r_fact_i_agree:
  "fact_r n = fact_i n \<and> unat (fact_r n) = fact (nat (sint n)) mod 2 ^ 64"
  by (simp add: fact_r_eq fact_i_eq unat_of_nat)

text \<open>The result is the exact factorial precisely up to 20, the argument the program uses;
  from 66 on every result is 0, since 2^64 divides the factorial.\<close>

theorem fact_exact_iff_upto_20:
  "(unat (fact_r n) = fact (nat (sint n)) \<longleftrightarrow> sint n \<le> 20)
   \<and> (66 \<le> sint n \<longrightarrow> fact_i n = 0)"
proof (intro conjI impI)
  have r: "unat (fact_r n) = fact (nat (sint n)) mod 2 ^ 64"
    by (simp add: fact_r_eq unat_of_nat)
  show "unat (fact_r n) = fact (nat (sint n)) \<longleftrightarrow> sint n \<le> 20"
  proof (cases "sint n \<le> 20")
    case True
    then have "fact (nat (sint n)) \<le> (fact 20 :: nat)" by (intro fact_mono_nat) simp
    then have "fact (nat (sint n)) < (2 ^ 64 :: nat)" by (simp add: fact_20)
    then show ?thesis using True r by simp
  next
    case False
    then have "(fact 21 :: nat) \<le> fact (nat (sint n))" by (intro fact_mono_nat) simp
    then have "(2 ^ 64 :: nat) < fact (nat (sint n))" by (simp add: fact_21)
    moreover have "unat (fact_r n) < 2 ^ 64" using unsigned_less [of "fact_r n"] by simp
    ultimately show ?thesis using False by linarith
  qed
  assume "66 \<le> sint n"
  then have "(fact 66 :: nat) dvd fact (nat (sint n))" by (intro fact_dvd) simp
  with fact_66_dvd have "(2 ^ 64 :: nat) dvd fact (nat (sint n))" by (rule dvd_trans)
  then have "fact (nat (sint n)) mod (2 ^ 64 :: nat) = 0" by (rule dvd_imp_mod_0)
  then have "unat (fact_i n) = 0" using r by (simp add: fact_r_eq fact_i_eq)
  then show "fact_i n = 0" by (simp add: unat_eq_zero)
qed

theorem fact_exact_iff_upto_20_witness: "fact_i 66 = 0 \<and> unat (fact_r 20) = fact 20"
  using fact_exact_iff_upto_20 [of 20] fact_exact_iff_upto_20 [of 66] by simp

text \<open>\<open>how_long\<close> prints the routine's value whenever it measures at least once; with a
  measurement count of 0 or less the printed value is the uninitialised variable. \<open>bench_main\<close> prints
  the two lines recorded in the comment of the file, whatever the clock returns and whatever the
  uninitialised variables held.\<close>

theorem how_long_prints:
  "(\<exists>ticks w'. how_long clock n n_meas f garbage w =
     (((if f = Fact_r then ''Recursion'' else ''Iteration''),
       (if 0 <s n_meas then of_nat (fact (nat (sint n))) else garbage), ticks), w'))
   \<and> (\<exists>t1 t2 w'. bench_main clock g1 g2 w =
     ([(''Recursion'', 2432902008176640000, t1), (''Iteration'', 2432902008176640000, t2)], w'))"
proof (intro conjI)
  have loop: "measure_loop 0 m f n r = (if 0 <s m then of_nat (fact (nat (sint n))) else r)" for m f n r
    by (simp add: measure_loop_eq call_eq)
  show "\<exists>ticks w'. how_long clock n n_meas f garbage w =
     (((if f = Fact_r then ''Recursion'' else ''Iteration''),
       (if 0 <s n_meas then of_nat (fact (nat (sint n))) else garbage), ticks), w')"
    unfolding how_long_def loop by (auto simp: Let_def split: prod.splits)
  have v: "(of_nat (fact (nat (sint (20 :: 32 word)))) :: u64) = 2432902008176640000"
    by (simp add: fact_20)
  show "\<exists>t1 t2 w'. bench_main clock g1 g2 w =
     ([(''Recursion'', 2432902008176640000, t1), (''Iteration'', 2432902008176640000, t2)], w')"
    unfolding bench_main_def how_long_def loop v by (simp add: word_sless_alt split: prod.splits)
qed

end
