(* ===== verification/Sockets.thy ===== *)
theory Sockets
  imports Prelude
begin

text \<open>
  What the two event-driven programs \<open>server.c\<close> and \<open>epoll.c\<close> share: file descriptors,
  epoll events, the flags of the system headers, and the operating system. The operating system
  is a parameter: a record of the system calls the programs make, each a function on a kernel
  state of any type. A process is that kernel state and the trace of what the process has done
  so far; every system call goes through a wrapper that extends the trace.
\<close>

type_synonym fd = int

text \<open>The flag values of the Linux headers.\<close>

definition EPOLLIN :: u32 where "EPOLLIN = 0x001"
definition EPOLLOUT :: u32 where "EPOLLOUT = 0x004"
definition EPOLLET :: u32 where "EPOLLET = 0x80000000"
definition O_NONBLOCK :: "32 word" where "O_NONBLOCK = 0x800"

datatype errno = EAGAIN | EWOULDBLOCK | ECONNRESET | EBADF | EINTR | EOther nat

datatype ctl_op = CTL_ADD | CTL_MOD

record epoll_event =
  ev_events :: u32
  ev_fd :: fd

section \<open>The system calls\<close>

text \<open>
  \<open>recv\<close> and \<open>read\<close> return the bytes they stored (\<open>Inr\<close>, the return value is their number)
  or fail with -1 and an \<open>errno\<close> (\<open>Inl\<close>); \<open>epoll_wait\<close> likewise returns the entries it
  stored. \<open>write\<close> is given the bytes in the buffer and the count.
\<close>

record 'k os =
  sys_getfl :: "fd \<Rightarrow> 'k \<Rightarrow> 32 word \<times> 'k"
  sys_setfl :: "fd \<Rightarrow> 32 word \<Rightarrow> 'k \<Rightarrow> 32 word \<times> 'k"
  sys_epoll_ctl :: "fd \<Rightarrow> ctl_op \<Rightarrow> fd \<Rightarrow> epoll_event \<Rightarrow> 'k \<Rightarrow> int \<times> 'k"
  sys_epoll_wait :: "fd \<Rightarrow> nat \<Rightarrow> int \<Rightarrow> 'k \<Rightarrow> (errno + epoll_event list) \<times> 'k"
  sys_accept :: "fd \<Rightarrow> 'k \<Rightarrow> fd \<times> 'k"
  sys_recv :: "fd \<Rightarrow> nat \<Rightarrow> 'k \<Rightarrow> (errno + u8 list) \<times> 'k"
  sys_read :: "fd \<Rightarrow> nat \<Rightarrow> 'k \<Rightarrow> (errno + u8 list) \<times> 'k"
  sys_write :: "fd \<Rightarrow> u8 list \<Rightarrow> u64 \<Rightarrow> 'k \<Rightarrow> int \<times> 'k"
  sys_close :: "fd \<Rightarrow> 'k \<Rightarrow> int \<times> 'k"

datatype message =
    Line string
  | Got nat "u8 list option"

datatype action =
    Getfl fd
  | Setfl fd "32 word"
  | Ctl fd ctl_op fd u32
  | Wait fd nat int
  | Accept fd
  | Recv fd nat
  | Read fd nat
  | Write fd "u8 list" u64
  | Close fd
  | Print message

record 'k proc =
  kern :: 'k
  trace :: "action list"

definition log_call :: "action \<Rightarrow> 'k \<Rightarrow> 'k proc \<Rightarrow> 'k proc" where
  "log_call a k p = p\<lparr>kern := k, trace := trace p @ [a]\<rparr>"

definition do_getfl :: "'k os \<Rightarrow> fd \<Rightarrow> 'k proc \<Rightarrow> 32 word \<times> 'k proc" where
  "do_getfl S f p = (let (r, k) = sys_getfl S f (kern p) in (r, log_call (Getfl f) k p))"

definition do_setfl :: "'k os \<Rightarrow> fd \<Rightarrow> 32 word \<Rightarrow> 'k proc \<Rightarrow> 32 word \<times> 'k proc" where
  "do_setfl S f v p = (let (r, k) = sys_setfl S f v (kern p) in (r, log_call (Setfl f v) k p))"

definition do_ctl :: "'k os \<Rightarrow> fd \<Rightarrow> ctl_op \<Rightarrow> fd \<Rightarrow> epoll_event \<Rightarrow> 'k proc \<Rightarrow> 'k proc" where
  "do_ctl S ep c f ev p =
     (let (r, k) = sys_epoll_ctl S ep c f ev (kern p) in log_call (Ctl ep c f (ev_events ev)) k p)"

definition do_wait :: "'k os \<Rightarrow> fd \<Rightarrow> nat \<Rightarrow> int \<Rightarrow> 'k proc \<Rightarrow> (errno + epoll_event list) \<times> 'k proc" where
  "do_wait S ep n timeout p =
     (let (r, k) = sys_epoll_wait S ep n timeout (kern p) in (r, log_call (Wait ep n timeout) k p))"

definition do_accept :: "'k os \<Rightarrow> fd \<Rightarrow> 'k proc \<Rightarrow> fd \<times> 'k proc" where
  "do_accept S f p = (let (r, k) = sys_accept S f (kern p) in (r, log_call (Accept f) k p))"

definition do_recv :: "'k os \<Rightarrow> fd \<Rightarrow> nat \<Rightarrow> 'k proc \<Rightarrow> (errno + u8 list) \<times> 'k proc" where
  "do_recv S f n p = (let (r, k) = sys_recv S f n (kern p) in (r, log_call (Recv f n) k p))"

definition do_read :: "'k os \<Rightarrow> fd \<Rightarrow> nat \<Rightarrow> 'k proc \<Rightarrow> (errno + u8 list) \<times> 'k proc" where
  "do_read S f n p = (let (r, k) = sys_read S f n (kern p) in (r, log_call (Read f n) k p))"

definition do_write :: "'k os \<Rightarrow> fd \<Rightarrow> u8 list \<Rightarrow> u64 \<Rightarrow> 'k proc \<Rightarrow> int \<times> 'k proc" where
  "do_write S f bs n p = (let (r, k) = sys_write S f bs n (kern p) in (r, log_call (Write f bs n) k p))"

definition do_close :: "'k os \<Rightarrow> fd \<Rightarrow> 'k proc \<Rightarrow> 'k proc" where
  "do_close S f p = (let (r, k) = sys_close S f (kern p) in log_call (Close f) k p)"

definition say :: "message \<Rightarrow> 'k proc \<Rightarrow> 'k proc" where
  "say out p = log_call (Print out) (kern p) p"

text \<open>What a wrapper does to the two parts of a process.\<close>

lemma log_call_simps [simp]:
  "kern (log_call a k p) = k" "trace (log_call a k p) = trace p @ [a]"
  by (simp_all add: log_call_def)

lemma say_simps [simp]: "kern (say out p) = kern p" "trace (say out p) = trace p @ [Print out]"
  by (simp_all add: say_def)

lemma do_close_simps [simp]:
  "kern (do_close S f p) = snd (sys_close S f (kern p))"
  "trace (do_close S f p) = trace p @ [Close f]"
  by (simp_all add: do_close_def split: prod.splits)

lemma do_ctl_simps [simp]:
  "kern (do_ctl S ep c f ev p) = snd (sys_epoll_ctl S ep c f ev (kern p))"
  "trace (do_ctl S ep c f ev p) = trace p @ [Ctl ep c f (ev_events ev)]"
  by (simp_all add: do_ctl_def split: prod.splits)

lemma wrapper_simps [simp]:
  "fst (do_getfl S f p) = fst (sys_getfl S f (kern p))"
  "kern (snd (do_getfl S f p)) = snd (sys_getfl S f (kern p))"
  "trace (snd (do_getfl S f p)) = trace p @ [Getfl f]"
  "fst (do_setfl S f v p) = fst (sys_setfl S f v (kern p))"
  "kern (snd (do_setfl S f v p)) = snd (sys_setfl S f v (kern p))"
  "trace (snd (do_setfl S f v p)) = trace p @ [Setfl f v]"
  "fst (do_accept S f p) = fst (sys_accept S f (kern p))"
  "kern (snd (do_accept S f p)) = snd (sys_accept S f (kern p))"
  "trace (snd (do_accept S f p)) = trace p @ [Accept f]"
  "fst (do_recv S f n p) = fst (sys_recv S f n (kern p))"
  "kern (snd (do_recv S f n p)) = snd (sys_recv S f n (kern p))"
  "trace (snd (do_recv S f n p)) = trace p @ [Recv f n]"
  "fst (do_read S f n p) = fst (sys_read S f n (kern p))"
  "kern (snd (do_read S f n p)) = snd (sys_read S f n (kern p))"
  "trace (snd (do_read S f n p)) = trace p @ [Read f n]"
  "fst (do_write S f bs c p) = fst (sys_write S f bs c (kern p))"
  "kern (snd (do_write S f bs c p)) = snd (sys_write S f bs c (kern p))"
  "trace (snd (do_write S f bs c p)) = trace p @ [Write f bs c]"
  "fst (do_wait S ep n t p) = fst (sys_epoll_wait S ep n t (kern p))"
  "kern (snd (do_wait S ep n t p)) = snd (sys_epoll_wait S ep n t (kern p))"
  "trace (snd (do_wait S ep n t p)) = trace p @ [Wait ep n t]"
  by (simp_all add: do_getfl_def do_setfl_def do_accept_def do_recv_def do_read_def do_write_def do_wait_def
      split: prod.splits)

section \<open>What the system documents\<close>

text \<open>\<open>recv\<close> and \<open>read\<close> never store more bytes than they are given room for.\<close>

definition recv_bounded :: "'k os \<Rightarrow> bool" where
  "recv_bounded S \<longleftrightarrow> (\<forall>f n k bs. fst (sys_recv S f n k) = Inr bs \<longrightarrow> length bs \<le> n)"

definition read_bounded :: "'k os \<Rightarrow> bool" where
  "read_bounded S \<longleftrightarrow> (\<forall>f n k bs. fst (sys_read S f n k) = Inr bs \<longrightarrow> length bs \<le> n)"

text \<open>The results of a number of consecutive \<open>recv\<close> calls on one descriptor, and the kernel
  state after them.\<close>

fun recvs :: "'k os \<Rightarrow> fd \<Rightarrow> nat \<Rightarrow> nat \<Rightarrow> 'k \<Rightarrow> (errno + u8 list) list \<times> 'k" where
  "recvs S f n 0 k = ([], k)"
| "recvs S f n (Suc m) k =
     (let (r, k) = sys_recv S f n k; (rs, k) = recvs S f n m k in (r # rs, k))"

section \<open>C strings\<close>

text \<open>What \<open>%s\<close> prints of a character array: the bytes before the first NUL, or nothing
  defined (\<open>None\<close>) when the array holds no NUL and the read runs past its end.\<close>

definition c_string :: "u8 list \<Rightarrow> u8 list option" where
  "c_string buf = (if 0 \<in> set buf then Some (takeWhile (\<lambda>b. b \<noteq> 0) buf) else None)"

text \<open>An array of \<open>n\<close> bytes, zeroed, after a call stored \<open>bs\<close> at its start.\<close>

definition filled :: "nat \<Rightarrow> u8 list \<Rightarrow> u8 list" where
  "filled n bs = bs @ replicate (n - length bs) 0"

lemma c_string_filled:
  assumes "length bs < n"
  shows "c_string (filled n bs) = Some (takeWhile (\<lambda>b. b \<noteq> 0) bs)"
proof -
  obtain m where m: "n - length bs = Suc m" using assms by (metis Suc_diff_Suc)
  show ?thesis by (simp add: c_string_def filled_def m takeWhile_append_sentinel)
qed

section \<open>Start-up\<close>

text \<open>The calls both programs make before their loops, and the library functions they use. \<open>inet_pton\<close>
  gives the address, or \<open>None\<close> when the text is not one (and then stores nothing).\<close>

record sockaddr_in =
  sin_family :: u16
  sin_addr :: u32
  sin_port :: u16

record 'k startup =
  lib_AF_INET :: u16
  lib_atoi :: "string \<Rightarrow> 32 word"
  lib_inet_pton :: "string \<Rightarrow> u32 option"
  lib_htons :: "u16 \<Rightarrow> u16"
  sys_socket :: "'k \<Rightarrow> fd \<times> 'k"
  sys_bind :: "fd \<Rightarrow> sockaddr_in \<Rightarrow> 'k \<Rightarrow> int \<times> 'k"
  sys_listen :: "fd \<Rightarrow> nat \<Rightarrow> 'k \<Rightarrow> int \<times> 'k"
  sys_epoll_create :: "nat \<Rightarrow> 'k \<Rightarrow> fd \<times> 'k"

text \<open>The address is zeroed first; the result of \<open>inet_pton\<close> is not looked at; \<open>htons\<close> takes
  the low 16 bits of the \<open>int\<close> port.\<close>

definition server_address :: "'k startup \<Rightarrow> string \<Rightarrow> 32 word \<Rightarrow> sockaddr_in" where
  "server_address L ip port =
     \<lparr>sin_family = lib_AF_INET L,
      sin_addr = (case lib_inet_pton L ip of None \<Rightarrow> 0 | Some a \<Rightarrow> a),
      sin_port = lib_htons L (ucast port)\<rparr>"

text \<open>A program returns a status or dies in an assertion.\<close>

datatype exit_status = Return int | Assertion_failed

section \<open>Event handlers\<close>

text \<open>
  The interface the event loops rely on: under an invariant of the process, a handler of one
  event keeps the invariant, only appends to the trace, and everything it appends is acceptable.
  A loop over a batch of events then does the same, which is what both programs need of
  \<open>lt\<close>, of \<open>et\<close> and of the loop body of \<open>epoll.c\<close>.
\<close>

locale event_handler =
  fixes handle :: "epoll_event \<Rightarrow> 'p \<Rightarrow> 'p option"
    and past :: "'p \<Rightarrow> action list"
    and ok :: "action \<Rightarrow> bool"
    and inv :: "'p \<Rightarrow> bool"
  assumes handle_inv: "inv p \<Longrightarrow> handle ev p = Some p' \<Longrightarrow> inv p'"
    and handle_ok: "inv p \<Longrightarrow> handle ev p = Some p' \<Longrightarrow>
      \<exists>ts. past p' = past p @ ts \<and> (\<forall>a\<in>set ts. ok a)"
begin

lemma batch_inv: "run_all handle evs p = Some p' \<Longrightarrow> inv p \<Longrightarrow> inv p'"
  by (induction evs arbitrary: p) (auto simp: bind_Some_iff intro: handle_inv)

lemma batch_ok:
  "run_all handle evs p = Some p' \<Longrightarrow> inv p \<Longrightarrow> \<exists>ts. past p' = past p @ ts \<and> (\<forall>a\<in>set ts. ok a)"
proof (induction evs arbitrary: p)
  case (Cons ev evs)
  then obtain q where q: "handle ev p = Some q" "run_all handle evs q = Some p'"
    by (auto simp: bind_Some_iff)
  obtain t1 t2 where "past q = past p @ t1" "\<forall>a\<in>set t1. ok a"
    and "past p' = past q @ t2" "\<forall>a\<in>set t2. ok a"
    using handle_ok [OF Cons.prems(2) q(1)] Cons.IH [OF q(2)] handle_inv [OF Cons.prems(2) q(1)]
    by blast
  then show ?case by (intro exI [of _ "t1 @ t2"]) auto
qed auto

lemma batch_keeps:
  assumes "run_all handle evs p = Some p'" and "inv p" and "\<forall>a\<in>set (past p). ok a"
  shows "\<forall>a\<in>set (past p'). ok a"
  using batch_ok [OF assms(1,2)] assms(3) by auto

end

section \<open>A scripted system\<close>

text \<open>
  A concrete system for the witnesses: each descriptor has a queue of results that its next
  \<open>recv\<close> or \<open>read\<close> calls return, then \<open>EAGAIN\<close>; calls on a descriptor that has been closed fail with
  \<open>EBADF\<close>. \<open>accept\<close> and \<open>epoll_wait\<close> answer from queues of their own.
\<close>

record script =
  inbox :: "fd \<Rightarrow> (errno + u8 list) list"
  closed :: "fd list"
  accepts :: "fd list"
  rounds :: "epoll_event list list"

definition script_recv :: "fd \<Rightarrow> nat \<Rightarrow> script \<Rightarrow> (errno + u8 list) \<times> script" where
  "script_recv f n s =
     (if f \<in> set (closed s) then (Inl EBADF, s)
      else case inbox s f of [] \<Rightarrow> (Inl EAGAIN, s)
        | r # rs \<Rightarrow> ((case r of Inl e \<Rightarrow> Inl e | Inr bs \<Rightarrow> Inr (take n bs)), s\<lparr>inbox := (inbox s)(f := rs)\<rparr>))"

definition script_os :: "script os" where
  "script_os = \<lparr>
     sys_getfl = (\<lambda>f s. (if f < 0 then -1 else 2, s)),
     sys_setfl = (\<lambda>f v s. (if f < 0 then -1 else 0, s)),
     sys_epoll_ctl = (\<lambda>ep c f ev s. (if f < 0 \<or> f \<in> set (closed s) then -1 else 0, s)),
     sys_epoll_wait = (\<lambda>ep n t s. case rounds s of [] \<Rightarrow> (Inl EINTR, s)
        | evs # rest \<Rightarrow> (Inr (take n evs), s\<lparr>rounds := rest\<rparr>)),
     sys_accept = (\<lambda>f s. case accepts s of [] \<Rightarrow> (-1, s) | c # cs \<Rightarrow> (c, s\<lparr>accepts := cs\<rparr>)),
     sys_recv = script_recv,
     sys_read = script_recv,
     sys_write = (\<lambda>f bs n s. (int (length bs), s)),
     sys_close = (\<lambda>f s. (0, s\<lparr>closed := f # closed s\<rparr>)) \<rparr>"

lemma script_os_bounded: "recv_bounded script_os" "read_bounded script_os"
  by (auto simp: recv_bounded_def read_bounded_def script_os_def script_recv_def split: list.splits sum.splits if_splits)

end
