(* ===== verification/Epoll_Server.thy ===== *)
theory Epoll_Server
  imports Sockets
begin

text \<open>
  The epoll server of \<open>server.c\<close>: \<open>setnonblocking\<close>, \<open>addfd\<close>, the level-triggered handler
  \<open>lt\<close>, the edge-triggered handler \<open>et\<close> and \<open>main\<close>. Each function takes the process
  (kernel state and trace) and returns it updated. Of a printed line the format is kept, and the arguments where
  they matter; the name in the usage line and the client addresses, which nothing looks at, are left out.
\<close>

definition MAX_EVENT_NUMBER :: nat where "MAX_EVENT_NUMBER = 1024"
definition BUFFER_SIZE :: nat where "BUFFER_SIZE = 10"

section \<open>Registration\<close>

definition setnonblocking :: "'k os \<Rightarrow> fd \<Rightarrow> 'k proc \<Rightarrow> 32 word \<times> 'k proc" where
  "setnonblocking S f p =
     (let (old_option, p) = do_getfl S f p;
          new_option = old_option OR O_NONBLOCK;
          (_, p) = do_setfl S f new_option p
      in (old_option, p))"

definition addfd :: "'k os \<Rightarrow> fd \<Rightarrow> fd \<Rightarrow> bool \<Rightarrow> 'k proc \<Rightarrow> 'k proc" where
  "addfd S epollfd f enable_et p =
     (let events = EPOLLIN;
          events = (if enable_et then events OR EPOLLET else events);
          p = do_ctl S epollfd CTL_ADD f \<lparr>ev_events = events, ev_fd = f\<rparr> p
      in snd (setnonblocking S f p))"

section \<open>The handlers\<close>

text \<open>What is printed for a message: its length and the buffer as a C string. The buffer is
  zeroed before each \<open>recv\<close>, which is given all but its last byte.\<close>

definition got :: "u8 list \<Rightarrow> message" where
  "got bs = Got (length bs) (c_string (filled BUFFER_SIZE bs))"

text \<open>One turn of the loop of \<open>lt\<close>, and the loop.\<close>

definition lt_event :: "'k os \<Rightarrow> fd \<Rightarrow> fd \<Rightarrow> epoll_event \<Rightarrow> 'k proc \<Rightarrow> 'k proc" where
  "lt_event S epollfd listenfd ev p =
     (let sockfd = ev_fd ev in
      if sockfd = listenfd then
        (let (connfd, p) = do_accept S listenfd p in addfd S epollfd connfd False p)
      else if ev_events ev AND EPOLLIN \<noteq> 0 then
        (let p = say (Line ''event trigger once'') p;
             (ret, p) = do_recv S sockfd (BUFFER_SIZE - 1) p
         in case ret of
              Inl e \<Rightarrow> do_close S sockfd p
            | Inr bs \<Rightarrow> if bs = [] then do_close S sockfd p else say (got bs) p)
      else say (Line ''something else happened '') p)"

definition lt :: "'k os \<Rightarrow> epoll_event list \<Rightarrow> nat \<Rightarrow> fd \<Rightarrow> fd \<Rightarrow> 'k proc \<Rightarrow> 'k proc" where
  "lt S events nfds epollfd listenfd p = fold (lt_event S epollfd listenfd) (take nfds events) p"

text \<open>The inner loop of \<open>et\<close> reads until the socket would block. It has no other bound, so it
  may not return (\<open>None\<close>). After an end of file it closes the socket and goes on.\<close>

partial_function (option) et_read :: "'k os \<Rightarrow> fd \<Rightarrow> 'k proc \<Rightarrow> 'k proc option" where
  "et_read S sockfd p =
     (let rp = do_recv S sockfd (BUFFER_SIZE - 1) p in
      case fst rp of
        Inl e \<Rightarrow> if e = EAGAIN \<or> e = EWOULDBLOCK then Some (say (Line ''read later'') (snd rp))
                 else Some (do_close S sockfd (snd rp))
      | Inr bs \<Rightarrow> if bs = [] then et_read S sockfd (do_close S sockfd (snd rp))
                  else et_read S sockfd (say (got bs) (snd rp)))"

definition et_event :: "'k os \<Rightarrow> fd \<Rightarrow> fd \<Rightarrow> epoll_event \<Rightarrow> 'k proc \<Rightarrow> 'k proc option" where
  "et_event S epollfd listenfd ev p =
     (let sockfd = ev_fd ev in
      if sockfd = listenfd then
        (let (connfd, p) = do_accept S listenfd p in Some (addfd S epollfd connfd True p))
      else if ev_events ev AND EPOLLIN \<noteq> 0 then
        et_read S sockfd (say (Line ''event trigger once'') p)
      else Some (say (Line ''something else happened '') p))"

definition et :: "'k os \<Rightarrow> epoll_event list \<Rightarrow> nat \<Rightarrow> fd \<Rightarrow> fd \<Rightarrow> 'k proc \<Rightarrow> 'k proc option" where
  "et S events nfds epollfd listenfd p = run_all (et_event S epollfd listenfd) (take nfds events) p"

section \<open>The program\<close>

partial_function (option) main_loop :: "'k os \<Rightarrow> fd \<Rightarrow> fd \<Rightarrow> 'k proc \<Rightarrow> 'k proc option" where
  "main_loop S listenfd epollfd p =
     (let rp = do_wait S epollfd MAX_EVENT_NUMBER (-1) p in
      case fst rp of
        Inl e \<Rightarrow> Some (say (Line ''epoll failure'') (snd rp))
      | Inr evs \<Rightarrow> main_loop S listenfd epollfd (lt S evs (length evs) epollfd listenfd (snd rp)))"

text \<open>The state the loop starts in: the listening socket is registered in the epoll set.\<close>

definition server_ready :: "'k os \<Rightarrow> fd \<Rightarrow> fd \<Rightarrow> 'k proc \<Rightarrow> 'k proc" where
  "server_ready S listenfd epollfd p = addfd S epollfd listenfd True p"

definition server_run :: "'k os \<Rightarrow> fd \<Rightarrow> fd \<Rightarrow> 'k proc \<Rightarrow> (exit_status \<times> 'k proc) option" where
  "server_run S listenfd epollfd p =
     do { p \<leftarrow> main_loop S listenfd epollfd (server_ready S listenfd epollfd p);
          Some (Return 0, do_close S listenfd p) }"

definition server_main ::
    "'k os \<Rightarrow> 'k startup \<Rightarrow> string list \<Rightarrow> 'k proc \<Rightarrow> (exit_status \<times> 'k proc) option" where
  "server_main S L argv p =
     (if length argv \<le> 2 then Some (Return 1, say (Line ''usage: %s ip_address port_number'') p)
      else
        (let port = lib_atoi L (argv ! 2);
             address = server_address L (argv ! 1) port;
             (listenfd, k) = sys_socket L (kern p); p = p\<lparr>kern := k\<rparr> in
         if \<not> listenfd \<ge> 0 then Some (Assertion_failed, p)
         else
           (let (ret, k) = sys_bind L listenfd address (kern p); p = p\<lparr>kern := k\<rparr> in
            if ret = -1 then Some (Assertion_failed, p)
            else
              (let (ret, k) = sys_listen L listenfd 5 (kern p); p = p\<lparr>kern := k\<rparr> in
               if ret = -1 then Some (Assertion_failed, p)
               else
                 (let (epollfd, k) = sys_epoll_create L 5 (kern p); p = p\<lparr>kern := k\<rparr> in
                  if epollfd = -1 then Some (Assertion_failed, p)
                  else server_run S listenfd epollfd p)))))"

section \<open>What each step appends to the trace\<close>

definition et_flags :: "bool \<Rightarrow> u32" where
  "et_flags enable_et = (if enable_et then EPOLLIN OR EPOLLET else EPOLLIN)"

lemma setnonblocking_eq:
  "fst (setnonblocking S f p) = fst (sys_getfl S f (kern p))"
  "trace (snd (setnonblocking S f p)) =
     trace p @ [Getfl f, Setfl f (fst (sys_getfl S f (kern p)) OR O_NONBLOCK)]"
  by (simp_all add: setnonblocking_def Let_def case_prod_unfold)

lemma addfd_trace:
  "trace (addfd S ep f e p) = trace p @ [Ctl ep CTL_ADD f (et_flags e), Getfl f,
     Setfl f (fst (sys_getfl S f (snd (sys_epoll_ctl S ep CTL_ADD f
       \<lparr>ev_events = et_flags e, ev_fd = f\<rparr> (kern p)))) OR O_NONBLOCK)]"
  by (simp add: addfd_def setnonblocking_eq et_flags_def Let_def)

text \<open>The inputs of a step: the \<open>accept\<close> and \<open>recv\<close> calls of a trace.\<close>

fun is_input :: "action \<Rightarrow> bool" where
  "is_input (Accept f) = True"
| "is_input (Recv f n) = True"
| "is_input _ = False"

definition lt_inputs :: "fd \<Rightarrow> epoll_event \<Rightarrow> action list" where
  "lt_inputs listenfd ev =
     (if ev_fd ev = listenfd then [Accept listenfd]
      else if ev_events ev AND EPOLLIN \<noteq> 0 then [Recv (ev_fd ev) 9] else [])"

lemma lt_event_inputs:
  "\<exists>ts. trace (lt_event S ep lfd ev p) = trace p @ ts \<and> filter is_input ts = lt_inputs lfd ev"
  by (auto simp: lt_event_def lt_inputs_def addfd_trace Let_def case_prod_unfold BUFFER_SIZE_def
      split: sum.splits)

text \<open>A printed message is sound when its length fits and the buffer was a C string.\<close>

fun printed_ok :: "action \<Rightarrow> bool" where
  "printed_ok (Print (Got n s)) \<longleftrightarrow> 0 < n \<and> n < BUFFER_SIZE \<and> s \<noteq> None"
| "printed_ok _ \<longleftrightarrow> True"

lemma got_ok: "recv_bounded S \<Longrightarrow> fst (sys_recv S f (BUFFER_SIZE - 1) k) = Inr bs \<Longrightarrow> bs \<noteq> [] \<Longrightarrow>
  printed_ok (Print (got bs))"
  by (auto simp: recv_bounded_def got_def BUFFER_SIZE_def c_string_filled dest!: spec)

lemma lt_event_ok:
  "\<exists>ts. trace (lt_event S ep lfd ev p) = trace p @ ts \<and> (\<forall>a\<in>set ts. recv_bounded S \<longrightarrow> printed_ok a)"
  by (auto simp: lt_event_def addfd_trace Let_def case_prod_unfold split: sum.splits intro: got_ok)

lemma et_read_ok:
  assumes "et_read S f p = Some p'"
  shows "\<exists>ts. trace p' = trace p @ ts \<and> (\<forall>a\<in>set ts. recv_bounded S \<longrightarrow> printed_ok a)"
proof (rule et_read.raw_induct [where P = "\<lambda>S f p p'. \<exists>ts. trace p' = trace p @ ts
    \<and> (\<forall>a\<in>set ts. recv_bounded S \<longrightarrow> printed_ok a)", OF _ assms])
  fix rec S f p p'
  let ?q = "snd (do_recv S f (BUFFER_SIZE - 1) p)"
  let ?good = "\<lambda>ts. \<forall>a\<in>set ts. recv_bounded S \<longrightarrow> printed_ok a"
  assume IH: "\<And>S f p p'. rec S f p = Some p' \<Longrightarrow>
      \<exists>ts. trace p' = trace p @ ts \<and> (\<forall>a\<in>set ts. recv_bounded S \<longrightarrow> printed_ok a)"
    and eq: "(let rp = do_recv S f (BUFFER_SIZE - 1) p in
      case fst rp of
        Inl e \<Rightarrow> if e = EAGAIN \<or> e = EWOULDBLOCK then Some (say (Line ''read later'') (snd rp))
                 else Some (do_close S f (snd rp))
      | Inr bs \<Rightarrow> if bs = [] then rec S f (do_close S f (snd rp))
                  else rec S f (say (got bs) (snd rp))) = Some p'"
  show "\<exists>ts. trace p' = trace p @ ts \<and> ?good ts"
  proof (cases "fst (sys_recv S f (BUFFER_SIZE - 1) (kern p))")
    case (Inl e)
    with eq show ?thesis by (auto simp: Let_def split: if_splits)
  next
    case (Inr bs)
    show ?thesis
    proof (cases "bs = []")
      case True
      with Inr eq have "rec S f (do_close S f ?q) = Some p'" by (simp add: Let_def)
      from IH [OF this] show ?thesis by auto
    next
      case False
      with Inr eq have "rec S f (say (got bs) ?q) = Some p'" by (simp add: Let_def)
      from IH [OF this] show ?thesis using got_ok [OF _ Inr False] by auto
    qed
  qed
qed

lemma et_event_ok:
  "et_event S ep lfd ev p = Some p' \<Longrightarrow>
   \<exists>ts. trace p' = trace p @ ts \<and> (\<forall>a\<in>set ts. recv_bounded S \<longrightarrow> printed_ok a)"
  by (auto simp: et_event_def addfd_trace Let_def case_prod_unfold split: if_splits
      dest!: et_read_ok)

interpretation lt_handler: event_handler
  "\<lambda>ev p. Some (lt_event S ep lfd ev p)" trace "\<lambda>a. recv_bounded S \<longrightarrow> printed_ok a" "\<lambda>_. True"
  by unfold_locales (use lt_event_ok in auto)

interpretation et_handler: event_handler
  "et_event S ep lfd" trace "\<lambda>a. recv_bounded S \<longrightarrow> printed_ok a" "\<lambda>_. True"
  by unfold_locales (auto dest: et_event_ok)

section \<open>Draining a socket\<close>

lemma et_read_step:
  "sys_recv S f (BUFFER_SIZE - 1) (kern p) = (r, k) \<Longrightarrow> et_read S f p =
     (let q = log_call (Recv f (BUFFER_SIZE - 1)) k p in
      case r of Inl e \<Rightarrow> Some (if e = EAGAIN \<or> e = EWOULDBLOCK then say (Line ''read later'') q
                              else do_close S f q)
      | Inr bs \<Rightarrow> et_read S f (if bs = [] then do_close S f q else say (got bs) q))"
  by (simp add: et_read.simps [of S f p] do_recv_def Let_def split: sum.splits)

lemma recvs_Cons:
  "recvs S f n (Suc m) k = (r # rs, k') \<longleftrightarrow>
     (\<exists>k1. sys_recv S f n k = (r, k1) \<and> recvs S f n m k1 = (rs, k'))"
  by (auto split: prod.splits)

definition delivery :: "fd \<Rightarrow> u8 list \<Rightarrow> action list" where
  "delivery f bs = [Recv f 9, Print (got bs)]"

lemma et_read_chunks:
  assumes "recvs S f 9 (length chunks) (kern p) = (map Inr chunks, k)" and "[] \<notin> set chunks"
  shows "\<exists>q. et_read S f p = et_read S f q \<and> kern q = k
    \<and> trace q = trace p @ concat (map (delivery f) chunks)"
  using assms
proof (induction chunks arbitrary: p)
  case (Cons c cs)
  then obtain k1 where k1: "sys_recv S f 9 (kern p) = (Inr c, k1)"
    "recvs S f 9 (length cs) k1 = (map Inr cs, k)" and ne: "c \<noteq> []" "[] \<notin> set cs"
    by (auto split: prod.splits)
  let ?q = "say (got c) (log_call (Recv f 9) k1 p)"
  have "et_read S f p = et_read S f ?q"
    using et_read_step [of S f p "Inr c" k1] k1(1) ne(1) by (simp add: BUFFER_SIZE_def Let_def)
  moreover have "recvs S f 9 (length cs) (kern ?q) = (map Inr cs, k)" using k1(2) by simp
  ultimately show ?case using Cons.IH [of ?q] ne(2) by (auto simp: delivery_def)
qed auto

lemma recvs_split:
  "recvs S f n (Suc (length xs)) k = (xs @ [r], k') \<longleftrightarrow>
     (\<exists>k1. recvs S f n (length xs) k = (xs, k1) \<and> sys_recv S f n k1 = (r, k'))"
proof (induction xs arbitrary: k)
  case Nil
  show ?case by (auto split: prod.splits)
next
  case (Cons x xs)
  show ?case
    unfolding list.size(4) add_Suc_right add_0_right append_Cons recvs_Cons Cons.IH by blast
qed

section \<open>Level-triggered rounds\<close>

lemma lt_event_chunk:
  assumes "sys_recv S f 9 (kern p) = (Inr c, k)" and "c \<noteq> []" and "f \<noteq> lfd" and "ev AND EPOLLIN \<noteq> 0"
  shows "lt_event S ep lfd \<lparr>ev_events = ev, ev_fd = f\<rparr> p =
    say (got c) (log_call (Recv f 9) k (say (Line ''event trigger once'') p))"
  using assms by (simp add: lt_event_def do_recv_def BUFFER_SIZE_def)

lemma funpow_lt_event:
  assumes "recvs S f 9 (length chunks) (kern p) = (map Inr chunks, k)" and "[] \<notin> set chunks"
    and "f \<noteq> lfd" and "ev AND EPOLLIN \<noteq> 0"
  shows "\<exists>q. (lt_event S ep lfd \<lparr>ev_events = ev, ev_fd = f\<rparr> ^^ length chunks) p = q \<and> kern q = k
    \<and> trace q = trace p @ concat (map (\<lambda>c. Print (Line ''event trigger once'') # delivery f c) chunks)"
  using assms(1,2)
proof (induction chunks arbitrary: p)
  case (Cons c cs)
  then obtain k1 where k1: "sys_recv S f 9 (kern p) = (Inr c, k1)"
    "recvs S f 9 (length cs) k1 = (map Inr cs, k)" and ne: "c \<noteq> []" "[] \<notin> set cs"
    by (auto split: prod.splits)
  let ?q = "say (got c) (log_call (Recv f 9) k1 (say (Line ''event trigger once'') p))"
  have "recvs S f 9 (length cs) (kern ?q) = (map Inr cs, k)" using k1(2) by simp
  from Cons.IH [OF this ne(2)] show ?case
    using lt_event_chunk [OF k1(1) ne(1) assms(3,4)]
    by (auto simp: delivery_def funpow_swap1)
qed auto

text \<open>The messages of a trace.\<close>

fun is_got :: "action \<Rightarrow> bool" where
  "is_got (Print (Got n s)) = True"
| "is_got _ = False"

lemma is_got_got [simp]: "is_got (Print (got c))"
  by (simp add: got_def)

lemma got_delivery: "filter is_got (concat (map (delivery f) chunks)) = map (\<lambda>c. Print (got c)) chunks"
  by (induction chunks) (auto simp: delivery_def)

lemma got_delivery_lt:
  "filter is_got (concat (map (\<lambda>c. Print (Line s) # delivery f c) chunks)) = map (\<lambda>c. Print (got c)) chunks"
  by (induction chunks) (auto simp: delivery_def)

section \<open>The main loop\<close>

text \<open>One successful round of the loop, and a number of them.\<close>

definition server_round :: "'k os \<Rightarrow> fd \<Rightarrow> fd \<Rightarrow> 'k proc \<Rightarrow> 'k proc option" where
  "server_round S listenfd epollfd p =
     (let rp = do_wait S epollfd MAX_EVENT_NUMBER (-1) p in
      case fst rp of Inl e \<Rightarrow> None
      | Inr evs \<Rightarrow> Some (lt S evs (length evs) epollfd listenfd (snd rp)))"

fun server_rounds :: "nat \<Rightarrow> 'k os \<Rightarrow> fd \<Rightarrow> fd \<Rightarrow> 'k proc \<Rightarrow> 'k proc option" where
  "server_rounds 0 S listenfd epollfd p = Some p"
| "server_rounds (Suc n) S listenfd epollfd p =
     do { p \<leftarrow> server_round S listenfd epollfd p; server_rounds n S listenfd epollfd p }"

lemma server_rounds_Suc_last:
  "server_rounds (Suc n) S l ep p = Option.bind (server_rounds n S l ep p) (server_round S l ep)"
proof (induction n arbitrary: p)
  case (Suc n)
  show ?case
  proof (cases "server_round S l ep p")
    case (Some q)
    have "server_rounds (Suc (Suc n)) S l ep p = server_rounds (Suc n) S l ep q"
      by (simp only: server_rounds.simps(2) [of "Suc n"] Some Option.bind.bind_lunit)
    also have "\<dots> = Option.bind (server_rounds n S l ep q) (server_round S l ep)" by (rule Suc.IH)
    finally show ?thesis by (simp add: Some)
  qed simp
qed (simp split: bind_splits)

definition server_stop :: "'k os \<Rightarrow> fd \<Rightarrow> 'k proc \<Rightarrow> 'k proc" where
  "server_stop S epollfd p =
     say (Line ''epoll failure'') (snd (do_wait S epollfd MAX_EVENT_NUMBER (-1) p))"

definition wait_fails :: "'k os \<Rightarrow> fd \<Rightarrow> 'k proc \<Rightarrow> bool" where
  "wait_fails S epollfd p \<longleftrightarrow> (\<exists>e. fst (sys_epoll_wait S epollfd MAX_EVENT_NUMBER (-1) (kern p)) = Inl e)"

lemma main_loop_unfold:
  "main_loop S l ep p =
     (case server_round S l ep p of None \<Rightarrow> Some (server_stop S ep p) | Some q \<Rightarrow> main_loop S l ep q)"
  by (simp add: main_loop.simps [of S l ep p] server_round_def server_stop_def Let_def split: sum.splits)

lemma wait_fails_round: "wait_fails S ep p \<longleftrightarrow> server_round S l ep p = None"
  by (auto simp: wait_fails_def server_round_def Let_def split: sum.splits)

lemma main_loop_rounds:
  "server_rounds n S l ep p = Some q \<Longrightarrow> wait_fails S ep q \<Longrightarrow> main_loop S l ep p = Some (server_stop S ep q)"
proof (induction n arbitrary: p)
  case 0
  then show ?case using main_loop_unfold [of S l ep p] wait_fails_round [of S ep p l] by simp
next
  case (Suc n)
  then obtain p1 where "server_round S l ep p = Some p1" "server_rounds n S l ep p1 = Some q"
    by (auto simp: bind_Some_iff)
  then show ?case using main_loop_unfold [of S l ep p] Suc by simp
qed

lemma main_loop_returns:
  assumes "main_loop S l ep p = Some p'"
  shows "\<exists>n q. server_rounds n S l ep p = Some q \<and> wait_fails S ep q \<and> p' = server_stop S ep q"
proof (rule main_loop.raw_induct [where P = "\<lambda>S l ep p p'. \<exists>n q. server_rounds n S l ep p = Some q
    \<and> wait_fails S ep q \<and> p' = server_stop S ep q", OF _ assms])
  fix rec :: "'k os \<Rightarrow> fd \<Rightarrow> fd \<Rightarrow> 'k proc \<Rightarrow> 'k proc option" and S l ep and p p' :: "'k proc"
  let ?goal = "\<lambda>S l ep p p'. \<exists>n q. server_rounds n S l ep p = Some q \<and> wait_fails S ep q \<and> p' = server_stop S ep q"
  assume IH: "\<And>S l ep p p'. rec S l ep p = Some p' \<Longrightarrow> ?goal S l ep p p'"
    and eq: "(let rp = do_wait S ep MAX_EVENT_NUMBER (-1) p in
      case fst rp of Inl e \<Rightarrow> Some (say (Line ''epoll failure'') (snd rp))
      | Inr evs \<Rightarrow> rec S l ep (lt S evs (length evs) ep l (snd rp))) = Some p'"
  show "?goal S l ep p p'"
  proof (cases "server_round S l ep p")
    case None
    then have "p' = server_stop S ep p"
      using eq by (auto simp: server_round_def server_stop_def Let_def split: sum.splits)
    then show ?thesis using None wait_fails_round [of S ep p l] by (intro exI [of _ 0]) auto
  next
    case (Some q)
    then have "rec S l ep q = Some p'"
      using eq by (auto simp: server_round_def Let_def split: sum.splits)
    from IH [OF this] obtain n r where "server_rounds n S l ep q = Some r" "wait_fails S ep r"
      "p' = server_stop S ep r" by blast
    then show ?thesis using Some by (intro exI [of _ "Suc n"] exI [of _ r]) auto
  qed
qed

section \<open>Properties\<close>

text \<open>A process on the scripted system: descriptor 3 listens, 7 and 8 are connections.\<close>

definition sample_script :: script where
  "sample_script = \<lparr>inbox = (\<lambda>_. [])(7 := [Inr [104, 105], Inr [33]], 8 := [Inr [72], Inr []]),
     closed = [], accepts = [], rounds = [[\<lparr>ev_events = EPOLLIN, ev_fd = 7\<rparr>]]\<rparr>"

definition sample_proc :: "script proc" where
  "sample_proc = \<lparr>kern = sample_script, trace = []\<rparr>"

lemmas sample_simps = sample_proc_def sample_script_def script_os_def script_recv_def

text \<open>\<open>addfd\<close> registers the descriptor for input, edge-triggered exactly when asked to, and
  then rewrites its status flags: the non-blocking flag is set and every flag that was set
  before stays set.\<close>

theorem addfd_registers_nonblocking:
  "\<exists>flags old new. flags = (if e then EPOLLIN OR EPOLLET else EPOLLIN)
    \<and> old = fst (sys_getfl S f (snd (sys_epoll_ctl S ep CTL_ADD f
        \<lparr>ev_events = flags, ev_fd = f\<rparr> (kern p))))
    \<and> trace (addfd S ep f e p) = trace p @ [Ctl ep CTL_ADD f flags, Getfl f, Setfl f new]
    \<and> new AND O_NONBLOCK = O_NONBLOCK \<and> old AND new = old
    \<and> new AND NOT O_NONBLOCK = old AND NOT O_NONBLOCK"
proof -
  have bits: "(w OR v) AND v = v" "w AND (w OR v) = w" "(w OR v) AND NOT v = w AND NOT v"
    for w v :: "32 word"
    by (rule bit_word_eqI; auto simp: bit_simps)+
  show ?thesis
    unfolding addfd_trace et_flags_def by (intro exI conjI, rule refl, rule refl, rule refl) (rule bits)+
qed

text \<open>Whatever a batch of events holds, \<open>lt\<close> makes one input call for each of its events, in their order.\<close>

lemma lt_one_input_per_event:
  "\<exists>ts. trace (lt S events nfds ep lfd p) = trace p @ ts
    \<and> filter is_input ts = concat (map (lt_inputs lfd) (take nfds events))"
proof -
  have "\<exists>ts. trace (fold (lt_event S ep lfd) evs p) = trace p @ ts
      \<and> filter is_input ts = concat (map (lt_inputs lfd) evs)" for evs
  proof (induction evs arbitrary: p)
    case (Cons ev evs)
    obtain t1 where t1: "trace (lt_event S ep lfd ev p) = trace p @ t1" "filter is_input t1 = lt_inputs lfd ev"
      using lt_event_inputs by blast
    obtain t2 where "trace (fold (lt_event S ep lfd) evs (lt_event S ep lfd ev p))
        = trace (lt_event S ep lfd ev p) @ t2" "filter is_input t2 = concat (map (lt_inputs lfd) evs)"
      using Cons.IH by blast
    with t1 show ?case by (intro exI [of _ "t1 @ t2"]) simp
  qed auto
  then show ?thesis unfolding lt_def by blast
qed

text \<open>The events that a number of rounds receive.\<close>

fun rounds_events :: "nat \<Rightarrow> 'k os \<Rightarrow> fd \<Rightarrow> fd \<Rightarrow> 'k proc \<Rightarrow> epoll_event list" where
  "rounds_events 0 S listenfd epollfd p = []"
| "rounds_events (Suc n) S listenfd epollfd p =
     (case fst (do_wait S epollfd MAX_EVENT_NUMBER (-1) p) of
        Inl e \<Rightarrow> []
      | Inr evs \<Rightarrow> evs @ rounds_events n S listenfd epollfd
          (lt S evs (length evs) epollfd listenfd (snd (do_wait S epollfd MAX_EVENT_NUMBER (-1) p))))"

lemma rounds_inputs:
  "server_rounds n S l ep p = Some q \<Longrightarrow>
    \<exists>ts. trace q = trace p @ ts \<and> filter is_input ts = concat (map (lt_inputs l) (rounds_events n S l ep p))"
proof (induction n arbitrary: p)
  case (Suc n)
  let ?w = "snd (do_wait S ep MAX_EVENT_NUMBER (-1) p)"
  from Suc.prems obtain evs where evs: "fst (do_wait S ep MAX_EVENT_NUMBER (-1) p) = Inr evs"
    and rest: "server_rounds n S l ep (lt S evs (length evs) ep l ?w) = Some q"
    by (auto simp: bind_Some_iff server_round_def Let_def simp del: wrapper_simps split: sum.splits)
  obtain t1 where "trace (lt S evs (length evs) ep l ?w) = trace ?w @ t1" "filter is_input t1 = concat (map (lt_inputs l) evs)"
    using lt_one_input_per_event [of S evs "length evs" ep l ?w] by auto
  with Suc.IH [OF rest] evs show ?case by (auto simp del: wrapper_simps(20))
qed simp

text \<open>From start-up on, the server makes exactly one \<open>accept\<close> for each event of the listening socket it is
  told of and one \<open>recv\<close> of at most 9 bytes for each other readable event, in their order, and no other
  input call. But the listening socket is registered edge-triggered, so that it is told once of all
  the connections that arrive before the next wait: only the first of them is accepted.\<close>

theorem server_inputs_follow_events:
  assumes "server_rounds n S listenfd epollfd (addfd S epollfd listenfd True p) = Some q"
  shows "\<exists>ts. trace q = trace p @ Ctl epollfd CTL_ADD listenfd (EPOLLIN OR EPOLLET) # ts
    \<and> filter is_input ts = concat (map (\<lambda>ev. if ev_fd ev = listenfd then [Accept listenfd]
          else if ev_events ev AND EPOLLIN \<noteq> 0 then [Recv (ev_fd ev) 9] else [])
        (rounds_events n S listenfd epollfd (addfd S epollfd listenfd True p)))"
  using rounds_inputs [OF assms] by (auto simp: addfd_trace et_flags_def lt_inputs_def [abs_def])

theorem server_inputs_follow_events_witness:
  "\<exists>q ts. server_rounds 1 script_os 3 4 (addfd script_os 4 3 True sample_proc) = Some q
    \<and> trace q = Ctl 4 CTL_ADD 3 (EPOLLIN OR EPOLLET) # ts \<and> filter is_input ts = [Recv 7 9]"
proof -
  obtain q where q: "server_rounds 1 script_os 3 4 (addfd script_os 4 3 True sample_proc) = Some q"
    by (simp add: server_round_def do_wait_def addfd_def setnonblocking_def do_getfl_def do_setfl_def do_ctl_def sample_simps
        Let_def MAX_EVENT_NUMBER_def)
  then show ?thesis
    using server_inputs_follow_events [OF q]
    by (simp add: do_wait_def addfd_def setnonblocking_def do_getfl_def do_setfl_def do_ctl_def sample_simps
        Let_def MAX_EVENT_NUMBER_def EPOLLIN_def)
qed

lemma lt_printed_ok:
  assumes "recv_bounded S" and "\<forall>a\<in>set (trace p). printed_ok a"
  shows "\<forall>a\<in>set (trace (lt S events nfds ep lfd p)). printed_ok a"
proof -
  have "run_all (\<lambda>ev p. Some (lt_event S ep lfd ev p)) (take nfds events) p = Some (lt S events nfds ep lfd p)"
    by (simp add: run_all_total lt_def)
  from lt_handler.batch_keeps [OF this TrueI] show ?thesis using assms by auto
qed

lemma rounds_printed_ok:
  "recv_bounded S \<Longrightarrow> \<forall>a\<in>set (trace p). printed_ok a \<Longrightarrow> server_rounds n S lfd ep p = Some q \<Longrightarrow>
    \<forall>a\<in>set (trace q). printed_ok a"
proof (induction n arbitrary: p)
  case (Suc n)
  then obtain r where r: "server_round S lfd ep p = Some r" "server_rounds n S lfd ep r = Some q"
    by (auto simp: bind_Some_iff)
  have w: "\<forall>a\<in>set (trace (snd (do_wait S ep MAX_EVENT_NUMBER (-1) p))). printed_ok a" using Suc.prems(2) by simp
  obtain evs where "r = lt S evs (length evs) ep lfd (snd (do_wait S ep MAX_EVENT_NUMBER (-1) p))"
    using r(1) by (auto simp: server_round_def Let_def split: sum.splits)
  then have "\<forall>a\<in>set (trace r). printed_ok a" using lt_printed_ok [OF Suc.prems(1) w] by simp
  then show ?case using Suc.IH [OF Suc.prems(1) _ r(2)] by blast
qed simp

text \<open>C30: no message is printed from outside the buffer: in any run of the server, and in a batch that \<open>et\<close> handles
  after it, every printed message has between 1 and 9 bytes and its buffer held a terminating NUL,
  as long as \<open>recv\<close> respects the length it is given.\<close>

theorem printed_messages_in_bounds:
  assumes "recv_bounded S" and "trace p = []"
    and "server_rounds n S listenfd epollfd (addfd S epollfd listenfd True p) = Some q"
    and "r = q \<or> et S events nfds epollfd listenfd q = Some r" and "a \<in> set (trace r)"
  shows "printed_ok a"
proof -
  have "\<forall>a\<in>set (trace (addfd S epollfd listenfd True p)). printed_ok a" by (simp add: addfd_trace assms(2))
  note q = rounds_printed_ok [OF assms(1) this assms(3)]
  have "\<forall>a\<in>set (trace r). printed_ok a"
  proof (cases "r = q")
    case False
    then have "run_all (et_event S epollfd listenfd) (take nfds events) q = Some r" using assms(4) by (simp add: et_def)
    from et_handler.batch_keeps [OF this TrueI] show ?thesis using assms(1) q by auto
  qed (simp add: q)
  then show ?thesis using assms(5) by blast
qed

theorem printed_messages_in_bounds_witness:
  "\<exists>q. server_rounds 1 script_os 3 4 (addfd script_os 4 3 True sample_proc) = Some q
    \<and> Print (Got 2 (Some [104, 105])) \<in> set (trace q) \<and> list_all printed_ok (trace q)"
proof -
  obtain q where q: "server_rounds 1 script_os 3 4 (addfd script_os 4 3 True sample_proc) = Some q"
    and p: "Print (Got 2 (Some [104, 105])) \<in> set (trace q)"
    by (simp add: server_round_def do_wait_def addfd_def setnonblocking_def do_getfl_def do_setfl_def do_ctl_def sample_simps
        Let_def MAX_EVENT_NUMBER_def lt_def lt_event_def do_recv_def BUFFER_SIZE_def EPOLLIN_def got_def c_string_def filled_def
        log_call_def say_def)
  have t: "trace sample_proc = []" by (simp add: sample_proc_def)
  show ?thesis using q p printed_messages_in_bounds [OF script_os_bounded(1) t q] by (auto simp: list_all_iff)
qed

text \<open>C15: the edge-triggered loop drains a socket: if the next \<open>recv\<close> calls deliver some chunks
  and then would block, \<open>et_read\<close> returns, has printed every chunk in order and has left the
  socket open.\<close>

theorem et_read_drains:
  assumes "recvs S f 9 (Suc (length chunks)) (kern p) = (map Inr chunks @ [Inl e], k)"
    and "[] \<notin> set chunks" and "e = EAGAIN \<or> e = EWOULDBLOCK"
  shows "\<exists>p'. et_read S f p = Some p' \<and> kern p' = k
    \<and> trace p' = trace p @ concat (map (\<lambda>c. [Recv f 9, Print (got c)]) chunks)
        @ [Recv f 9, Print (Line ''read later'')]"
proof -
  obtain k1 where k1: "recvs S f 9 (length chunks) (kern p) = (map Inr chunks, k1)"
    "sys_recv S f 9 k1 = (Inl e, k)"
    using recvs_split [of S f 9 "map Inr chunks"] assms(1) by auto
  obtain q where q: "et_read S f p = et_read S f q" "kern q = k1"
    "trace q = trace p @ concat (map (delivery f) chunks)"
    using et_read_chunks [OF k1(1) assms(2)] by blast
  show ?thesis
    using et_read_step [of S f q "Inl e" k] k1(2) q assms(3)
    by (auto simp: BUFFER_SIZE_def Let_def delivery_def [abs_def])
qed

theorem et_read_drains_witness:
  "\<exists>p'. et_read script_os 7 sample_proc = Some p'
    \<and> trace p' = [Recv 7 9, Print (got [104, 105]), Recv 7 9, Print (got [33]), Recv 7 9,
        Print (Line ''read later'')]"
  using et_read_drains [of script_os 7 "[[104, 105], [33]]" sample_proc EAGAIN]
  by (auto simp: sample_simps)

text \<open>C37: at the end of a stream the edge-triggered loop closes the socket, reads the closed
  descriptor once more and, as that fails, closes the same descriptor a second time.\<close>

theorem et_eof_closes_twice:
  assumes "recvs S f 9 (Suc (length chunks)) (kern p) = (map Inr chunks @ [Inr []], k)"
    and "[] \<notin> set chunks" and "fst (sys_recv S f 9 (snd (sys_close S f k))) = Inl EBADF"
  shows "\<exists>p'. et_read S f p = Some p'
    \<and> trace p' = trace p @ concat (map (\<lambda>c. [Recv f 9, Print (got c)]) chunks)
        @ [Recv f 9, Close f, Recv f 9, Close f]"
proof -
  obtain k1 where k1: "recvs S f 9 (length chunks) (kern p) = (map Inr chunks, k1)"
    "sys_recv S f 9 k1 = (Inr [], k)"
    using recvs_split [of S f 9 "map Inr chunks"] assms(1) by auto
  obtain q where q: "et_read S f p = et_read S f q" "kern q = k1"
    "trace q = trace p @ concat (map (delivery f) chunks)"
    using et_read_chunks [OF k1(1) assms(2)] by blast
  let ?r = "do_close S f (log_call (Recv f 9) k q)"
  obtain k2 where k2: "sys_recv S f 9 (kern ?r) = (Inl EBADF, k2)"
    using assms(3) by (metis do_close_simps(1) log_call_simps(1) prod.collapse)
  have "et_read S f q = et_read S f ?r"
    using et_read_step [of S f q "Inr []" k] k1(2) q(2) by (simp add: BUFFER_SIZE_def Let_def)
  also have "\<dots> = Some (do_close S f (log_call (Recv f 9) k2 ?r))"
    using et_read_step [of S f ?r "Inl EBADF" k2] k2 by (simp add: BUFFER_SIZE_def Let_def)
  finally show ?thesis using q by (simp add: delivery_def [abs_def])
qed

theorem et_eof_closes_twice_witness:
  "\<exists>p'. et_read script_os 8 sample_proc = Some p'
    \<and> trace p' = [Recv 8 9, Print (got [72]), Recv 8 9, Close 8, Recv 8 9, Close 8]"
  using et_eof_closes_twice [of script_os 8 "[[72]]" sample_proc]
  by (auto simp: sample_simps)

text \<open>The two modes deliver the same data: as many level-triggered rounds on a socket as
  there are chunks print the same messages in the same order as one run of the edge-triggered
  loop over them.\<close>

theorem lt_rounds_print_what_et_prints:
  assumes "recvs S f 9 (Suc (length chunks)) (kern p) = (map Inr chunks @ [Inl EAGAIN], k)"
    and "[] \<notin> set chunks" and "f \<noteq> lfd" and "ev AND EPOLLIN \<noteq> 0" and "trace p = []"
  shows "\<exists>p'. et_read S f p = Some p'
    \<and> filter is_got (trace p') = map (\<lambda>c. Print (got c)) chunks
    \<and> filter is_got (trace ((lt_event S ep lfd \<lparr>ev_events = ev, ev_fd = f\<rparr> ^^ length chunks) p))
        = filter is_got (trace p')"
proof -
  obtain k1 where k1: "recvs S f 9 (length chunks) (kern p) = (map Inr chunks, k1)"
    "sys_recv S f 9 k1 = (Inl EAGAIN, k)"
    using recvs_split [of S f 9 "map Inr chunks"] assms(1) by auto
  obtain q where q: "et_read S f p = et_read S f q" "kern q = k1"
    "trace q = trace p @ concat (map (delivery f) chunks)"
    using et_read_chunks [OF k1(1) assms(2)] by blast
  have "et_read S f q = Some (say (Line ''read later'') (log_call (Recv f 9) k q))"
    using et_read_step [of S f q "Inl EAGAIN" k] k1(2) q(2) by (simp add: BUFFER_SIZE_def Let_def)
  moreover have "filter is_got (trace ((lt_event S ep lfd \<lparr>ev_events = ev, ev_fd = f\<rparr> ^^ length chunks) p))
      = map (\<lambda>c. Print (got c)) chunks"
    using funpow_lt_event [OF k1(1) assms(2-4)] assms(5) by (auto simp: got_delivery_lt)
  ultimately show ?thesis using q assms(5) by (simp add: got_delivery)
qed

theorem lt_rounds_print_what_et_prints_witness:
  "\<exists>p'. et_read script_os 7 sample_proc = Some p'
    \<and> filter is_got (trace p') = [Print (got [104, 105]), Print (got [33])]
    \<and> filter is_got (trace ((lt_event script_os 4 3 \<lparr>ev_events = EPOLLIN, ev_fd = 7\<rparr> ^^ 2) sample_proc))
        = filter is_got (trace p')"
  using lt_rounds_print_what_et_prints [of script_os 7 "[[104, 105], [33]]" sample_proc _ 3 EPOLLIN 4]
  by (auto simp: sample_simps EPOLLIN_def numeral_2_eq_2)

text \<open>A failed \<open>accept\<close> is not noticed: both handlers go on to register descriptor -1 and to
  rewrite its flags, and if reading those flags fails too, with every flag bit set.\<close>

theorem accept_failure_unchecked:
  assumes "ev_fd ev = lfd" and "fst (sys_accept S lfd (kern p)) = -1"
    and "\<forall>k. fst (sys_getfl S (-1) k) = -1"
  shows "trace (lt_event S ep lfd ev p) =
      trace p @ [Accept lfd, Ctl ep CTL_ADD (-1) EPOLLIN, Getfl (-1), Setfl (-1) (-1)]
    \<and> (\<exists>p'. et_event S ep lfd ev p = Some p' \<and> trace p' =
      trace p @ [Accept lfd, Ctl ep CTL_ADD (-1) (EPOLLIN OR EPOLLET), Getfl (-1), Setfl (-1) (-1)])"
  using assms by (simp add: lt_event_def et_event_def Let_def case_prod_unfold addfd_trace et_flags_def)

theorem accept_failure_unchecked_witness:
  "trace (lt_event script_os 4 3 \<lparr>ev_events = EPOLLIN, ev_fd = 3\<rparr> sample_proc) =
     [Accept 3, Ctl 4 CTL_ADD (-1) EPOLLIN, Getfl (-1), Setfl (-1) (-1)]"
  using accept_failure_unchecked [of "\<lparr>ev_events = EPOLLIN, ev_fd = 3\<rparr>" 3 script_os sample_proc 4]
  by (simp add: sample_simps)

text \<open>Once it is set up, the server returns exactly when some \<open>epoll_wait\<close> fails: it returns
  \<open>p'\<close> if and only if there is a number of successful rounds, each handling one batch with
  \<open>lt\<close>, after which the wait fails; it then reports the failure, closes the listening socket
  and returns status 0.\<close>

theorem server_returns_iff_wait_fails:
  "server_run S listenfd epollfd p = Some (st, p') \<longleftrightarrow>
     (\<exists>n q. server_rounds n S listenfd epollfd (addfd S epollfd listenfd True p) = Some q
       \<and> wait_fails S epollfd q \<and> st = Return 0
       \<and> p' = do_close S listenfd (server_stop S epollfd q))"
proof
  assume "server_run S listenfd epollfd p = Some (st, p')"
  then obtain r where "main_loop S listenfd epollfd (addfd S epollfd listenfd True p) = Some r"
    and "st = Return 0" "p' = do_close S listenfd r"
    by (auto simp: server_run_def server_ready_def bind_Some_iff)
  then show "\<exists>n q. server_rounds n S listenfd epollfd (addfd S epollfd listenfd True p) = Some q
      \<and> wait_fails S epollfd q \<and> st = Return 0 \<and> p' = do_close S listenfd (server_stop S epollfd q)"
    using main_loop_returns by blast
next
  assume "\<exists>n q. server_rounds n S listenfd epollfd (addfd S epollfd listenfd True p) = Some q
      \<and> wait_fails S epollfd q \<and> st = Return 0 \<and> p' = do_close S listenfd (server_stop S epollfd q)"
  then show "server_run S listenfd epollfd p = Some (st, p')"
    using main_loop_rounds by (fastforce simp: server_run_def server_ready_def)
qed

text \<open>Every way the start-up can end before the loop: too few arguments return status 1
  with a usage line and no system call; a failed \<open>socket\<close>, \<open>bind\<close>, \<open>listen\<close> or
  \<open>epoll_create\<close> stops in an assertion; and an address text that \<open>inet_pton\<close> rejects is not
  detected, the server binds to the all-zero address with the port cut to 16 bits.\<close>

theorem server_startup_outcomes:
  "(length argv \<le> 2 \<longrightarrow>
      server_main S L argv p = Some (Return 1, say (Line ''usage: %s ip_address port_number'') p))
   \<and> (2 < length argv \<longrightarrow> fst (sys_socket L (kern p)) < 0 \<longrightarrow>
      map_option fst (server_main S L argv p) = Some Assertion_failed)
   \<and> (2 < length argv \<longrightarrow> sys_socket L (kern p) = (3, k1) \<longrightarrow>
      fst (sys_bind L 3 (server_address L (argv ! 1) (lib_atoi L (argv ! 2))) k1) = -1 \<longrightarrow>
      map_option fst (server_main S L argv p) = Some Assertion_failed)
   \<and> (lib_inet_pton L ip = None \<longrightarrow>
      server_address L ip port = \<lparr>sin_family = lib_AF_INET L, sin_addr = 0,
        sin_port = lib_htons L (ucast port)\<rparr>)"
  by (auto simp: server_main_def server_address_def Let_def case_prod_unfold)

definition sample_startup :: "script startup" where
  "sample_startup = \<lparr>lib_AF_INET = 2, lib_atoi = (\<lambda>_. 8080), lib_inet_pton = (\<lambda>_. None),
     lib_htons = (\<lambda>w. word_reverse w), sys_socket = (\<lambda>k. (3, k)), sys_bind = (\<lambda>_ _ k. (-1, k)),
     sys_listen = (\<lambda>_ _ k. (0, k)), sys_epoll_create = (\<lambda>_ k. (4, k))\<rparr>"

theorem server_startup_outcomes_witness:
  "map_option fst (server_main script_os sample_startup [''server'', ''nowhere'', ''8080''] sample_proc)
     = Some Assertion_failed"
  using server_startup_outcomes [of "[''server'', ''nowhere'', ''8080'']" script_os sample_startup
      sample_proc sample_script]
  by (simp add: sample_startup_def sample_proc_def)

end
