(* ===== verification/Open_Descriptors.thy ===== *)
theory Open_Descriptors
  imports Epoll_Server
begin

text \<open>
  The server of \<open>server.c\<close> uses no descriptor that it has closed. The program is run on a system that keeps the set of
  the closed descriptors beside the kernel and notes every call that names one of them; what the program does
  is the same as without it.
\<close>

section \<open>A system that notes the use of closed descriptors\<close>

record 'k tracked =
  t_kern :: 'k
  t_closed :: "fd set"
  t_clean :: bool

text \<open>The state after a call that names the descriptors \<open>fs\<close>.\<close>

definition touch :: "fd list \<Rightarrow> 'k \<Rightarrow> 'k tracked \<Rightarrow> 'k tracked" where
  "touch fs k t = t\<lparr>t_kern := k, t_clean := t_clean t \<and> (\<forall>f \<in> set fs. f \<notin> t_closed t)\<rparr>"

lemma touch_simps [simp]:
  "t_kern (touch fs k t) = k" "t_closed (touch fs k t) = t_closed t"
  "t_clean (touch fs k t) \<longleftrightarrow> t_clean t \<and> (\<forall>f \<in> set fs. f \<notin> t_closed t)"
  by (simp_all add: touch_def)

text \<open>A close ends a descriptor until \<open>accept\<close> returns the number again.\<close>

definition tracked :: "'k os \<Rightarrow> 'k tracked os" where
  "tracked S = \<lparr>
     sys_getfl = (\<lambda>f t. let (r, k) = sys_getfl S f (t_kern t) in (r, touch [f] k t)),
     sys_setfl = (\<lambda>f v t. let (r, k) = sys_setfl S f v (t_kern t) in (r, touch [f] k t)),
     sys_epoll_ctl = (\<lambda>ep c f ev t. let (r, k) = sys_epoll_ctl S ep c f ev (t_kern t) in (r, touch [ep, f] k t)),
     sys_epoll_wait = (\<lambda>ep n to t. let (r, k) = sys_epoll_wait S ep n to (t_kern t) in (r, touch [ep] k t)),
     sys_accept = (\<lambda>f t. let (c, k) = sys_accept S f (t_kern t); t = touch [f] k t
                          in (c, t\<lparr>t_closed := t_closed t - {c}\<rparr>)),
     sys_recv = (\<lambda>f n t. let (r, k) = sys_recv S f n (t_kern t) in (r, touch [f] k t)),
     sys_read = (\<lambda>f n t. let (r, k) = sys_read S f n (t_kern t) in (r, touch [f] k t)),
     sys_write = (\<lambda>f bs n t. let (r, k) = sys_write S f bs n (t_kern t) in (r, touch [f] k t)),
     sys_close = (\<lambda>f t. let (r, k) = sys_close S f (t_kern t); t = touch [f] k t
                         in (r, t\<lparr>t_closed := insert f (t_closed t)\<rparr>)) \<rparr>"

lemma tracked_simps [simp]:
  "sys_getfl (tracked S) f t = (fst (sys_getfl S f (t_kern t)), touch [f] (snd (sys_getfl S f (t_kern t))) t)"
  "sys_setfl (tracked S) f v t = (fst (sys_setfl S f v (t_kern t)), touch [f] (snd (sys_setfl S f v (t_kern t))) t)"
  "sys_epoll_ctl (tracked S) ep c f ev t =
     (fst (sys_epoll_ctl S ep c f ev (t_kern t)), touch [ep, f] (snd (sys_epoll_ctl S ep c f ev (t_kern t))) t)"
  "sys_epoll_wait (tracked S) ep n to t =
     (fst (sys_epoll_wait S ep n to (t_kern t)), touch [ep] (snd (sys_epoll_wait S ep n to (t_kern t))) t)"
  "sys_recv (tracked S) f m t = (fst (sys_recv S f m (t_kern t)), touch [f] (snd (sys_recv S f m (t_kern t))) t)"
  "fst (sys_accept (tracked S) f t) = fst (sys_accept S f (t_kern t))"
  "snd (sys_accept (tracked S) f t) = (touch [f] (snd (sys_accept S f (t_kern t))) t)
     \<lparr>t_closed := t_closed t - {fst (sys_accept S f (t_kern t))}\<rparr>"
  "snd (sys_close (tracked S) f t) = (touch [f] (snd (sys_close S f (t_kern t))) t)\<lparr>t_closed := insert f (t_closed t)\<rparr>"
  by (simp_all add: tracked_def Let_def case_prod_unfold)

definition track :: "'k proc \<Rightarrow> 'k tracked proc" where
  "track p = \<lparr>kern = \<lparr>t_kern = kern p, t_closed = {}, t_clean = True\<rparr>, trace = trace p\<rparr>"

definition untrack :: "'k tracked proc \<Rightarrow> 'k proc" where
  "untrack p = \<lparr>kern = t_kern (kern p), trace = trace p\<rparr>"

lemma untrack_track [simp]: "untrack (track p) = p"
  by (simp add: untrack_def track_def)

section \<open>The program is the same\<close>

lemma untrack_log [simp]: "untrack (log_call a t p) = log_call a (t_kern t) (untrack p)"
  by (simp add: untrack_def log_call_def)

lemma untrack_sel [simp]: "t_kern (kern p) = kern (untrack p)" "trace (untrack p) = trace p"
  by (simp_all add: untrack_def)

lemma untrack_calls [simp]:
  "fst (do_recv (tracked S) f n p) = fst (do_recv S f n (untrack p))"
  "untrack (snd (do_recv (tracked S) f n p)) = snd (do_recv S f n (untrack p))"
  "untrack (do_close (tracked S) f p) = do_close S f (untrack p)"
  "untrack (say m p) = say m (untrack p)"
  "fst (do_accept (tracked S) f p) = fst (do_accept S f (untrack p))"
  "untrack (snd (do_accept (tracked S) f p)) = snd (do_accept S f (untrack p))"
  "fst (do_wait (tracked S) ep n to p) = fst (do_wait S ep n to (untrack p))"
  "untrack (snd (do_wait (tracked S) ep n to p)) = snd (do_wait S ep n to (untrack p))"
  "untrack (addfd (tracked S) ep f e p) = addfd S ep f e (untrack p)"
  by (simp_all add: do_recv_def do_close_def do_accept_def do_wait_def say_def addfd_def setnonblocking_def do_ctl_def
      do_getfl_def do_setfl_def Let_def case_prod_unfold)

lemma untrack_event: "untrack (lt_event (tracked S) ep l ev p) = lt_event S ep l ev (untrack p)"
  by (simp add: lt_event_def Let_def case_prod_unfold del: wrapper_simps split: sum.split)

lemma untrack_lt: "untrack (lt (tracked S) evs n ep l p) = lt S evs n ep l (untrack p)"
proof -
  have "untrack (fold (lt_event (tracked S) ep l) evs p) = fold (lt_event S ep l) evs (untrack p)" for evs p
    by (induction evs arbitrary: p) (simp_all add: untrack_event)
  then show ?thesis by (simp add: lt_def)
qed

lemma untrack_round: "map_option untrack (server_round (tracked S) l ep p) = server_round S l ep (untrack p)"
  by (simp add: server_round_def Let_def untrack_lt del: wrapper_simps split: sum.split)

lemma untrack_rounds: "map_option untrack (server_rounds n (tracked S) l ep p) = server_rounds n S l ep (untrack p)"
proof (induction n arbitrary: p)
  case (Suc n)
  show ?case
  proof (cases "server_round (tracked S) l ep p")
    case None
    then show ?thesis using untrack_round [of S l ep p] by simp
  next
    case (Some q)
    then have "server_round S l ep (untrack p) = Some (untrack q)" using untrack_round [of S l ep p] by simp
    then show ?thesis using Some Suc.IH [of q] by simp
  qed
qed simp

section \<open>Open descriptors\<close>

text \<open>What the system documents of the descriptors \<open>live\<close> that a process has open: \<open>close\<close> ends the one it is given,
  \<open>accept\<close> opens the one it returns, if any, the other calls change none, and \<open>epoll_wait\<close> reports open
  ones, each once and not the epoll descriptor itself.\<close>

definition descriptors_ok :: "'k os \<Rightarrow> ('k \<Rightarrow> fd set) \<Rightarrow> bool" where
  "descriptors_ok S live \<longleftrightarrow>
     (\<forall>f k. live (snd (sys_getfl S f k)) = live k)
   \<and> (\<forall>f v k. live (snd (sys_setfl S f v k)) = live k)
   \<and> (\<forall>ep c f ev k. live (snd (sys_epoll_ctl S ep c f ev k)) = live k)
   \<and> (\<forall>f n k. live (snd (sys_recv S f n k)) = live k)
   \<and> (\<forall>f k. live (snd (sys_accept S f k)) =
        (if 0 \<le> fst (sys_accept S f k) then insert (fst (sys_accept S f k)) (live k) else live k))
   \<and> (\<forall>f k. live (snd (sys_close S f k)) = live k - {f})
   \<and> (\<forall>ep n t k. live (snd (sys_epoll_wait S ep n t k)) = live k)
   \<and> (\<forall>ep n t k evs. fst (sys_epoll_wait S ep n t k) = Inr evs \<longrightarrow>
        distinct (map ev_fd evs) \<and> ev_fd ` set evs \<subseteq> live k - {ep})"

lemma descriptors_okD:
  assumes "descriptors_ok S live"
  shows "live (snd (sys_getfl S f k)) = live k" "live (snd (sys_setfl S f v k)) = live k"
    "live (snd (sys_epoll_ctl S ep c f ev k)) = live k" "live (snd (sys_recv S f n k)) = live k"
    "live (snd (sys_close S f k)) = live k - {f}"
    "live (snd (sys_accept S f k)) =
      (if 0 \<le> fst (sys_accept S f k) then insert (fst (sys_accept S f k)) (live k) else live k)"
    "live (snd (sys_epoll_wait S ep n t k)) = live k"
    "fst (sys_epoll_wait S ep n t k) = Inr evs \<Longrightarrow> distinct (map ev_fd evs) \<and> ev_fd ` set evs \<subseteq> live k - {ep}"
  using assms [unfolded descriptors_ok_def] by (simp_all del: wrapper_simps)

text \<open>Nothing closed has been used, nothing that is open counts as closed, and the two descriptors of the loop are open.\<close>

definition uses_open :: "('k \<Rightarrow> fd set) \<Rightarrow> fd \<Rightarrow> fd \<Rightarrow> 'k tracked proc \<Rightarrow> bool" where
  "uses_open live l ep p \<longleftrightarrow> t_clean (kern p) \<and> t_closed (kern p) \<inter> live (kern (untrack p)) = {}
     \<and> l \<in> live (kern (untrack p)) \<and> ep \<in> live (kern (untrack p))"

lemma addfd_open:
  assumes "descriptors_ok S live" and "uses_open live l ep p" and "f \<notin> t_closed (kern p)"
  shows "uses_open live l ep (addfd (tracked S) ep f e p)"
    and "live (kern (untrack (addfd (tracked S) ep f e p))) = live (kern (untrack p))"
proof -
  have "ep \<notin> t_closed (kern p)" using assms(2) by (auto simp: uses_open_def)
  then show "uses_open live l ep (addfd (tracked S) ep f e p)"
    "live (kern (untrack (addfd (tracked S) ep f e p))) = live (kern (untrack p))"
    using assms(2,3)
    by (simp_all add: uses_open_def addfd_def setnonblocking_def Let_def case_prod_unfold do_ctl_def do_getfl_def do_setfl_def
        descriptors_okD(1-3) [OF assms(1)] del: wrapper_simps do_ctl_simps)
qed

lemma accept_open:
  assumes "descriptors_ok S live" and "uses_open live l ep p"
  shows "uses_open live l ep (snd (do_accept (tracked S) l p))"
    and "fst (sys_accept S l (kern (untrack p))) \<notin> t_closed (kern (snd (do_accept (tracked S) l p)))"
    and "live (kern (untrack p)) \<subseteq> live (kern (untrack (snd (do_accept (tracked S) l p))))"
  using assms(2) by (auto simp: uses_open_def descriptors_okD(6) [OF assms(1)])

lemma event_open:
  assumes S: "descriptors_ok S live" and p: "uses_open live l ep p"
    and ev: "ev_fd ev \<in> live (kern (untrack p))" "ev_fd ev \<noteq> ep"
  shows "uses_open live l ep (lt_event (tracked S) ep l ev p)"
    and "f \<in> live (kern (untrack p)) \<Longrightarrow> f \<noteq> ev_fd ev \<Longrightarrow> f \<in> live (kern (untrack (lt_event (tracked S) ep l ev p)))"
proof -
  have "uses_open live l ep (lt_event (tracked S) ep l ev p)
      \<and> (\<forall>f \<in> live (kern (untrack p)). f \<noteq> ev_fd ev \<longrightarrow> f \<in> live (kern (untrack (lt_event (tracked S) ep l ev p))))"
  proof (cases "ev_fd ev = l")
    case True
    then have q: "lt_event (tracked S) ep l ev p
        = addfd (tracked S) ep (fst (sys_accept S l (kern (untrack p)))) False (snd (do_accept (tracked S) l p))"
      by (simp add: lt_event_def Let_def case_prod_unfold)
    note acc = accept_open [OF S p]
    show ?thesis unfolding q using addfd_open [OF S acc(1,2)] acc(3) by auto
  next
    case False
    let ?f = "ev_fd ev" and ?p = "say (Line ''event trigger once'') p"
    have "?f \<notin> t_closed (kern p)" using p ev by (auto simp: uses_open_def)
    then show ?thesis using p ev False
      by (auto simp: lt_event_def Let_def case_prod_unfold uses_open_def descriptors_okD(4,5) [OF S] split: sum.split)
  qed
  then show "uses_open live l ep (lt_event (tracked S) ep l ev p)"
    "f \<in> live (kern (untrack p)) \<Longrightarrow> f \<noteq> ev_fd ev \<Longrightarrow> f \<in> live (kern (untrack (lt_event (tracked S) ep l ev p)))" by blast+
qed

lemma batch_open:
  assumes S: "descriptors_ok S live"
  shows "uses_open live l ep p \<Longrightarrow> distinct (map ev_fd evs) \<Longrightarrow> ev_fd ` set evs \<subseteq> live (kern (untrack p)) - {ep} \<Longrightarrow>
    uses_open live l ep (fold (lt_event (tracked S) ep l) evs p)"
proof (induction evs arbitrary: p)
  case (Cons ev evs)
  have ev: "ev_fd ev \<in> live (kern (untrack p))" "ev_fd ev \<noteq> ep" using Cons.prems(3) by auto
  have "ev_fd ` set evs \<subseteq> live (kern (untrack (lt_event (tracked S) ep l ev p))) - {ep}"
  proof
    fix f assume f: "f \<in> ev_fd ` set evs"
    then have "f \<in> live (kern (untrack p))" "f \<noteq> ep" using Cons.prems(3) by auto
    moreover have "f \<noteq> ev_fd ev" using f Cons.prems(2) by (metis distinct.simps(2) list.map(2) set_map)
    ultimately show "f \<in> live (kern (untrack (lt_event (tracked S) ep l ev p))) - {ep}"
      using event_open(2) [OF S Cons.prems(1) ev] by blast
  qed
  then show ?case using Cons.IH [OF event_open(1) [OF S Cons.prems(1) ev]] Cons.prems(2) by simp
qed simp

lemma wait_open:
  assumes "descriptors_ok S live" and "uses_open live l ep p"
  shows "uses_open live l ep (snd (do_wait (tracked S) ep n to p))"
  using assms(2) by (auto simp: uses_open_def descriptors_okD(7) [OF assms(1)])

lemma round_open:
  assumes S: "descriptors_ok S live" and p: "uses_open live l ep p" and r: "server_round (tracked S) l ep p = Some q"
  shows "uses_open live l ep q"
proof -
  let ?w = "snd (do_wait (tracked S) ep MAX_EVENT_NUMBER (-1) p)"
  obtain evs where evs: "fst (sys_epoll_wait S ep MAX_EVENT_NUMBER (-1) (kern (untrack p))) = Inr evs"
    and q: "q = fold (lt_event (tracked S) ep l) evs ?w"
    using r by (auto simp: server_round_def lt_def Let_def split: sum.splits)
  have "live (kern (untrack ?w)) = live (kern (untrack p))" by (simp add: descriptors_okD(7) [OF S])
  then show ?thesis
    unfolding q using descriptors_okD(8) [OF S evs] by (intro batch_open [OF S wait_open [OF S p]]) auto
qed

lemma rounds_open:
  assumes "descriptors_ok S live"
  shows "uses_open live l ep p \<Longrightarrow> server_rounds n (tracked S) l ep p = Some q \<Longrightarrow> uses_open live l ep q"
proof (induction n arbitrary: p)
  case (Suc n)
  then obtain r where "server_round (tracked S) l ep p = Some r" "server_rounds n (tracked S) l ep r = Some q"
    by (auto simp: bind_Some_iff)
  then show ?case using Suc.IH round_open [OF assms Suc.prems(1)] by blast
qed simp

section \<open>Properties\<close>

text \<open>C31: the server never uses a descriptor that it has closed. On the system that notes every call on a closed
  descriptor, from the registration of the listening socket through any number of rounds, whatever
  \<open>epoll_wait\<close>, \<open>accept\<close> and \<open>recv\<close> return, no such call is noted and the listening socket is not closed; nor is one
  noted when the server returns. And the run is that of the program on the system without the notes.\<close>

theorem lt_uses_open_descriptors:
  assumes "descriptors_ok S live" and "listenfd \<in> live (kern p)" and "epollfd \<in> live (kern p)"
  shows "(server_rounds n (tracked S) listenfd epollfd (server_ready (tracked S) listenfd epollfd (track p)) = Some q \<longrightarrow>
       t_clean (kern q) \<and> listenfd \<notin> t_closed (kern q))
    \<and> (server_run (tracked S) listenfd epollfd (track p) = Some (st, r) \<longrightarrow> t_clean (kern r))
    \<and> map_option untrack (server_rounds n (tracked S) listenfd epollfd (server_ready (tracked S) listenfd epollfd (track p)))
      = server_rounds n S listenfd epollfd (server_ready S listenfd epollfd p)"
proof -
  let ?p = "server_ready (tracked S) listenfd epollfd (track p)"
  have "uses_open live listenfd epollfd (track p)" using assms(2,3) by (simp add: uses_open_def) (simp add: track_def)
  then have p: "uses_open live listenfd epollfd ?p"
    unfolding server_ready_def by (rule addfd_open(1) [OF assms(1)]) (simp add: track_def)
  have "t_clean (kern r)" if run: "server_run (tracked S) listenfd epollfd (track p) = Some (st, r)"
  proof -
    obtain m u where u: "server_rounds m (tracked S) listenfd epollfd ?p = Some u"
      and r: "r = do_close (tracked S) listenfd (server_stop (tracked S) epollfd u)"
      using run unfolding server_returns_iff_wait_fails server_ready_def by blast
    have "uses_open live listenfd epollfd (snd (do_wait (tracked S) epollfd MAX_EVENT_NUMBER (-1) u))"
      by (rule wait_open [OF assms(1) rounds_open [OF assms(1) p u]])
    then show ?thesis by (auto simp: r server_stop_def uses_open_def)
  qed
  moreover have "map_option untrack (server_rounds n (tracked S) listenfd epollfd ?p)
      = server_rounds n S listenfd epollfd (server_ready S listenfd epollfd p)"
    by (simp add: untrack_rounds server_ready_def)
  moreover have "t_clean (kern q) \<and> listenfd \<notin> t_closed (kern q)"
    if "server_rounds n (tracked S) listenfd epollfd ?p = Some q"
    using rounds_open [OF assms(1) p that] by (auto simp: uses_open_def)
  ultimately show ?thesis by blast
qed

text \<open>A system with a list of open descriptors: it reports those of the pending events that are open.\<close>

fun once :: "fd list \<Rightarrow> epoll_event list \<Rightarrow> epoll_event list" where
  "once fs [] = []"
| "once fs (ev # evs) = (if ev_fd ev \<in> set fs then ev # once (removeAll (ev_fd ev) fs) evs else once fs evs)"

lemma once_open: "x \<in> ev_fd ` set (once fs evs) \<Longrightarrow> x \<in> set fs"
  by (induction fs evs rule: once.induct) (auto split: if_splits)

lemma once_distinct: "distinct (map ev_fd (once fs evs))"
proof (induction fs evs rule: once.induct)
  case (2 fs ev evs)
  have "ev_fd ev \<notin> ev_fd ` set (once (removeAll (ev_fd ev) fs) evs)"
    using once_open [of "ev_fd ev" "removeAll (ev_fd ev) fs" evs] by auto
  then show ?case using 2 by simp
qed simp

definition table_os :: "epoll_event list \<Rightarrow> fd list os" where
  "table_os evs = \<lparr>
     sys_getfl = (\<lambda>f k. (2, k)), sys_setfl = (\<lambda>f v k. (0, k)), sys_epoll_ctl = (\<lambda>ep c f ev k. (0, k)),
     sys_epoll_wait = (\<lambda>ep n t k. (Inr (once (removeAll ep k) evs), k)),
     sys_accept = (\<lambda>f k. let c = Max (insert 0 (set k)) + 1 in (c, c # k)),
     sys_recv = (\<lambda>f n k. (Inr [], k)), sys_read = (\<lambda>f n k. (Inr [], k)), sys_write = (\<lambda>f bs n k. (0, k)),
     sys_close = (\<lambda>f k. (0, removeAll f k)) \<rparr>"

lemma table_os_ok: "descriptors_ok (table_os evs) set"
proof -
  have "0 \<le> Max (insert 0 (set k)) + 1" for k :: "fd list"
    using Max_ge [of "insert 0 (set k)" 0] by simp
  moreover have "ev_fd ` set (once (removeAll ep k) evs) \<subseteq> set k - {ep}" for ep k
    using once_open by fastforce
  ultimately show ?thesis by (simp add: descriptors_ok_def table_os_def Let_def once_distinct)
qed

text \<open>Two clients that have nothing to say are closed in the first round, where a third one connects.\<close>

definition table_events :: "epoll_event list" where
  "table_events = [\<lparr>ev_events = EPOLLIN, ev_fd = 7\<rparr>, \<lparr>ev_events = EPOLLIN, ev_fd = 8\<rparr>, \<lparr>ev_events = EPOLLIN, ev_fd = 3\<rparr>]"

lemma batch_inputs:
  "filter is_input (trace (fold (lt_event S ep l) evs p)) = filter is_input (trace p) @ concat (map (lt_inputs l) evs)"
proof (induction evs arbitrary: p)
  case (Cons ev evs)
  obtain ts where "trace (lt_event S ep l ev p) = trace p @ ts" "filter is_input ts = lt_inputs l ev"
    using lt_event_inputs [of S ep l ev p] by blast
  then show ?case using Cons.IH [of "lt_event S ep l ev p"] by simp
qed simp

theorem lt_uses_open_descriptors_witness:
  "\<exists>q. server_rounds 1 (tracked (table_os table_events)) 3 4
        (server_ready (tracked (table_os table_events)) 3 4 (track \<lparr>kern = [3, 4, 7, 8], trace = []\<rparr>)) = Some q
    \<and> t_clean (kern q) \<and> filter is_input (trace q) = [Recv 7 9, Recv 8 9, Accept 3]"
proof -
  let ?S = "table_os table_events" and ?p = "\<lparr>kern = [3, 4, 7, 8], trace = []\<rparr>"
  let ?ready = "server_ready ?S 3 4 ?p"
  have k: "kern ?ready = [3, 4, 7, 8]" "filter is_input (trace ?ready) = []"
    by (simp_all add: server_ready_def addfd_def setnonblocking_def table_os_def Let_def case_prod_unfold)
  have "sys_epoll_wait ?S 4 n t k = (Inr (once (removeAll 4 k) table_events), k)" for n t k by (simp add: table_os_def)
  then have round: "server_round ?S 3 4 ?ready
      = Some (fold (lt_event ?S 4 3) table_events (snd (do_wait ?S 4 MAX_EVENT_NUMBER (-1) ?ready)))"
    by (simp add: server_round_def lt_def Let_def k) (simp add: table_events_def)
  have plain: "server_rounds 1 ?S 3 4 ?ready
      = Some (fold (lt_event ?S 4 3) table_events (snd (do_wait ?S 4 MAX_EVENT_NUMBER (-1) ?ready)))"
    using round by simp
  let ?run = "server_rounds 1 (tracked ?S) 3 4 (server_ready (tracked ?S) 3 4 (track ?p))"
  have live: "3 \<in> set (kern ?p)" "4 \<in> set (kern ?p)" by simp_all
  note kept = lt_uses_open_descriptors [OF table_os_ok live, where n = 1]
  then have same: "map_option untrack ?run = server_rounds 1 ?S 3 4 ?ready" by blast
  then obtain q where q: "?run = Some q" using plain by (cases ?run) simp_all
  moreover have "t_clean (kern q)" using kept q by blast
  moreover have "filter is_input (trace q) = [Recv 7 9, Recv 8 9, Accept 3]"
  proof -
    have "untrack q = fold (lt_event ?S 4 3) table_events (snd (do_wait ?S 4 MAX_EVENT_NUMBER (-1) ?ready))"
      using same q plain by simp
    then have "filter is_input (trace (untrack q)) = concat (map (lt_inputs 3) table_events)"
      by (simp add: batch_inputs k(2) del: untrack_sel)
    then show ?thesis by (simp add: table_events_def lt_inputs_def EPOLLIN_def)
  qed
  ultimately show ?thesis by blast
qed

end
