(* ===== verification/Stream_Sockets.thy ===== *)
theory Stream_Sockets
  imports Sockets
begin

text \<open>
  What the system documents of stream sockets, for both event-driven programs. Two views of the kernel
  state say it: \<open>arrived k f\<close> are all the bytes that have arrived at the descriptor \<open>f\<close> so far and
  \<open>pending k f\<close> those of them that no call has taken yet. Bytes may arrive during any call.
\<close>

type_synonym 'k view = "'k \<Rightarrow> fd \<Rightarrow> u8 list"

text \<open>A call that takes the bytes \<open>bs\<close> from the front of what is pending at \<open>f\<close> and nothing elsewhere.\<close>

definition taken :: "'k view \<Rightarrow> 'k view \<Rightarrow> fd \<Rightarrow> u8 list \<Rightarrow> 'k \<Rightarrow> 'k \<Rightarrow> bool" where
  "taken arrived pending f bs k k' \<longleftrightarrow>
     (\<forall>g. \<exists>new. arrived k' g = arrived k g @ new
        \<and> pending k g @ new = (if g = f then bs else []) @ pending k' g)"

text \<open>A call that takes nothing.\<close>

definition leaves :: "'k view \<Rightarrow> 'k view \<Rightarrow> 'k \<Rightarrow> 'k \<Rightarrow> bool" where
  "leaves arrived pending k k' \<longleftrightarrow>
     (\<forall>g. \<exists>new. arrived k' g = arrived k g @ new \<and> pending k' g = pending k g @ new)"

text \<open>A call that ends a descriptor: what is pending there is gone, and nothing arrives there any more.\<close>

definition ends :: "'k view \<Rightarrow> 'k view \<Rightarrow> fd \<Rightarrow> 'k \<Rightarrow> 'k \<Rightarrow> bool" where
  "ends arrived pending f k k' \<longleftrightarrow> arrived k' f = arrived k f \<and> pending k' f = []
     \<and> (\<forall>g. g \<noteq> f \<longrightarrow> (\<exists>new. arrived k' g = arrived k g @ new \<and> pending k' g = pending k g @ new))"

definition received :: "errno + u8 list \<Rightarrow> u8 list" where
  "received r = (case r of Inl e \<Rightarrow> [] | Inr bs \<Rightarrow> bs)"

lemma received_simps [simp]: "received (Inl e) = []" "received (Inr bs) = bs"
  by (simp_all add: received_def)

text \<open>A receiving call stores at most as many bytes as it has room for, the first that are pending; it
  stores none (the end of the stream, or an error) only when none is pending.\<close>

definition receives :: "'k view \<Rightarrow> 'k view \<Rightarrow> (fd \<Rightarrow> nat \<Rightarrow> 'k \<Rightarrow> (errno + u8 list) \<times> 'k) \<Rightarrow> bool" where
  "receives arrived pending rcv \<longleftrightarrow> (\<forall>f n k.
     taken arrived pending f (received (fst (rcv f n k))) k (snd (rcv f n k))
     \<and> length (received (fst (rcv f n k))) \<le> n
     \<and> (0 < n \<longrightarrow> received (fst (rcv f n k)) = [] \<longrightarrow> pending (snd (rcv f n k)) f = []))"

definition stream_sockets :: "'k os \<Rightarrow> 'k view \<Rightarrow> 'k view \<Rightarrow> bool" where
  "stream_sockets S arrived pending \<longleftrightarrow>
     receives arrived pending (sys_recv S) \<and> receives arrived pending (sys_read S)
   \<and> (\<forall>f k. ends arrived pending f k (snd (sys_close S f k)))
   \<and> (\<forall>f k. leaves arrived pending k (snd (sys_getfl S f k)))
   \<and> (\<forall>f v k. leaves arrived pending k (snd (sys_setfl S f v k)))
   \<and> (\<forall>ep c f ev k. leaves arrived pending k (snd (sys_epoll_ctl S ep c f ev k)))
   \<and> (\<forall>ep n t k. leaves arrived pending k (snd (sys_epoll_wait S ep n t k)))
   \<and> (\<forall>f k. leaves arrived pending k (snd (sys_accept S f k)))
   \<and> (\<forall>f bs n k. leaves arrived pending k (snd (sys_write S f bs n k)))"

section \<open>Accounts\<close>

text \<open>The bytes that arrived at \<open>f\<close> are those that are accounted for and those that are pending. A call
  keeps that, with the bytes it takes added to the account.\<close>

definition account :: "'k view \<Rightarrow> 'k view \<Rightarrow> fd \<Rightarrow> u8 list \<Rightarrow> 'k \<Rightarrow> bool" where
  "account arrived pending f bs k \<longleftrightarrow> arrived k f = bs @ pending k f"

lemma leaves_trans: "leaves A P k1 k2 \<Longrightarrow> leaves A P k2 k3 \<Longrightarrow> leaves A P k1 k3"
  unfolding leaves_def by (metis append.assoc)

lemma leaves_account:
  "leaves A P k k' \<Longrightarrow> account A P f bs k \<Longrightarrow> account A P f bs k'"
  unfolding leaves_def account_def by (metis append.assoc)

lemma taken_account:
  assumes "taken A P g cs k k'" and "account A P f bs k"
  shows "account A P f (bs @ (if f = g then cs else [])) k'"
proof -
  obtain new where "A k' f = A k f @ new" "P k f @ new = (if f = g then cs else []) @ P k' f"
    using assms(1) unfolding taken_def by blast
  then show ?thesis using assms(2) unfolding account_def by (metis append.assoc)
qed

lemma ends_account:
  "ends A P g k k' \<Longrightarrow> account A P f bs k \<Longrightarrow> f \<noteq> g \<or> P k g = [] \<Longrightarrow> account A P f bs k'"
  unfolding ends_def account_def by (cases "f = g") (simp, metis append.assoc)

text \<open>Nothing that arrived is taken back.\<close>

lemma leaves_arrived: "leaves A P k k' \<Longrightarrow> set (A k f) \<subseteq> set (A k' f)"
  unfolding leaves_def by (metis Un_upper1 set_append)

lemma taken_arrived: "taken A P g bs k k' \<Longrightarrow> set (A k f) \<subseteq> set (A k' f)"
  unfolding taken_def by (metis Un_upper1 set_append)

lemma ends_arrived: "ends A P g k k' \<Longrightarrow> set (A k f) \<subseteq> set (A k' f)"
  unfolding ends_def by (cases "f = g") (simp, metis Un_upper1 set_append)

lemma stream_socketsD:
  assumes "stream_sockets S A P"
  shows "leaves A P k (snd (sys_getfl S f k))" "leaves A P k (snd (sys_setfl S f v k))"
    "leaves A P k (snd (sys_epoll_ctl S ep c f ev k))" "leaves A P k (snd (sys_epoll_wait S ep n t k))"
    "leaves A P k (snd (sys_accept S f k))" "leaves A P k (snd (sys_write S f bs w k))"
    "ends A P f k (snd (sys_close S f k))"
    "receives A P (sys_recv S)" "receives A P (sys_read S)"
  using assms by (simp_all add: stream_sockets_def)

lemma receivesD:
  assumes "receives A P rcv"
  shows "taken A P f (received (fst (rcv f n k))) k (snd (rcv f n k))"
    "length (received (fst (rcv f n k))) \<le> n"
    "0 < n \<Longrightarrow> received (fst (rcv f n k)) = [] \<Longrightarrow> P (snd (rcv f n k)) f = []"
  using assms by (simp_all add: receives_def)

section \<open>A network\<close>

text \<open>
  A concrete system for the witnesses. At each wait a given number of bytes arrives at a descriptor, and
  given events are reported; a descriptor that is closed loses what is pending.
\<close>

record network =
  net_arrived :: "fd \<Rightarrow> u8 list"
  net_pending :: "fd \<Rightarrow> u8 list"
  net_waits :: "(fd \<times> u8 list \<times> epoll_event list) list"

definition arrive :: "fd \<Rightarrow> u8 list \<Rightarrow> network \<Rightarrow> network" where
  "arrive f bs k = k\<lparr>net_arrived := (net_arrived k)(f := net_arrived k f @ bs),
     net_pending := (net_pending k)(f := net_pending k f @ bs)\<rparr>"

definition net_recv :: "fd \<Rightarrow> nat \<Rightarrow> network \<Rightarrow> (errno + u8 list) \<times> network" where
  "net_recv f n k = (if net_pending k f = [] then (Inl EAGAIN, k)
     else (Inr (take n (net_pending k f)), k\<lparr>net_pending := (net_pending k)(f := drop n (net_pending k f))\<rparr>))"

definition net_os :: "network os" where
  "net_os = \<lparr>
     sys_getfl = (\<lambda>f k. (2, k)), sys_setfl = (\<lambda>f v k. (0, k)), sys_epoll_ctl = (\<lambda>ep c f ev k. (0, k)),
     sys_epoll_wait = (\<lambda>ep n t k. case net_waits k of [] \<Rightarrow> (Inl EINTR, k)
       | (f, bs, evs) # rest \<Rightarrow> (Inr (take n evs), arrive f bs (k\<lparr>net_waits := rest\<rparr>))),
     sys_accept = (\<lambda>f k. (-1, k)), sys_recv = net_recv, sys_read = net_recv,
     sys_write = (\<lambda>f bs n k. (int (length bs), k)),
     sys_close = (\<lambda>f k. (0, k\<lparr>net_pending := (net_pending k)(f := [])\<rparr>)) \<rparr>"

lemma net_recv_receives: "receives net_arrived net_pending net_recv"
  by (auto simp: receives_def taken_def net_recv_def)

lemma net_os_streams: "stream_sockets net_os net_arrived net_pending"
  unfolding stream_sockets_def
  by (intro conjI) (auto simp: net_os_def net_recv_receives leaves_def ends_def arrive_def split: list.splits prod.splits)

end
