(* ===== verification/Server_Streams.thy ===== *)
theory Server_Streams
  imports Epoll_Server Stream_Sockets
begin

text \<open>
  What the server of \<open>server.c\<close> prints is what its clients sent. The messages of the trace carry no
  descriptor; a message belongs to the descriptor of the last \<open>recv\<close> before it. What is taken
  from a connection are messages, whose texts are printed up to their first NUL; the messages and the bytes still
  pending there are all that arrived, in order, over any number of rounds of the main loop and for any
  number of connections.
\<close>

section \<open>The text printed for a descriptor\<close>

text \<open>The first argument is the descriptor asked for, the second that of the last \<open>recv\<close>.\<close>

fun printed_since :: "fd \<Rightarrow> fd option \<Rightarrow> action list \<Rightarrow> u8 list" where
  "printed_since f cur [] = []"
| "printed_since f cur (Recv g n # as) = printed_since f (Some g) as"
| "printed_since f cur (Print (Got n (Some s)) # as) = (if cur = Some f then s else []) @ printed_since f cur as"
| "printed_since f cur (a # as) = printed_since f cur as"

fun last_recv :: "fd option \<Rightarrow> action list \<Rightarrow> fd option" where
  "last_recv cur [] = cur"
| "last_recv cur (Recv g n # as) = last_recv (Some g) as"
| "last_recv cur (a # as) = last_recv cur as"

definition printed_for :: "fd \<Rightarrow> action list \<Rightarrow> u8 list" where
  "printed_for f as = printed_since f None as"

lemma printed_since_append:
  "printed_since f cur (as @ bs) = printed_since f cur as @ printed_since f (last_recv cur as) bs"
  by (induction f cur as rule: printed_since.induct) auto

lemma last_recv_append: "last_recv cur (as @ bs) = last_recv (last_recv cur as) bs"
  by (induction cur as rule: last_recv.induct) auto

lemma printed_for_append:
  "printed_for f (as @ bs) = printed_for f as @ printed_since f (last_recv None as) bs"
  by (simp add: printed_for_def printed_since_append)

text \<open>A message is printed up to its first NUL; one without NUL is printed in full.\<close>

definition c_text :: "u8 list \<Rightarrow> u8 list" where
  "c_text bs = takeWhile (\<lambda>b. b \<noteq> 0) bs"

lemma c_text_full: "0 \<notin> set bs \<Longrightarrow> c_text bs = bs"
  by (auto simp: c_text_def takeWhile_eq_all_conv)

lemma got_text: "length bs \<le> BUFFER_SIZE - 1 \<Longrightarrow> got bs = Got (length bs) (Some (c_text bs))"
  by (simp add: got_def c_string_filled c_text_def BUFFER_SIZE_def)

section \<open>The account of a connection\<close>

text \<open>What has been taken from \<open>f\<close> are messages of at most nine bytes, and what has been printed for \<open>f\<close> are
  their texts; the messages and what is still pending are all that arrived.\<close>

definition accounted :: "'k view \<Rightarrow> 'k view \<Rightarrow> fd \<Rightarrow> 'k proc \<Rightarrow> bool" where
  "accounted arrived pending f p \<longleftrightarrow>
     (\<exists>msgs. account arrived pending f (concat msgs) (kern p) \<and> printed_for f (trace p) = concat (map c_text msgs)
        \<and> (\<forall>m\<in>set msgs. length m \<le> BUFFER_SIZE - 1))"

lemma accountedI:
  "account A P f (concat msgs) (kern p) \<Longrightarrow> printed_for f (trace p) = concat (map c_text msgs) \<Longrightarrow>
    (\<And>m. m \<in> set msgs \<Longrightarrow> length m \<le> BUFFER_SIZE - 1) \<Longrightarrow> accounted A P f p"
  unfolding accounted_def by blast

lemma accounted_start: "trace p = [] \<Longrightarrow> A (kern p) f = P (kern p) f \<Longrightarrow> accounted A P f p"
  by (rule accountedI [of A P f "[]"]) (simp_all add: account_def printed_for_def)

text \<open>A connection where no NUL arrived has had printed all that was taken from it.\<close>

lemma texts_full: "0 \<notin> set (concat msgs) \<Longrightarrow> concat (map c_text msgs) = concat msgs"
  by (induction msgs) (simp_all add: c_text_full)

lemma accounted_full:
  assumes "accounted A P f p" and "0 \<notin> set (A (kern p) f)"
  shows "account A P f (printed_for f (trace p)) (kern p)"
proof -
  obtain msgs where m: "account A P f (concat msgs) (kern p)" "printed_for f (trace p) = concat (map c_text msgs)"
    using assms(1) unfolding accounted_def by blast
  then have "0 \<notin> set (concat msgs)" using assms(2) by (simp add: account_def)
  then show ?thesis using m texts_full by simp
qed

lemma accounted_leaves:
  assumes "leaves A P (kern p) (kern q)" and "accounted A P f p" and "printed_for f (trace q) = printed_for f (trace p)"
  shows "accounted A P f q"
  using assms(2,3) leaves_account [OF assms(1)] unfolding accounted_def by metis

text \<open>One \<open>recv\<close>, and its result printed or the descriptor closed.\<close>

lemma accounted_recv:
  assumes "stream_sockets S A P" and "accounted A P f p"
    and "kern q = snd (sys_recv S g (BUFFER_SIZE - 1) (kern p))"
    and "fst (sys_recv S g (BUFFER_SIZE - 1) (kern p)) = Inr bs"
    and "trace q = trace p @ [Recv g (BUFFER_SIZE - 1), Print (got bs)]"
  shows "accounted A P f q"
proof -
  note rcv = receivesD [OF stream_socketsD(8) [OF assms(1)], where f = g and n = "BUFFER_SIZE - 1" and k = "kern p", unfolded assms(4) received_simps]
  have t: "taken A P g bs (kern p) (kern q)" and len: "length bs \<le> BUFFER_SIZE - 1"
    using rcv(1,2) assms(3) by simp_all
  obtain msgs where m: "account A P f (concat msgs) (kern p)" "printed_for f (trace p) = concat (map c_text msgs)"
    and small: "\<And>m. m \<in> set msgs \<Longrightarrow> length m \<le> BUFFER_SIZE - 1"
    using assms(2) unfolding accounted_def by blast
  show ?thesis
  proof (rule accountedI)
    show "account A P f (concat (msgs @ (if f = g then [bs] else []))) (kern q)"
      using taken_account [OF t m(1)] by (cases "f = g") simp_all
    show "printed_for f (trace q) = concat (map c_text (msgs @ (if f = g then [bs] else [])))"
      using m(2) got_text [OF len] by (simp add: assms(5) printed_for_append)
    show "\<And>m. m \<in> set (msgs @ (if f = g then [bs] else [])) \<Longrightarrow> length m \<le> BUFFER_SIZE - 1"
      using small len by (auto split: if_splits)
  qed
qed

lemma printed_since_Recv_Close [simp]:
  "printed_since f cur [Recv g n, Close g] = []" "printed_since f cur [Recv g n] = []"
  by simp_all

lemma accounted_recv_nothing:
  assumes "stream_sockets S A P" and "accounted A P f p"
    and "kern q = snd (sys_recv S g (BUFFER_SIZE - 1) (kern p))"
    and "received (fst (sys_recv S g (BUFFER_SIZE - 1) (kern p))) = []"
    and "printed_for f (trace q) = printed_for f (trace p)"
  shows "accounted A P f q \<and> P (kern q) g = []"
proof -
  note rcv = receivesD [OF stream_socketsD(8) [OF assms(1)], where f = g and n = "BUFFER_SIZE - 1" and k = "kern p", unfolded assms(4)]
  have t: "taken A P g [] (kern p) (kern q)" and e: "P (kern q) g = []"
    using rcv(1,3) assms(3) by (simp_all add: BUFFER_SIZE_def)
  have "account A P f (concat msgs) (kern q)" if "account A P f (concat msgs) (kern p)" for msgs
    using taken_account [OF t that] by simp
  then show ?thesis using assms(2,5) e unfolding accounted_def by metis
qed

lemma accounted_close:
  assumes "stream_sockets S A P" and "accounted A P f p" and "f \<noteq> g \<or> P (kern p) g = []"
  shows "accounted A P f (do_close S g p)"
proof -
  note e = stream_socketsD(7) [OF assms(1), of g "kern p"]
  have "account A P f (concat msgs) (kern (do_close S g p))" if "account A P f (concat msgs) (kern p)" for msgs
    using ends_account [OF e that] assms(3) by simp
  moreover have "printed_for f (trace (do_close S g p)) = printed_for f (trace p)" by (simp add: printed_for_append)
  ultimately show ?thesis using assms(2) unfolding accounted_def by metis
qed

lemma accounted_say: "accounted A P f p \<Longrightarrow> accounted A P f (say (Line s) p)"
  by (simp add: accounted_def printed_for_append)

lemma addfd_leaves: "stream_sockets S A P \<Longrightarrow> leaves A P (kern p) (kern (addfd S ep g e p))"
  by (simp add: addfd_def setnonblocking_def Let_def case_prod_unfold)
    (blast intro: leaves_trans stream_socketsD(1-3))

lemma accounted_addfd:
  "stream_sockets S A P \<Longrightarrow> accounted A P f p \<Longrightarrow> accounted A P f (addfd S ep g e p)"
  by (erule (1) accounted_leaves [OF addfd_leaves]) (simp add: addfd_trace printed_for_append)

lemma accounted_accept:
  assumes "stream_sockets S A P" and "accounted A P f p"
  shows "accounted A P f (snd (do_accept S l p))"
  by (rule accounted_leaves [OF _ assms(2)]) (simp_all add: stream_socketsD(5) [OF assms(1)] printed_for_append)

section \<open>The handlers\<close>

text \<open>A \<open>recv\<close> with nothing to print, after which the handler may close the descriptor, and one with a message.\<close>

lemma accounted_no_message:
  assumes "stream_sockets S A P" and "accounted A P f p"
    and "received (fst (do_recv S g (BUFFER_SIZE - 1) p)) = []"
  shows "accounted A P f (snd (do_recv S g (BUFFER_SIZE - 1) p))"
    and "accounted A P f (do_close S g (snd (do_recv S g (BUFFER_SIZE - 1) p)))"
proof -
  have "accounted A P f (snd (do_recv S g (BUFFER_SIZE - 1) p))
      \<and> P (kern (snd (do_recv S g (BUFFER_SIZE - 1) p))) g = []"
    using assms(3) by (intro accounted_recv_nothing [OF assms(1,2)]) (simp_all add: printed_for_append)
  then show "accounted A P f (snd (do_recv S g (BUFFER_SIZE - 1) p))"
    and "accounted A P f (do_close S g (snd (do_recv S g (BUFFER_SIZE - 1) p)))"
    using accounted_close [OF assms(1)] by blast+
qed

lemma accounted_message:
  assumes "stream_sockets S A P" and "accounted A P f p" and "fst (do_recv S g (BUFFER_SIZE - 1) p) = Inr bs"
  shows "accounted A P f (say (got bs) (snd (do_recv S g (BUFFER_SIZE - 1) p)))"
  using assms(3) by (intro accounted_recv [OF assms(1,2)]) simp_all

lemma lt_event_accounted:
  assumes S: "stream_sockets S A P" and p: "accounted A P f p"
  shows "accounted A P f (lt_event S ep lfd ev p)"
proof -
  let ?p = "say (Line ''event trigger once'') p"
  have p': "accounted A P f ?p" by (rule accounted_say [OF p])
  show ?thesis
    using accounted_no_message [OF S p', of "ev_fd ev"] accounted_message [OF S p', of "ev_fd ev"] p
    by (simp add: lt_event_def Let_def case_prod_unfold accounted_addfd [OF S] accounted_accept [OF S] accounted_say
        del: wrapper_simps One_nat_def split: sum.split)
qed

interpretation lt_streams: event_handler
  "\<lambda>ev p. Some (lt_event S ep lfd ev p)" trace "\<lambda>_. True" "\<lambda>p. stream_sockets S A P \<and> accounted A P f p"
proof unfold_locales
  fix ev p p' assume "Some (lt_event S ep lfd ev p) = Some p'"
  then show "\<exists>ts. trace p' = trace p @ ts \<and> (\<forall>a\<in>set ts. True)" using lt_event_ok [of S ep lfd ev p] by auto
qed (auto intro: lt_event_accounted)

lemma lt_accounted:
  assumes "stream_sockets S A P" and "accounted A P f p"
  shows "accounted A P f (lt S evs n ep lfd p)"
  using lt_streams.batch_inv [OF run_all_total conjI [OF assms]] by (simp add: lt_def)

text \<open>The same for the edge-triggered handler, which reads until a \<open>recv\<close> fails.\<close>

lemma et_read_accounted:
  assumes "et_read S g p = Some q" and "stream_sockets S A P" and "accounted A P f p"
  shows "accounted A P f q"
proof -
  have "stream_sockets S A P \<longrightarrow> accounted A P f p \<longrightarrow> accounted A P f q"
  proof (rule et_read.raw_induct [where P = "\<lambda>S g p q. stream_sockets S A P \<longrightarrow> accounted A P f p \<longrightarrow> accounted A P f q",
        OF _ assms(1)], intro impI)
    fix rec S g p q
    assume IH: "\<And>S g p q. rec S g p = Some q \<Longrightarrow> stream_sockets S A P \<longrightarrow> accounted A P f p \<longrightarrow> accounted A P f q"
      and eq: "(let rp = do_recv S g (BUFFER_SIZE - 1) p in
        case fst rp of
          Inl e \<Rightarrow> if e = EAGAIN \<or> e = EWOULDBLOCK then Some (say (Line ''read later'') (snd rp))
                   else Some (do_close S g (snd rp))
        | Inr bs \<Rightarrow> if bs = [] then rec S g (do_close S g (snd rp))
                    else rec S g (say (got bs) (snd rp))) = Some q"
      and S: "stream_sockets S A P" and p: "accounted A P f p"
    show "accounted A P f q"
    proof (cases "fst (do_recv S g (BUFFER_SIZE - 1) p)")
      case (Inl e)
      then have r: "received (fst (do_recv S g (BUFFER_SIZE - 1) p)) = []" by (simp del: wrapper_simps)
      show ?thesis using eq Inl accounted_no_message [OF S p r]
        by (auto simp: Let_def accounted_say simp del: wrapper_simps One_nat_def split: if_splits)
    next
      case (Inr bs)
      show ?thesis
      proof (cases "bs = []")
        case True
        then have r: "received (fst (do_recv S g (BUFFER_SIZE - 1) p)) = []" using Inr by (simp del: wrapper_simps)
        have "rec S g (do_close S g (snd (do_recv S g (BUFFER_SIZE - 1) p))) = Some q"
          using eq Inr True by (simp add: Let_def del: wrapper_simps)
        then show ?thesis using IH S accounted_no_message(2) [OF S p r] by blast
      next
        case False
        then have "rec S g (say (got bs) (snd (do_recv S g (BUFFER_SIZE - 1) p))) = Some q"
          using eq Inr by (simp add: Let_def del: wrapper_simps)
        then show ?thesis using IH S accounted_message [OF S p Inr] by blast
      qed
    qed
  qed
  then show ?thesis using assms(2,3) by blast
qed

lemma et_event_accounted:
  "et_event S ep lfd ev p = Some q \<Longrightarrow> stream_sockets S A P \<Longrightarrow> accounted A P f p \<Longrightarrow> accounted A P f q"
  by (auto simp: et_event_def Let_def case_prod_unfold accounted_addfd accounted_accept accounted_say
      split: if_splits intro: et_read_accounted [OF _ _ accounted_say])

interpretation et_streams: event_handler
  "et_event S ep lfd" trace "\<lambda>_. True" "\<lambda>p. stream_sockets S A P \<and> accounted A P f p"
  by unfold_locales (use et_event_ok et_event_accounted in blast)+

lemma round_accounted:
  assumes "stream_sockets S A P" and "accounted A P f p" and "server_round S lfd ep p = Some q"
  shows "accounted A P f q"
proof -
  have "accounted A P f (snd (do_wait S ep MAX_EVENT_NUMBER (-1) p))"
    by (rule accounted_leaves [OF _ assms(2)]) (simp_all add: stream_socketsD(4) [OF assms(1)] printed_for_append)
  then show ?thesis
    using assms(3) lt_accounted [OF assms(1)] by (auto simp: server_round_def Let_def split: sum.splits)
qed

lemma rounds_accounted:
  "stream_sockets S A P \<Longrightarrow> accounted A P f p \<Longrightarrow> server_rounds n S lfd ep p = Some q \<Longrightarrow> accounted A P f q"
  by (induction n arbitrary: p) (auto simp: bind_Some_iff intro: round_accounted)

section \<open>Properties\<close>

text \<open>C6: the server prints its clients' streams: over any number of rounds and for any connection, the bytes that
  arrived at it are a sequence of messages of at most nine bytes followed by the bytes still pending there, and
  what was printed for it are the texts of these messages in order, each up to its first NUL. No message is
  lost, printed twice, reordered or taken from another connection; where no NUL arrived, the printed bytes and
  the pending ones are exactly those that arrived. The same holds after a further batch that is handled by \<open>et\<close>.\<close>

theorem server_prints_every_stream:
  assumes "stream_sockets S arrived pending" and "trace p = []" and "arrived (kern p) f = pending (kern p) f"
    and "server_rounds n S listenfd epollfd (addfd S epollfd listenfd True p) = Some q"
    and "r = q \<or> et S events nfds epollfd listenfd q = Some r"
  shows "(\<exists>msgs. arrived (kern r) f = concat msgs @ pending (kern r) f
      \<and> printed_for f (trace r) = concat (map c_text msgs) \<and> (\<forall>m\<in>set msgs. length m \<le> BUFFER_SIZE - 1))
    \<and> (0 \<notin> set (arrived (kern r) f) \<longrightarrow> printed_for f (trace r) @ pending (kern r) f = arrived (kern r) f)"
proof -
  have "accounted arrived pending f (addfd S epollfd listenfd True p)"
    by (rule accounted_addfd [OF assms(1) accounted_start [where A = arrived and P = pending, OF assms(2,3)]])
  from rounds_accounted [OF assms(1) this assms(4)] have q: "accounted arrived pending f q" .
  have "accounted arrived pending f r"
  proof (cases "r = q")
    case False
    then have "run_all (et_event S epollfd listenfd) (take nfds events) q = Some r" using assms(5) by (simp add: et_def)
    from et_streams.batch_inv [OF this conjI [OF assms(1) q]] show ?thesis by simp
  qed (simp add: q)
  from this accounted_full [OF this] show ?thesis by (auto simp: accounted_def account_def)
qed

text \<open>Two clients: eleven bytes arrive at descriptor 7 and two at descriptor 8; the second round reports both.\<close>

definition sample_network :: network where
  "sample_network = \<lparr>net_arrived = (\<lambda>_. []), net_pending = (\<lambda>_. []),
     net_waits = [(7, [1, 2, 3, 4, 5, 6, 7, 8, 9, 10, 11], [\<lparr>ev_events = EPOLLIN, ev_fd = 7\<rparr>]),
       (8, [20, 21], [\<lparr>ev_events = EPOLLIN, ev_fd = 8\<rparr>, \<lparr>ev_events = EPOLLIN, ev_fd = 7\<rparr>])]\<rparr>"

lemmas network_simps = server_round_def lt_def lt_event_def addfd_def setnonblocking_def do_getfl_def do_setfl_def
  do_ctl_def do_wait_def do_recv_def log_call_def say_def net_os_def net_recv_def arrive_def sample_network_def
  MAX_EVENT_NUMBER_def EPOLLIN_def EPOLLET_def BUFFER_SIZE_def

theorem server_prints_every_stream_witness:
  "\<exists>q. server_rounds 2 net_os 3 4 (addfd net_os 4 3 True \<lparr>kern = sample_network, trace = []\<rparr>) = Some q
    \<and> net_pending (kern q) 7 = [] \<and> printed_for 7 (trace q) = [1, 2, 3, 4, 5, 6, 7, 8, 9, 10, 11]"
proof -
  obtain q where q: "server_rounds 2 net_os 3 4 (addfd net_os 4 3 True \<lparr>kern = sample_network, trace = []\<rparr>) = Some q"
    and "net_arrived (kern q) 7 = [1, 2, 3, 4, 5, 6, 7, 8, 9, 10, 11]" "net_pending (kern q) 7 = []"
    by (simp add: numeral_2_eq_2 network_simps)
  then show ?thesis
    using server_prints_every_stream [OF net_os_streams _ _ q, of 7 q] by (simp add: sample_network_def)
qed

end
