(* ===== verification/Epoll_Set.thy ===== *)
theory Epoll_Set
  imports Sockets
begin

text \<open>
  What the system documents of an epoll set, for both servers: which descriptors are registered in it, for which
  events, and how the calls of a program change that. What is reported, and how often, depends on what the
  program has registered.
\<close>

text \<open>
  What the system documents of the epoll set \<open>ep\<close>: \<open>interest k f\<close> are the events that \<open>f\<close> is registered for,
  if it is registered. A registration may fail and then changes nothing; a modification fails exactly on a
  descriptor that is not registered; a descriptor that is closed leaves the set, so that a new one is never in
  it. Of input and output only what a descriptor is registered for is reported, each descriptor once.
\<close>

definition reportable :: "epoll_event \<Rightarrow> u32 option \<Rightarrow> bool" where
  "reportable ev w \<longleftrightarrow> (case w of None \<Rightarrow> False | Some w \<Rightarrow>
     (ev_events ev AND EPOLLIN \<noteq> 0 \<longrightarrow> w AND EPOLLIN \<noteq> 0) \<and> (ev_events ev AND EPOLLOUT \<noteq> 0 \<longrightarrow> w AND EPOLLOUT \<noteq> 0))"

definition epoll_set :: "'k os \<Rightarrow> fd \<Rightarrow> ('k \<Rightarrow> fd \<Rightarrow> u32 option) \<Rightarrow> bool" where
  "epoll_set S ep interest \<longleftrightarrow>
     (\<forall>f ev k. interest (snd (sys_epoll_ctl S ep CTL_ADD f ev k)) = interest k
        \<or> interest k f = None \<and> interest (snd (sys_epoll_ctl S ep CTL_ADD f ev k)) = (interest k)(f \<mapsto> ev_events ev))
   \<and> (\<forall>f ev k. interest (snd (sys_epoll_ctl S ep CTL_MOD f ev k)) =
        (if interest k f = None then interest k else (interest k)(f \<mapsto> ev_events ev)))
   \<and> (\<forall>n t k. interest (snd (sys_epoll_wait S ep n t k)) = interest k)
   \<and> (\<forall>n t k evs. fst (sys_epoll_wait S ep n t k) = Inr evs \<longrightarrow>
        distinct (map ev_fd evs) \<and> (\<forall>ev\<in>set evs. reportable ev (interest k (ev_fd ev))))
   \<and> (\<forall>f k. interest (snd (sys_accept S f k)) = interest k
        \<and> (0 \<le> fst (sys_accept S f k) \<longrightarrow> interest k (fst (sys_accept S f k)) = None))
   \<and> (\<forall>f k. interest (snd (sys_close S f k)) = (interest k)(f := None))
   \<and> (\<forall>f k. interest (snd (sys_getfl S f k)) = interest k)
   \<and> (\<forall>f v k. interest (snd (sys_setfl S f v k)) = interest k)
   \<and> (\<forall>f n k. interest (snd (sys_read S f n k)) = interest k)
   \<and> (\<forall>f bs n k. interest (snd (sys_write S f bs n k)) = interest k)"

lemma epoll_setD:
  assumes "epoll_set S ep interest"
  shows "interest (snd (sys_epoll_ctl S ep CTL_ADD f ev k)) = interest k
      \<or> interest k f = None \<and> interest (snd (sys_epoll_ctl S ep CTL_ADD f ev k)) = (interest k)(f \<mapsto> ev_events ev)"
    "interest (snd (sys_epoll_ctl S ep CTL_MOD f ev k)) =
      (if interest k f = None then interest k else (interest k)(f \<mapsto> ev_events ev))"
    "interest (snd (sys_epoll_wait S ep n t k)) = interest k"
    "fst (sys_epoll_wait S ep n t k) = Inr evs \<Longrightarrow> distinct (map ev_fd evs)"
    "fst (sys_epoll_wait S ep n t k) = Inr evs \<Longrightarrow> e \<in> set evs \<Longrightarrow> reportable e (interest k (ev_fd e))"
    "interest (snd (sys_accept S f k)) = interest k" "0 \<le> fst (sys_accept S f k) \<Longrightarrow> interest k (fst (sys_accept S f k)) = None"
    "interest (snd (sys_close S f k)) = (interest k)(f := None)"
    "interest (snd (sys_getfl S f k)) = interest k" "interest (snd (sys_setfl S f v k)) = interest k"
    "interest (snd (sys_read S f n k)) = interest k" "interest (snd (sys_write S f bs c k)) = interest k"
  using assms unfolding epoll_set_def by simp_all

text \<open>The receiving call of \<open>server.c\<close> registers nothing either.\<close>

definition recv_registers_nothing :: "'k os \<Rightarrow> ('k \<Rightarrow> fd \<Rightarrow> u32 option) \<Rightarrow> bool" where
  "recv_registers_nothing S interest \<longleftrightarrow> (\<forall>f n k. interest (snd (sys_recv S f n k)) = interest k)"

end
