(* ===== verification/Server_Drains.thy ===== *)
theory Server_Drains
  imports Server_Streams Epoll_Set
begin

text \<open>
  The server of \<open>server.c\<close> prints everything that arrives. Its connections are level-triggered: a wait reports
  a connection as long as bytes are pending there, and each report takes at least one of them, so that a
  connection is drained within as many rounds as it has bytes pending, whatever the other connections do.
\<close>

section \<open>How many bytes are pending\<close>

text \<open>What is pending at \<open>f\<close> shrinks by at least \<open>n\<close> bytes, not counting what arrives meanwhile.\<close>

definition shrinks :: "'k view \<Rightarrow> 'k view \<Rightarrow> fd \<Rightarrow> nat \<Rightarrow> 'k \<Rightarrow> 'k \<Rightarrow> bool" where
  "shrinks arrived pending f n k k' \<longleftrightarrow> length (arrived k f) \<le> length (arrived k' f)
     \<and> length (pending k' f) + length (arrived k f) + n \<le> length (pending k f) + length (arrived k' f)"

lemma shrinks_trans: "shrinks A P f m k1 k2 \<Longrightarrow> shrinks A P f n k2 k3 \<Longrightarrow> shrinks A P f (m + n) k1 k3"
  unfolding shrinks_def by linarith

lemma shrinks_weaken: "shrinks A P f n k k' \<Longrightarrow> shrinks A P f 0 k k'"
  unfolding shrinks_def by linarith

lemma leaves_shrinks:
  assumes "leaves A P k k'"
  shows "shrinks A P f 0 k k'" and "P k f \<noteq> [] \<Longrightarrow> P k' f \<noteq> []"
proof -
  obtain new where "A k' f = A k f @ new" "P k' f = P k f @ new" using assms unfolding leaves_def by blast
  then show "shrinks A P f 0 k k'" "P k f \<noteq> [] \<Longrightarrow> P k' f \<noteq> []" by (simp_all add: shrinks_def)
qed

lemma taken_shrinks:
  assumes "taken A P g bs k k'"
  shows "shrinks A P f (if f = g then length bs else 0) k k'" and "f \<noteq> g \<Longrightarrow> P k f \<noteq> [] \<Longrightarrow> P k' f \<noteq> []"
proof -
  obtain new where new: "A k' f = A k f @ new" "P k f @ new = (if f = g then bs else []) @ P k' f"
    using assms unfolding taken_def by blast
  then have "length (P k f) + length new = length (if f = g then bs else []) + length (P k' f)"
    by (metis length_append)
  then show "shrinks A P f (if f = g then length bs else 0) k k'" using new(1) by (simp add: shrinks_def split: if_splits)
  show "f \<noteq> g \<Longrightarrow> P k f \<noteq> [] \<Longrightarrow> P k' f \<noteq> []" using new(2) by auto
qed

lemma ends_shrinks:
  assumes "ends A P g k k'"
  shows "shrinks A P f 0 k k'" and "f \<noteq> g \<Longrightarrow> P k f \<noteq> [] \<Longrightarrow> P k' f \<noteq> []"
proof -
  show 1: "f \<noteq> g \<Longrightarrow> P k f \<noteq> [] \<Longrightarrow> P k' f \<noteq> []" using assms unfolding ends_def by fastforce
  show "shrinks A P f 0 k k'"
  proof (cases "f = g")
    case False
    then obtain new where "A k' f = A k f @ new" "P k' f = P k f @ new" using assms unfolding ends_def by blast
    then show ?thesis by (simp add: shrinks_def)
  qed (use assms in \<open>simp add: ends_def shrinks_def\<close>)
qed

section \<open>One event\<close>

lemma recv_shrinks:
  assumes "stream_sockets S A P"
  shows "shrinks A P f 0 (kern p) (kern (snd (do_recv S g (BUFFER_SIZE - 1) p)))"
    and "P (kern p) g \<noteq> [] \<Longrightarrow> shrinks A P g 1 (kern p) (kern (snd (do_recv S g (BUFFER_SIZE - 1) p)))"
    and "f \<noteq> g \<Longrightarrow> P (kern p) f \<noteq> [] \<Longrightarrow> P (kern (snd (do_recv S g (BUFFER_SIZE - 1) p))) f \<noteq> []"
proof -
  let ?k = "kern (snd (do_recv S g (BUFFER_SIZE - 1) p))" and ?r = "received (fst (sys_recv S g (BUFFER_SIZE - 1) (kern p)))"
  note rcv = receivesD [OF stream_socketsD(8) [OF assms], where f = g and n = "BUFFER_SIZE - 1" and k = "kern p"]
  have t: "taken A P g ?r (kern p) ?k" using rcv(1) by simp
  show "shrinks A P f 0 (kern p) ?k" by (rule shrinks_weaken [OF taken_shrinks(1) [OF t]])
  show "f \<noteq> g \<Longrightarrow> P (kern p) f \<noteq> [] \<Longrightarrow> P ?k f \<noteq> []" by (rule taken_shrinks(2) [OF t])
  assume pend: "P (kern p) g \<noteq> []"
  have "?r \<noteq> []"
  proof
    assume r: "?r = []"
    then have "P ?k g = []" using rcv(3) by (simp add: BUFFER_SIZE_def)
    moreover obtain new where "P (kern p) g @ new = ?r @ P ?k g" using t [unfolded taken_def, rule_format, of g] by auto
    ultimately show False using r pend by simp
  qed
  then have "1 \<le> length ?r" by (cases ?r) simp_all
  then show "shrinks A P g 1 (kern p) ?k" using taken_shrinks(1) [OF t, of g] by (auto simp: shrinks_def)
qed

lemma close_shrinks:
  assumes "stream_sockets S A P"
  shows "shrinks A P f 0 (kern p) (kern (do_close S g p))"
    and "f \<noteq> g \<Longrightarrow> P (kern p) f \<noteq> [] \<Longrightarrow> P (kern (do_close S g p)) f \<noteq> []"
  using ends_shrinks [OF stream_socketsD(7) [OF assms]] by simp_all

text \<open>An event of a connection: one \<open>recv\<close>, and then perhaps a \<open>close\<close>.\<close>

lemma lt_event_kern:
  "kern (lt_event S ep lfd ev p) = kern (addfd S ep (fst (do_accept S lfd p)) False (snd (do_accept S lfd p)))
   \<or> kern (lt_event S ep lfd ev p) = kern p
   \<or> kern (lt_event S ep lfd ev p) = kern (snd (do_recv S (ev_fd ev) (BUFFER_SIZE - 1) (say (Line ''event trigger once'') p)))
   \<or> kern (lt_event S ep lfd ev p) =
       kern (do_close S (ev_fd ev) (snd (do_recv S (ev_fd ev) (BUFFER_SIZE - 1) (say (Line ''event trigger once'') p))))"
  by (auto simp: lt_event_def Let_def case_prod_unfold split: sum.split)

lemma accept_leaves:
  assumes "stream_sockets S A P"
  shows "leaves A P (kern p) (kern (addfd S ep c e (snd (do_accept S l p))))"
proof -
  have "leaves A P (kern p) (kern (snd (do_accept S l p)))" by (simp add: stream_socketsD(5) [OF assms])
  from leaves_trans [OF this addfd_leaves [OF assms]] show ?thesis .
qed

lemma lt_event_shrinks:
  assumes S: "stream_sockets S A P"
  shows "shrinks A P f 0 (kern p) (kern (lt_event S ep lfd ev p))"
    and "f \<noteq> ev_fd ev \<Longrightarrow> P (kern p) f \<noteq> [] \<Longrightarrow> P (kern (lt_event S ep lfd ev p)) f \<noteq> []"
proof -
  let ?p = "say (Line ''event trigger once'') p"
  let ?r = "snd (do_recv S (ev_fd ev) (BUFFER_SIZE - 1) ?p)"
  have r: "shrinks A P f 0 (kern p) (kern ?r)" "f \<noteq> ev_fd ev \<Longrightarrow> P (kern p) f \<noteq> [] \<Longrightarrow> P (kern ?r) f \<noteq> []"
    using recv_shrinks(1,3) [OF S, where f = f and g = "ev_fd ev" and p = ?p] by simp_all
  have c: "shrinks A P f 0 (kern p) (kern (do_close S (ev_fd ev) ?r))"
    using shrinks_trans [OF r(1) close_shrinks(1) [OF S]] by simp
  note a = leaves_shrinks [OF accept_leaves [OF S, of p ep "fst (do_accept S lfd p)" False lfd], of f]
  have id: "shrinks A P f 0 (kern p) (kern p)" by (simp add: shrinks_def)
  show "shrinks A P f 0 (kern p) (kern (lt_event S ep lfd ev p))"
    using lt_event_kern [of S ep lfd ev p] a(1) c r(1) id by metis
  show "f \<noteq> ev_fd ev \<Longrightarrow> P (kern p) f \<noteq> [] \<Longrightarrow> P (kern (lt_event S ep lfd ev p)) f \<noteq> []"
    using lt_event_kern [of S ep lfd ev p] a(2) r(2) close_shrinks(2) [OF S, of f "ev_fd ev" ?r] by metis
qed

lemma lt_event_takes:
  assumes S: "stream_sockets S A P" and ev: "ev_fd ev \<noteq> lfd" "ev_events ev AND EPOLLIN \<noteq> 0"
    and pend: "P (kern p) (ev_fd ev) \<noteq> []"
  shows "shrinks A P (ev_fd ev) 1 (kern p) (kern (lt_event S ep lfd ev p))"
proof -
  let ?p = "say (Line ''event trigger once'') p"
  let ?r = "snd (do_recv S (ev_fd ev) (BUFFER_SIZE - 1) ?p)"
  have r: "shrinks A P (ev_fd ev) 1 (kern p) (kern ?r)"
    using recv_shrinks(2) [OF S, where g = "ev_fd ev" and p = ?p] pend by simp
  have c: "shrinks A P (ev_fd ev) 1 (kern p) (kern (do_close S (ev_fd ev) ?r))"
    using shrinks_trans [OF r close_shrinks(1) [OF S]] by simp
  have "kern (lt_event S ep lfd ev p) = kern ?r \<or> kern (lt_event S ep lfd ev p) = kern (do_close S (ev_fd ev) ?r)"
    using ev by (auto simp: lt_event_def Let_def case_prod_unfold split: sum.split)
  then show ?thesis using r c by metis
qed

section \<open>Batches and rounds\<close>

lemma fold_shrinks:
  "stream_sockets S A P \<Longrightarrow> shrinks A P f 0 (kern p) (kern (fold (lt_event S ep lfd) evs p))"
proof (induction evs arbitrary: p)
  case (Cons ev evs)
  show ?case using shrinks_trans [OF lt_event_shrinks(1) [OF Cons.prems] Cons.IH [OF Cons.prems]] by simp
qed (simp add: shrinks_def)

lemma fold_takes:
  assumes "stream_sockets S A P" and "ev \<in> set evs" and "ev_fd ev = f" and "ev_events ev AND EPOLLIN \<noteq> 0"
    and "f \<noteq> lfd" and "P (kern p) f \<noteq> []"
    and once: "\<forall>e\<in>set evs. ev_fd e = f \<longrightarrow> e = ev"
  shows "shrinks A P f 1 (kern p) (kern (fold (lt_event S ep lfd) evs p))"
  using assms(2,6) once
proof (induction evs arbitrary: p)
  case (Cons e evs)
  show ?case
  proof (cases "e = ev")
    case True
    have "shrinks A P f 1 (kern p) (kern (lt_event S ep lfd ev p))"
      using lt_event_takes [OF assms(1) _ assms(4), of lfd p ep] assms(3,5) Cons.prems(2) by simp
    from shrinks_trans [OF this fold_shrinks [OF assms(1)]] show ?thesis using True by simp
  next
    case False
    then have "f \<noteq> ev_fd e" using Cons.prems(3) by auto
    from lt_event_shrinks(2) [OF assms(1) this Cons.prems(2)]
    have "shrinks A P f 1 (kern (lt_event S ep lfd e p)) (kern (fold (lt_event S ep lfd) evs (lt_event S ep lfd e p)))"
      using Cons.IH [of "lt_event S ep lfd e p"] Cons.prems(1,3) False by simp
    from shrinks_trans [OF lt_event_shrinks(1) [OF assms(1)] this] show ?thesis by simp
  qed
qed simp

lemma rounds_grow:
  assumes S: "stream_sockets S A P"
  shows "server_rounds n S lfd ep p = Some q \<Longrightarrow> length (A (kern p) f) \<le> length (A (kern q) f)"
proof (induction n arbitrary: p)
  case (Suc n)
  then obtain r where r: "server_round S lfd ep p = Some r" "server_rounds n S lfd ep r = Some q"
    by (auto simp: bind_Some_iff)
  let ?w = "snd (do_wait S ep MAX_EVENT_NUMBER (-1) p)"
  obtain evs where r': "r = fold (lt_event S ep lfd) evs ?w"
    using r(1) by (auto simp: server_round_def lt_def Let_def split: sum.splits)
  have "leaves A P (kern p) (kern ?w)" by (simp add: stream_socketsD(4) [OF S])
  from shrinks_trans [OF leaves_shrinks(1) [OF this] fold_shrinks [OF S]]
  have "length (A (kern p) f) \<le> length (A (kern r) f)" unfolding r' shrinks_def by blast
  then show ?case using Suc.IH [OF r(2)] by simp
qed simp

section \<open>What is registered\<close>

text \<open>What the system documents of a descriptor \<open>f\<close> that is registered for input and not edge-triggered: a wait reports
  it, once, whenever bytes are pending there (unless more descriptors are ready than the 1024 it has room for).\<close>

definition level_triggered :: "'k os \<Rightarrow> fd \<Rightarrow> ('k \<Rightarrow> fd \<Rightarrow> u32 option) \<Rightarrow> 'k view \<Rightarrow> fd \<Rightarrow> bool" where
  "level_triggered S ep interest pending f \<longleftrightarrow> (\<forall>n t k evs w. fst (sys_epoll_wait S ep n t k) = Inr evs \<longrightarrow>
     interest k f = Some w \<longrightarrow> w AND EPOLLIN \<noteq> 0 \<longrightarrow> w AND EPOLLET = 0 \<longrightarrow>
     pending (snd (sys_epoll_wait S ep n t k)) f \<noteq> [] \<longrightarrow>
     (\<exists>ev\<in>set evs. ev_fd ev = f \<and> ev_events ev AND EPOLLIN \<noteq> 0 \<and> (\<forall>e\<in>set evs. ev_fd e = f \<longrightarrow> e = ev)))"

text \<open>The system: its epoll set, its streams, and its reports of \<open>f\<close>.\<close>

definition draining_system :: "'k os \<Rightarrow> fd \<Rightarrow> ('k \<Rightarrow> fd \<Rightarrow> u32 option) \<Rightarrow> 'k view \<Rightarrow> 'k view \<Rightarrow> fd \<Rightarrow> bool" where
  "draining_system S ep interest arrived pending f \<longleftrightarrow> epoll_set S ep interest \<and> recv_registers_nothing S interest
     \<and> stream_sockets S arrived pending \<and> level_triggered S ep interest pending f"

lemma draining_systemD:
  assumes "draining_system S ep I A P f"
  shows "epoll_set S ep I" "I (snd (sys_recv S g n k)) = I k" "stream_sockets S A P" "level_triggered S ep I P f"
  using assms by (simp_all add: draining_system_def recv_registers_nothing_def)

text \<open>Every descriptor but the listening socket is registered for input, level-triggered, or not at all.\<close>

definition level_only :: "fd \<Rightarrow> (fd \<Rightarrow> u32 option) \<Rightarrow> bool" where
  "level_only l i \<longleftrightarrow> (\<forall>g w. g \<noteq> l \<longrightarrow> i g = Some w \<longrightarrow> w = EPOLLIN)"

lemma addfd_interest:
  assumes "epoll_set S ep I"
  shows "I (kern (addfd S ep g e p)) = I (kern p)
    \<or> I (kern p) g = None \<and> I (kern (addfd S ep g e p)) = (I (kern p))(g \<mapsto> et_flags e)"
  using epoll_setD(1) [OF assms, of g "\<lparr>ev_events = et_flags e, ev_fd = g\<rparr>" "kern p"]
  by (auto simp: addfd_def setnonblocking_def Let_def case_prod_unfold epoll_setD(9,10) [OF assms] et_flags_def)

text \<open>What an event does to the registrations: a new one for input, or the end of the descriptor of the event, at
  which nothing is pending then.\<close>

lemma lt_event_interest:
  assumes D: "draining_system S ep I A P f"
  shows "I (kern (lt_event S ep lfd ev p)) = I (kern p)
    \<or> (\<exists>c. I (kern p) c = None \<and> I (kern (lt_event S ep lfd ev p)) = (I (kern p))(c \<mapsto> EPOLLIN))
    \<or> I (kern (lt_event S ep lfd ev p)) = (I (kern p))(ev_fd ev := None) \<and> P (kern (lt_event S ep lfd ev p)) (ev_fd ev) = []"
proof -
  note E = draining_systemD(1) [OF D] and R = draining_systemD(2) [OF D] and S = draining_systemD(3) [OF D]
  let ?a = "snd (do_accept S lfd p)" and ?r = "snd (do_recv S (ev_fd ev) (BUFFER_SIZE - 1) (say (Line ''event trigger once'') p))"
  have a: "I (kern ?a) = I (kern p)" by (simp add: epoll_setD(6) [OF E])
  have r: "I (kern ?r) = I (kern p)" by (simp add: R)
  have c: "I (kern (do_close S (ev_fd ev) ?r)) = (I (kern p))(ev_fd ev := None)"
    "P (kern (do_close S (ev_fd ev) ?r)) (ev_fd ev) = []"
    using stream_socketsD(7) [OF S] by (simp_all add: epoll_setD(8) [OF E] R ends_def)
  show ?thesis
    using lt_event_kern [of S ep lfd ev p] addfd_interest [OF E, of "fst (do_accept S lfd p)" False ?a] a r c
    by (auto simp: et_flags_def)
qed

lemma level_only_event:
  assumes "draining_system S ep I A P f" and "level_only l (I (kern p))"
  shows "level_only l (I (kern (lt_event S ep l ev p)))"
  using lt_event_interest [OF assms(1), of l ev p] assms(2) by (auto simp: level_only_def split: if_splits)

lemma level_only_fold:
  "draining_system S ep I A P f \<Longrightarrow> level_only l (I (kern p)) \<Longrightarrow> level_only l (I (kern (fold (lt_event S ep l) evs p)))"
  by (induction evs arbitrary: p) (auto intro: level_only_event)

text \<open>From the moment when \<open>a\<close> bytes have arrived at \<open>f\<close>: if \<open>f\<close> is no longer registered, only bytes that have arrived
  since are pending.\<close>

definition drained_if_gone :: "nat \<Rightarrow> ('k \<Rightarrow> fd \<Rightarrow> u32 option) \<Rightarrow> 'k view \<Rightarrow> 'k view \<Rightarrow> fd \<Rightarrow> 'k \<Rightarrow> bool" where
  "drained_if_gone a interest arrived pending f k \<longleftrightarrow> a \<le> length (arrived k f)
     \<and> (interest k f = None \<longrightarrow> length (pending k f) + a \<le> length (arrived k f))"

lemma drained_if_gone_shrinks:
  assumes "shrinks A P f 0 k k'" and "I k' f = None \<longrightarrow> I k f = None \<or> P k' f = []" and "drained_if_gone a I A P f k"
  shows "drained_if_gone a I A P f k'"
  using assms unfolding shrinks_def drained_if_gone_def by auto

lemma drained_if_gone_event:
  assumes "draining_system S ep I A P f" and "drained_if_gone a I A P f (kern p)"
  shows "drained_if_gone a I A P f (kern (lt_event S ep l ev p))"
proof (rule drained_if_gone_shrinks [OF lt_event_shrinks(1) [OF draining_systemD(3) [OF assms(1)]] _ assms(2)])
  show "I (kern (lt_event S ep l ev p)) f = None \<longrightarrow> I (kern p) f = None \<or> P (kern (lt_event S ep l ev p)) f = []"
    using lt_event_interest [OF assms(1), of l ev p] by (auto split: if_splits)
qed

lemma drained_if_gone_fold:
  "draining_system S ep I A P f \<Longrightarrow> drained_if_gone a I A P f (kern p) \<Longrightarrow>
    drained_if_gone a I A P f (kern (fold (lt_event S ep l) evs p))"
  by (induction evs arbitrary: p) (auto intro: drained_if_gone_event)

text \<open>A round, and a number of them: each takes a byte, or none is left.\<close>

lemma round_drains:
  assumes D: "draining_system S ep I A P f" and f: "f \<noteq> lfd" and q: "server_round S lfd ep p = Some q"
    and p: "level_only lfd (I (kern p))" "drained_if_gone a I A P f (kern p)"
  shows "level_only lfd (I (kern q))" and "drained_if_gone a I A P f (kern q)"
    and "shrinks A P f (if P (kern p) f = [] \<or> I (kern p) f = None then 0 else 1) (kern p) (kern q)"
proof -
  note E = draining_systemD(1) [OF D] and S = draining_systemD(3) [OF D] and lt = draining_systemD(4) [OF D]
  let ?w = "snd (do_wait S ep MAX_EVENT_NUMBER (-1) p)"
  obtain evs where evs: "fst (sys_epoll_wait S ep MAX_EVENT_NUMBER (-1) (kern p)) = Inr evs"
    and q': "q = fold (lt_event S ep lfd) evs ?w"
    using q by (auto simp: server_round_def lt_def Let_def split: sum.splits)
  have l: "leaves A P (kern p) (kern ?w)" by (simp add: stream_socketsD(4) [OF S])
  note w = leaves_shrinks [OF l, of f]
  have int: "I (kern ?w) = I (kern p)" by (simp add: epoll_setD(3) [OF E])
  show "level_only lfd (I (kern q))" unfolding q' using level_only_fold [OF D, of lfd ?w evs] p(1) int by metis
  show "drained_if_gone a I A P f (kern q)"
    unfolding q' by (rule drained_if_gone_fold [OF D drained_if_gone_shrinks [OF w(1) _ p(2)]]) (metis int)
  show "shrinks A P f (if P (kern p) f = [] \<or> I (kern p) f = None then 0 else 1) (kern p) (kern q)"
  proof (cases "P (kern p) f = [] \<or> I (kern p) f = None")
    case True
    then show ?thesis using shrinks_trans [OF w(1) fold_shrinks [OF S]] by (auto simp: q')
  next
    case False
    then have reg: "I (kern p) f = Some EPOLLIN" using p(1) f unfolding level_only_def by (metis not_Some_eq)
    have pend: "P (kern ?w) f \<noteq> []" using w(2) False by blast
    have bits: "EPOLLIN AND EPOLLIN \<noteq> 0" "EPOLLIN AND EPOLLET = 0" by (simp_all add: EPOLLIN_def EPOLLET_def)
    have "kern ?w = snd (sys_epoll_wait S ep MAX_EVENT_NUMBER (-1) (kern p))" by simp
    then obtain ev where ev: "ev \<in> set evs" "ev_fd ev = f" "ev_events ev AND EPOLLIN \<noteq> 0"
      "\<forall>e\<in>set evs. ev_fd e = f \<longrightarrow> e = ev"
      using lt evs reg bits pend unfolding level_triggered_def by metis
    have "shrinks A P f 1 (kern ?w) (kern q)"
      unfolding q' by (rule fold_takes [OF S ev(1-3) f pend ev(4)])
    from shrinks_trans [OF w(1) this] show ?thesis using False reg by simp
  qed
qed

lemma rounds_level_only:
  assumes D: "draining_system S ep I A P f"
  shows "server_rounds n S lfd ep p = Some q \<Longrightarrow> level_only lfd (I (kern p)) \<Longrightarrow> level_only lfd (I (kern q))"
proof (induction n arbitrary: p)
  case (Suc n)
  then obtain r where r: "server_round S lfd ep p = Some r" "server_rounds n S lfd ep r = Some q"
    by (auto simp: bind_Some_iff)
  let ?w = "snd (do_wait S ep MAX_EVENT_NUMBER (-1) p)"
  obtain evs where r': "r = fold (lt_event S ep lfd) evs ?w"
    using r(1) by (auto simp: server_round_def lt_def Let_def split: sum.splits)
  have "I (kern ?w) = I (kern p)" by (simp add: epoll_setD(3) [OF draining_systemD(1) [OF D]])
  then have "level_only lfd (I (kern r))" unfolding r' using level_only_fold [OF D, of lfd ?w evs] Suc.prems(2) by metis
  then show ?case using Suc.IH [OF r(2)] by blast
qed simp

lemma rounds_drain:
  assumes D: "draining_system S ep I A P f" and f: "f \<noteq> lfd"
  shows "server_rounds n S lfd ep p = Some q \<Longrightarrow> level_only lfd (I (kern p)) \<Longrightarrow> drained_if_gone a I A P f (kern p) \<Longrightarrow>
    level_only lfd (I (kern q)) \<and> drained_if_gone a I A P f (kern q)
    \<and> (length (A (kern q) f) = a \<longrightarrow> length (P (kern q) f) \<le> length (P (kern p) f) - n)"
proof (induction n arbitrary: p)
  case (Suc n)
  then obtain r where r: "server_round S lfd ep p = Some r" "server_rounds n S lfd ep r = Some q"
    by (auto simp: bind_Some_iff)
  note rd = round_drains [OF D f r(1) Suc.prems(2,3)]
  note rest = Suc.IH [OF r(2) rd(1,2)]
  have "length (P (kern q) f) \<le> length (P (kern p) f) - Suc n" if a: "length (A (kern q) f) = a"
  proof -
    have le: "length (P (kern q) f) \<le> length (P (kern r) f) - n" using rest a by blast
    have grows: "length (A (kern r) f) \<le> length (A (kern q) f)"
      using rounds_grow [OF draining_systemD(3) [OF D] r(2)] .
    show ?thesis
      using le grows a rd(2,3) Suc.prems(3) unfolding shrinks_def drained_if_gone_def by (auto split: if_splits)
  qed
  then show ?case using rest by blast
qed simp

section \<open>Properties\<close>


text \<open>The network with an epoll set. A descriptor that is registered level-triggered is reported as long as bytes are
  pending there, and one that is registered edge-triggered when bytes arrive. The listening socket is ready once.\<close>

record level_net =
  l_net :: network
  l_interest :: "fd \<Rightarrow> u32 option"
  l_clients :: bool

definition level_ctl :: "fd \<Rightarrow> ctl_op \<Rightarrow> fd \<Rightarrow> epoll_event \<Rightarrow> level_net \<Rightarrow> int \<times> level_net" where
  "level_ctl ep c f ev k =
     (if (l_interest k f = None) = (c = CTL_ADD)
      then (0, k\<lparr>l_interest := (l_interest k)(f \<mapsto> ev_events ev)\<rparr>) else (-1, k))"

definition level_wait :: "fd \<Rightarrow> nat \<Rightarrow> int \<Rightarrow> level_net \<Rightarrow> (errno + epoll_event list) \<times> level_net" where
  "level_wait ep n t k =
     (let net = (case net_waits (l_net k) of [] \<Rightarrow> l_net k
                 | (f, bs, evs) # rest \<Rightarrow> arrive f bs ((l_net k)\<lparr>net_waits := rest\<rparr>));
          ready = (case l_interest k 7 of None \<Rightarrow> False
                   | Some w \<Rightarrow> w AND EPOLLIN \<noteq> 0 \<and> net_pending net 7 \<noteq> []
                       \<and> (w AND EPOLLET = 0 \<or> net_arrived net 7 \<noteq> net_arrived (l_net k) 7));
          accepts = l_clients k \<and> (case l_interest k 3 of None \<Rightarrow> False | Some w \<Rightarrow> w AND EPOLLIN \<noteq> 0)
      in (Inr ((if accepts then [\<lparr>ev_events = EPOLLIN, ev_fd = 3\<rparr>] else [])
               @ (if ready then [\<lparr>ev_events = EPOLLIN, ev_fd = 7\<rparr>] else [])),
          k\<lparr>l_net := net, l_clients := \<not> accepts \<and> l_clients k\<rparr>))"

definition level_os :: "level_net os" where
  "level_os = \<lparr>
     sys_getfl = (\<lambda>f k. (2, k)), sys_setfl = (\<lambda>f v k. (0, k)), sys_epoll_ctl = level_ctl, sys_epoll_wait = level_wait,
     sys_accept = (\<lambda>f k. (if l_interest k 7 = None then 7 else -1, k)),
     sys_recv = (\<lambda>f n k. (fst (net_recv f n (l_net k)), k\<lparr>l_net := snd (net_recv f n (l_net k))\<rparr>)),
     sys_read = (\<lambda>f n k. (fst (net_recv f n (l_net k)), k\<lparr>l_net := snd (net_recv f n (l_net k))\<rparr>)),
     sys_write = (\<lambda>f bs n k. (int (length bs), k)),
     sys_close = (\<lambda>f k. (0, k\<lparr>l_interest := (l_interest k)(f := None),
       l_net := (l_net k)\<lparr>net_pending := (net_pending (l_net k))(f := [])\<rparr>\<rparr>)) \<rparr>"

abbreviation level_arrived :: "level_net view" where
  "level_arrived k \<equiv> net_arrived (l_net k)"

abbreviation level_pending :: "level_net view" where
  "level_pending k \<equiv> net_pending (l_net k)"

lemma level_os_streams: "stream_sockets level_os level_arrived level_pending"
proof -
  have "receives level_arrived level_pending (\<lambda>f n k. (fst (net_recv f n (l_net k)), k\<lparr>l_net := snd (net_recv f n (l_net k))\<rparr>))"
    by (auto simp: receives_def taken_def net_recv_def)
  moreover have "leaves level_arrived level_pending k (snd (level_wait ep n t k))" for ep n t k
    by (auto simp: level_wait_def leaves_def arrive_def Let_def split: list.split)
  ultimately show ?thesis
    unfolding stream_sockets_def
    by (intro conjI) (auto simp: level_os_def level_ctl_def leaves_def ends_def)
qed

lemma level_os_epoll: "epoll_set level_os ep l_interest"
  unfolding epoll_set_def
  by (intro conjI) (auto simp: level_os_def level_ctl_def level_wait_def Let_def reportable_def EPOLLIN_def EPOLLOUT_def
      split: option.splits)

lemma level_os_drains: "draining_system level_os ep l_interest level_arrived level_pending 7"
  using level_os_streams level_os_epoll
  by (auto simp: draining_system_def recv_registers_nothing_def level_triggered_def level_os_def level_wait_def Let_def EPOLLIN_def)

definition sample_level :: level_net where
  "sample_level = \<lparr>l_net = \<lparr>net_arrived = (\<lambda>_. []), net_pending = (\<lambda>_. []),
     net_waits = [(3, [], []), (7, [1, 2, 3, 4, 5, 6, 7, 8, 9, 10, 11], [])]\<rparr>, l_interest = (\<lambda>_. None), l_clients = True\<rparr>"


end
