(* ===== verification/Epoll_Echo.thy ===== *)
theory Epoll_Echo
  imports Sockets
begin

text \<open>
  The echo server of \<open>epoll.c\<close>: its \<open>setnonblocking\<close>, the handling of one event (accept,
  read, write), the endless loop and the start-up. The buffer \<open>line\<close> and the byte count
  \<open>n\<close> of the last read are variables of \<open>main\<close>, shared by all connections, and part of the
  state here. A step either ends the program with a status (\<open>Inl\<close>, a call of \<open>exit\<close>) or goes
  on (\<open>Inr\<close>). The assignments of -1 to \<open>events[i].data.fd\<close> are not modelled: the entry is not
  read again before the next \<open>epoll_wait\<close> overwrites it; nor are the address of a client, which is only printed,
  and the name in the usage line.
\<close>

definition MAXLINE :: nat where "MAXLINE = 10"

record 'k echo =
  proc :: "'k proc"
  line :: "u8 list"
  n_read :: int

type_synonym 'k outcome = "int \<times> 'k echo + 'k echo"

definition on_proc :: "('k proc \<Rightarrow> 'k proc) \<Rightarrow> 'k echo \<Rightarrow> 'k echo" where
  "on_proc f st = st\<lparr>proc := f (proc st)\<rparr>"

definition exit_with :: "int \<Rightarrow> string \<Rightarrow> 'k echo \<Rightarrow> 'k outcome" where
  "exit_with c msg st = Inl (c, on_proc (say (Line msg)) st)"

section \<open>The steps\<close>

definition echo_setnonblocking :: "'k os \<Rightarrow> fd \<Rightarrow> 'k echo \<Rightarrow> 'k outcome" where
  "echo_setnonblocking S sock st =
     (let (opts, p) = do_getfl S sock (proc st); st = st\<lparr>proc := p\<rparr> in
      if opts <s 0 then exit_with 1 ''fcntl(sock, GETFL)'' st
      else
        (let opts = opts OR O_NONBLOCK;
             (ret, p) = do_setfl S sock opts (proc st); st = st\<lparr>proc := p\<rparr>
         in if ret <s 0 then exit_with 1 ''fcntl(sock,SETFL,opts)'' st else Inr st))"

definition register :: "'k os \<Rightarrow> fd \<Rightarrow> ctl_op \<Rightarrow> fd \<Rightarrow> u32 \<Rightarrow> 'k echo \<Rightarrow> 'k echo" where
  "register S epfd c f events = on_proc (do_ctl S epfd c f \<lparr>ev_events = events, ev_fd = f\<rparr>)"

definition on_accept :: "'k os \<Rightarrow> fd \<Rightarrow> fd \<Rightarrow> 'k echo \<Rightarrow> 'k outcome" where
  "on_accept S epfd listenfd st =
     (let (connfd, p) = do_accept S listenfd (proc st); st = st\<lparr>proc := p\<rparr> in
      if connfd < 0 then exit_with 1 ''connfd<0'' st
      else case echo_setnonblocking S connfd st of
        Inl e \<Rightarrow> Inl e
      | Inr st \<Rightarrow> Inr (register S epfd CTL_ADD connfd (EPOLLIN OR EPOLLET)
                       (on_proc (say (Line ''connect from'')) st)))"

text \<open>A read stores its bytes at the start of \<open>line\<close> and leaves the rest of it alone.\<close>

definition on_readable :: "'k os \<Rightarrow> fd \<Rightarrow> fd \<Rightarrow> 'k echo \<Rightarrow> 'k echo" where
  "on_readable S epfd sockfd st =
     (let (ret, p) = do_read S sockfd MAXLINE (proc st); st = st\<lparr>proc := p\<rparr>;
          st = (case ret of
              Inl e \<Rightarrow>
                (let st = st\<lparr>n_read := -1\<rparr> in
                 if e = ECONNRESET then on_proc (do_close S sockfd) st
                 else on_proc (say (Line ''readline error'')) st)
            | Inr bs \<Rightarrow>
                (let st = st\<lparr>n_read := int (length bs), line := bs @ drop (length bs) (line st)\<rparr> in
                 if bs = [] then on_proc (do_close S sockfd) st else st))
      in register S epfd CTL_MOD sockfd (EPOLLOUT OR EPOLLET) st)"

text \<open>The count of \<open>write\<close> is a \<open>size_t\<close>: a negative \<open>n\<close> becomes a huge count.\<close>

definition on_writable :: "'k os \<Rightarrow> fd \<Rightarrow> fd \<Rightarrow> 'k echo \<Rightarrow> 'k echo" where
  "on_writable S epfd sockfd st =
     (let (_, p) = do_write S sockfd (line st) (of_int (n_read st)) (proc st); st = st\<lparr>proc := p\<rparr>
      in register S epfd CTL_MOD sockfd (EPOLLIN OR EPOLLET) st)"

definition echo_event :: "'k os \<Rightarrow> fd \<Rightarrow> fd \<Rightarrow> epoll_event \<Rightarrow> 'k echo \<Rightarrow> 'k outcome" where
  "echo_event S epfd listenfd ev st =
     (if ev_fd ev = listenfd then on_accept S epfd listenfd st
      else if ev_events ev AND EPOLLIN \<noteq> 0 then
        (if ev_fd ev < 0 then Inr st else Inr (on_readable S epfd (ev_fd ev) st))
      else if ev_events ev AND EPOLLOUT \<noteq> 0 then Inr (on_writable S epfd (ev_fd ev) st)
      else Inr st)"

section \<open>The loop\<close>

fun echo_batch :: "'k os \<Rightarrow> fd \<Rightarrow> fd \<Rightarrow> epoll_event list \<Rightarrow> 'k echo \<Rightarrow> 'k outcome" where
  "echo_batch S epfd listenfd [] st = Inr st"
| "echo_batch S epfd listenfd (ev # evs) st =
     (case echo_event S epfd listenfd ev st of
        Inl e \<Rightarrow> Inl e
      | Inr st \<Rightarrow> echo_batch S epfd listenfd evs st)"

text \<open>A failed \<open>epoll_wait\<close> returns -1: the loop over the events has nothing to do, and the
  program waits again.\<close>

definition echo_turn :: "'k os \<Rightarrow> fd \<Rightarrow> fd \<Rightarrow> 'k echo \<Rightarrow> 'k outcome" where
  "echo_turn S epfd listenfd st =
     (let (ret, p) = do_wait S epfd 20 500 (proc st); st = st\<lparr>proc := p\<rparr> in
      case ret of Inl e \<Rightarrow> Inr st | Inr evs \<Rightarrow> echo_batch S epfd listenfd evs st)"

partial_function (option) echo_loop :: "'k os \<Rightarrow> fd \<Rightarrow> fd \<Rightarrow> 'k echo \<Rightarrow> (int \<times> 'k echo) option" where
  "echo_loop S epfd listenfd st =
     (case echo_turn S epfd listenfd st of
        Inl e \<Rightarrow> Some e
      | Inr st \<Rightarrow> echo_loop S epfd listenfd st)"

text \<open>The state the loop starts in: the listening socket is registered in the epoll set.\<close>

definition echo_ready :: "'k os \<Rightarrow> fd \<Rightarrow> fd \<Rightarrow> 'k echo \<Rightarrow> 'k echo" where
  "echo_ready S epfd listenfd st = register S epfd CTL_ADD listenfd (EPOLLIN OR EPOLLET) st"

text \<open>From the call of \<open>setnonblocking\<close> on the listening socket on.\<close>

definition echo_serve :: "'k os \<Rightarrow> 'k startup \<Rightarrow> fd \<Rightarrow> 'k echo \<Rightarrow> (int \<times> 'k echo) option" where
  "echo_serve S L listenfd st =
     (case echo_setnonblocking S listenfd st of
        Inl e \<Rightarrow> Some e
      | Inr st \<Rightarrow>
          (let (epfd, k) = sys_epoll_create L 256 (kern (proc st));
               st = on_proc (\<lambda>p. p\<lparr>kern := k\<rparr>) st
           in echo_loop S epfd listenfd (echo_ready S epfd listenfd st)))"

definition echo_main ::
    "'k os \<Rightarrow> 'k startup \<Rightarrow> string list \<Rightarrow> 'k echo \<Rightarrow> (exit_status \<times> 'k echo) option" where
  "echo_main S L argv st =
     (if length argv \<le> 2 then
        Some (Return 1, on_proc (say (Line ''usage: %s ip_address port_number'')) st)
      else
        (let port = lib_atoi L (argv ! 2);
             address = server_address L (argv ! 1) port;
             (listenfd, k) = sys_socket L (kern (proc st)); st = on_proc (\<lambda>p. p\<lparr>kern := k\<rparr>) st in
         if \<not> listenfd \<ge> 0 then Some (Assertion_failed, st)
         else
           (let (ret, k) = sys_bind L listenfd address k; st = on_proc (\<lambda>p. p\<lparr>kern := k\<rparr>) st in
            if ret = -1 then Some (Assertion_failed, st)
            else
              (let (ret, k) = sys_listen L listenfd 5 k; st = on_proc (\<lambda>p. p\<lparr>kern := k\<rparr>) st in
               if ret = -1 then Some (Assertion_failed, st)
               else map_option (\<lambda>(c, st). (Return c, st)) (echo_serve S L listenfd st)))))"

section \<open>What each step does\<close>

abbreviation past :: "'k echo \<Rightarrow> action list" where
  "past st \<equiv> trace (proc st)"

lemma on_proc_simps [simp]:
  "proc (on_proc f st) = f (proc st)" "line (on_proc f st) = line st" "n_read (on_proc f st) = n_read st"
  by (simp_all add: on_proc_def)

lemma register_simps [simp]:
  "past (register S ep c f ev st) = past st @ [Ctl ep c f ev]"
  "line (register S ep c f ev st) = line st" "n_read (register S ep c f ev st) = n_read st"
  "kern (proc (register S ep c f ev st)) =
     snd (sys_epoll_ctl S ep c f \<lparr>ev_events = ev, ev_fd = f\<rparr> (kern (proc st)))"
  by (simp_all add: register_def)

text \<open>A read on a connection, by its result.\<close>

lemma on_readable_ok:
  assumes "fst (sys_read S f MAXLINE (kern (proc st))) = Inr bs"
  shows "past (on_readable S ep f st) = past st @ Read f MAXLINE # (if bs = [] then [Close f] else [])
      @ [Ctl ep CTL_MOD f (EPOLLOUT OR EPOLLET)]"
    and "line (on_readable S ep f st) = bs @ drop (length bs) (line st)"
    and "n_read (on_readable S ep f st) = int (length bs)"
  using assms by (simp_all add: on_readable_def Let_def case_prod_unfold)

lemma on_readable_fail:
  assumes "fst (sys_read S f MAXLINE (kern (proc st))) = Inl e"
  shows "past (on_readable S ep f st) = past st @ [Read f MAXLINE,
      (if e = ECONNRESET then Close f else Print (Line ''readline error'')),
      Ctl ep CTL_MOD f (EPOLLOUT OR EPOLLET)]"
    and "line (on_readable S ep f st) = line st" and "n_read (on_readable S ep f st) = -1"
  using assms by (simp_all add: on_readable_def Let_def case_prod_unfold)

lemma on_writable_simps:
  "past (on_writable S ep f st) = past st @ [Write f (line st) (of_int (n_read st)),
     Ctl ep CTL_MOD f (EPOLLIN OR EPOLLET)]"
  "line (on_writable S ep f st) = line st" "n_read (on_writable S ep f st) = n_read st"
  by (simp_all add: on_writable_def Let_def case_prod_unfold)

text \<open>The accept path keeps the buffer and the count; it appends no write.\<close>

fun is_write :: "action \<Rightarrow> bool" where
  "is_write (Write f bs c) = True"
| "is_write _ = False"

lemma setnonblocking_Inr:
  "echo_setnonblocking S f st = Inr st' \<Longrightarrow> line st' = line st \<and> n_read st' = n_read st
    \<and> (\<exists>v. past st' = past st @ [Getfl f, Setfl f v])"
  by (auto simp: echo_setnonblocking_def exit_with_def Let_def case_prod_unfold split: if_splits)

lemma on_accept_Inr:
  "on_accept S ep lfd st = Inr st' \<Longrightarrow> line st' = line st \<and> n_read st' = n_read st
    \<and> (\<exists>ts. past st' = past st @ ts \<and> (\<forall>a\<in>set ts. \<not> is_write a))"
  by (fastforce simp: on_accept_def exit_with_def Let_def case_prod_unfold split: if_splits sum.splits
      dest!: setnonblocking_Inr)

text \<open>Every step only appends to the trace.\<close>

lemma on_readable_appends: "\<exists>ts. past (on_readable S ep f st) = past st @ ts"
  using on_readable_ok(1) [of S f st _ ep] on_readable_fail(1) [of S f st _ ep]
  by (cases "fst (sys_read S f MAXLINE (kern (proc st)))") auto

lemma echo_event_appends: "echo_event S ep lfd ev st = Inr st' \<Longrightarrow> \<exists>ts. past st' = past st @ ts"
  using on_readable_appends [of S ep "ev_fd ev" st]
  by (auto simp: echo_event_def on_writable_simps split: if_splits dest: on_accept_Inr)

section \<open>The buffer discipline\<close>

text \<open>As long as reads succeed within their bound, the count never exceeds the buffer and no
  write is asked to send more than the buffer holds.\<close>

definition reads_succeed :: "'k os \<Rightarrow> bool" where
  "reads_succeed S \<longleftrightarrow> (\<forall>f k. \<exists>bs. fst (sys_read S f MAXLINE k) = Inr bs \<and> length bs \<le> MAXLINE)"

definition buffer_ok :: "'k echo \<Rightarrow> bool" where
  "buffer_ok st \<longleftrightarrow> length (line st) = MAXLINE \<and> 0 \<le> n_read st \<and> n_read st \<le> int MAXLINE"

fun write_ok :: "action \<Rightarrow> bool" where
  "write_ok (Write f bs c) \<longleftrightarrow> unat c \<le> length bs"
| "write_ok _ \<longleftrightarrow> True"

lemma write_ok_no_write: "\<not> is_write a \<Longrightarrow> write_ok a"
  by (cases a) auto

lemma unat_count: "0 \<le> n \<Longrightarrow> n \<le> int MAXLINE \<Longrightarrow> unat (of_int n :: u64) = nat n"
proof -
  assume "0 \<le> n" and le: "n \<le> int MAXLINE"
  then have "(of_int n :: u64) = of_nat (nat n)" by (simp only: of_nat_nat)
  then show "unat (of_int n :: u64) = nat n" using le by (simp add: unat_of_nat MAXLINE_def)
qed

definition echo_step :: "'k os \<Rightarrow> fd \<Rightarrow> fd \<Rightarrow> epoll_event \<Rightarrow> 'k echo \<Rightarrow> 'k echo option" where
  "echo_step S ep lfd ev st = (case echo_event S ep lfd ev st of Inl e \<Rightarrow> None | Inr st' \<Rightarrow> Some st')"

lemma echo_batch_run_all:
  "echo_batch S ep lfd evs st = Inr st' \<longleftrightarrow> run_all (echo_step S ep lfd) evs st = Some st'"
  by (induction evs arbitrary: st) (auto simp: echo_step_def split: sum.splits)

lemma on_readable_buffer:
  assumes "reads_succeed S" and "buffer_ok st"
  shows "buffer_ok (on_readable S ep f st)"
    and "\<exists>ts. past (on_readable S ep f st) = past st @ ts \<and> (\<forall>a\<in>set ts. write_ok a)"
proof -
  obtain bs where bs: "fst (sys_read S f MAXLINE (kern (proc st))) = Inr bs" "length bs \<le> MAXLINE"
    using assms(1) unfolding reads_succeed_def by blast
  show "buffer_ok (on_readable S ep f st)"
    using assms(2) bs(2) by (simp add: buffer_ok_def on_readable_ok [OF bs(1)])
  show "\<exists>ts. past (on_readable S ep f st) = past st @ ts \<and> (\<forall>a\<in>set ts. write_ok a)"
    by (simp add: on_readable_ok [OF bs(1)])
qed

lemma on_writable_buffer:
  assumes "buffer_ok st"
  shows "buffer_ok (on_writable S ep f st)"
    and "\<exists>ts. past (on_writable S ep f st) = past st @ ts \<and> (\<forall>a\<in>set ts. write_ok a)"
  using assms by (auto simp: buffer_ok_def on_writable_simps unat_count)

lemma echo_event_cases:
  "echo_event S ep lfd ev st = Inr st' \<Longrightarrow> on_accept S ep lfd st = Inr st' \<or> st' = st
    \<or> st' = on_readable S ep (ev_fd ev) st \<or> st' = on_writable S ep (ev_fd ev) st"
  by (simp add: echo_event_def split: if_splits)

lemma echo_step_event: "echo_step S ep lfd ev st = Some st' \<longleftrightarrow> echo_event S ep lfd ev st = Inr st'"
  by (simp add: echo_step_def split: sum.splits)

lemma echo_step_buffer:
  assumes "echo_step S ep lfd ev st = Some st'" and "reads_succeed S" and "buffer_ok st"
  shows "buffer_ok st' \<and> (\<exists>ts. past st' = past st @ ts \<and> (\<forall>a\<in>set ts. write_ok a))"
proof -
  consider "on_accept S ep lfd st = Inr st'" | "st' = st" | "st' = on_readable S ep (ev_fd ev) st"
    | "st' = on_writable S ep (ev_fd ev) st"
    using echo_event_cases [of S ep lfd ev st st'] assms(1) unfolding echo_step_event by blast
  then show ?thesis
  proof cases
    case 1
    then obtain ts where "past st' = past st @ ts" "\<forall>a\<in>set ts. \<not> is_write a"
      and "line st' = line st" "n_read st' = n_read st"
      using on_accept_Inr by blast
    then show ?thesis using assms(3) write_ok_no_write unfolding buffer_ok_def by metis
  next
    case 2
    then show ?thesis using assms(3) by auto
  next
    case 3
    then show ?thesis using on_readable_buffer [OF assms(2,3)] by blast
  next
    case 4
    then show ?thesis using on_writable_buffer [OF assms(3)] by blast
  qed
qed

interpretation echo_handler: event_handler
  "echo_step S ep lfd" past "\<lambda>a. reads_succeed S \<longrightarrow> write_ok a" "\<lambda>st. reads_succeed S \<longrightarrow> buffer_ok st"
proof unfold_locales
  fix st st' ev
  assume inv: "reads_succeed S \<longrightarrow> buffer_ok st" and st': "echo_step S ep lfd ev st = Some st'"
  show "reads_succeed S \<longrightarrow> buffer_ok st'" using echo_step_buffer [OF st'] inv by blast
  show "\<exists>ts. past st' = past st @ ts \<and> (\<forall>a\<in>set ts. reads_succeed S \<longrightarrow> write_ok a)"
  proof (cases "reads_succeed S")
    case True
    then show ?thesis using echo_step_buffer [OF st'] inv by blast
  next
    case False
    then show ?thesis using st' echo_event_appends unfolding echo_step_event by fastforce
  qed
qed

section \<open>When the program exits\<close>

lemma echo_setnonblocking_exit:
  "echo_setnonblocking S f st = Inl (c, st') \<Longrightarrow> c = 1"
  by (auto simp: echo_setnonblocking_def exit_with_def Let_def case_prod_unfold split: if_splits)

lemma on_accept_exit: "on_accept S ep lfd st = Inl (c, st') \<Longrightarrow> c = 1"
  by (auto simp: on_accept_def exit_with_def Let_def case_prod_unfold split: if_splits sum.splits
      dest: echo_setnonblocking_exit)

lemma echo_batch_exit: "echo_batch S ep lfd evs st = Inl (c, st') \<Longrightarrow> c = 1"
  by (induction evs arbitrary: st)
    (auto simp: echo_event_def split: sum.splits if_splits dest: on_accept_exit)

lemma echo_turn_exit: "echo_turn S ep lfd st = Inl (c, st') \<Longrightarrow> c = 1"
  by (auto simp: echo_turn_def Let_def case_prod_unfold split: sum.splits dest: echo_batch_exit)

text \<open>Only \<open>accept\<close> and the two \<open>fcntl\<close> calls can end the program.\<close>

definition accepts_succeed :: "'k os \<Rightarrow> bool" where
  "accepts_succeed S \<longleftrightarrow> (\<forall>f k. 0 \<le> fst (sys_accept S f k)) \<and> (\<forall>f k. \<not> fst (sys_getfl S f k) <s 0)
     \<and> (\<forall>f v k. \<not> fst (sys_setfl S f v k) <s 0)"

lemma echo_setnonblocking_goes_on:
  "accepts_succeed S \<Longrightarrow> \<exists>st'. echo_setnonblocking S f st = Inr st'"
  by (simp add: accepts_succeed_def echo_setnonblocking_def Let_def case_prod_unfold)

lemma on_accept_goes_on:
  assumes "accepts_succeed S"
  shows "\<exists>st'. on_accept S ep lfd st = Inr st'"
proof -
  let ?st = "st\<lparr>proc := snd (do_accept S lfd (proc st))\<rparr>"
  let ?c = "fst (do_accept S lfd (proc st))"
  have "\<not> ?c < 0" using assms by (simp add: accepts_succeed_def not_less)
  moreover obtain st1 where "echo_setnonblocking S ?c ?st = Inr st1"
    using echo_setnonblocking_goes_on [OF assms] by blast
  ultimately show ?thesis by (simp add: on_accept_def Let_def case_prod_unfold)
qed

lemma echo_event_goes_on: "accepts_succeed S \<Longrightarrow> \<exists>st'. echo_event S ep lfd ev st = Inr st'"
  using on_accept_goes_on [of S ep lfd st] by (simp add: echo_event_def)

lemma echo_batch_goes_on: "accepts_succeed S \<Longrightarrow> \<exists>st'. echo_batch S ep lfd evs st = Inr st'"
proof (induction evs arbitrary: st)
  case (Cons ev evs)
  obtain st1 where "echo_event S ep lfd ev st = Inr st1"
    using echo_event_goes_on [OF Cons.prems] by blast
  then show ?case using Cons by simp
qed simp

lemma echo_turn_goes_on: "accepts_succeed S \<Longrightarrow> \<exists>st'. echo_turn S ep lfd st = Inr st'"
  using echo_batch_goes_on by (fastforce simp: echo_turn_def Let_def case_prod_unfold split: sum.splits)

section \<open>Properties\<close>

definition sample_echo :: "script echo" where
  "sample_echo = \<lparr>proc = \<lparr>kern = \<lparr>inbox = (\<lambda>_. [])(7 := [Inr [104, 105]], 8 := [Inr [33]], 9 := [Inr []]),
     closed = [], accepts = [], rounds = []\<rparr>, trace = []\<rparr>, line = replicate 10 0, n_read = 0\<rparr>"

text \<open>A connection whose readable event is followed by its writable event gets its own bytes
  back: what was read is what is written, with its exact length, and the registration goes from
  input to output and back to input.\<close>

theorem echo_returns_what_it_read:
  assumes "fst (sys_read S f MAXLINE (kern (proc st))) = Inr bs" and "bs \<noteq> []" and "length bs \<le> MAXLINE"
    and "f \<noteq> lfd" and "0 \<le> f"
  shows "\<exists>st' buf count. echo_batch S ep lfd
      [\<lparr>ev_events = EPOLLIN, ev_fd = f\<rparr>, \<lparr>ev_events = EPOLLOUT, ev_fd = f\<rparr>] st = Inr st'
    \<and> past st' = past st @ [Read f 10, Ctl ep CTL_MOD f (EPOLLOUT OR EPOLLET),
        Write f buf count, Ctl ep CTL_MOD f (EPOLLIN OR EPOLLET)]
    \<and> take (unat count) buf = bs"
proof -
  have "unat (of_int (int (length bs)) :: u64) = length bs"
    using unat_count [of "int (length bs)"] assms(3) by simp
  then show ?thesis
    using assms by (simp add: echo_event_def EPOLLIN_def EPOLLOUT_def on_writable_simps on_readable_ok)
      (simp add: MAXLINE_def)
qed

theorem echo_returns_what_it_read_witness:
  "\<exists>st' buf count. echo_batch script_os 4 3
      [\<lparr>ev_events = EPOLLIN, ev_fd = 7\<rparr>, \<lparr>ev_events = EPOLLOUT, ev_fd = 7\<rparr>] sample_echo = Inr st'
    \<and> past st' = [Read 7 10, Ctl 4 CTL_MOD 7 (EPOLLOUT OR EPOLLET),
        Write 7 buf count, Ctl 4 CTL_MOD 7 (EPOLLIN OR EPOLLET)]
    \<and> take (unat count) buf = [104, 105]"
  using echo_returns_what_it_read [of script_os 7 sample_echo "[104, 105]" 3 4]
  by (simp add: sample_echo_def script_os_def script_recv_def MAXLINE_def)

text \<open>C29: the buffer is shared: when a second connection is read before the first one is
  written, the first connection is sent the bytes of the second.\<close>

theorem echo_crosses_connections:
  assumes "\<forall>k. fst (sys_read S f MAXLINE k) = Inr bs" and "\<forall>k. fst (sys_read S g MAXLINE k) = Inr cs"
    and "cs \<noteq> []" and "length cs \<le> MAXLINE" and "f \<noteq> lfd" "g \<noteq> lfd" "0 \<le> f" "0 \<le> g"
  shows "\<exists>st' buf count ts. echo_batch S ep lfd [\<lparr>ev_events = EPOLLIN, ev_fd = f\<rparr>,
      \<lparr>ev_events = EPOLLIN, ev_fd = g\<rparr>, \<lparr>ev_events = EPOLLOUT, ev_fd = f\<rparr>] st = Inr st'
    \<and> past st' = past st @ ts @ [Write f buf count, Ctl ep CTL_MOD f (EPOLLIN OR EPOLLET)]
    \<and> take (unat count) buf = cs"
proof -
  have "unat (of_int (int (length cs)) :: u64) = length cs"
    using unat_count [of "int (length cs)"] assms(4) by simp
  then show ?thesis
    using assms by (simp add: echo_event_def EPOLLIN_def EPOLLOUT_def on_writable_simps on_readable_ok)
qed

theorem echo_crosses_connections_witness:
  "\<exists>st' buf count ts. echo_batch (script_os\<lparr>sys_read := (\<lambda>f n s. (Inr (if f = 7 then [1] else [2]), s))\<rparr>) 4 3
      [\<lparr>ev_events = EPOLLIN, ev_fd = 7\<rparr>, \<lparr>ev_events = EPOLLIN, ev_fd = 8\<rparr>,
       \<lparr>ev_events = EPOLLOUT, ev_fd = 7\<rparr>] sample_echo = Inr st'
    \<and> past st' = ts @ [Write 7 buf count, Ctl 4 CTL_MOD 7 (EPOLLIN OR EPOLLET)]
    \<and> take (unat count) buf = [2]"
  using echo_crosses_connections [of "script_os\<lparr>sys_read := (\<lambda>f n s. (Inr (if f = 7 then [1] else [2]), s))\<rparr>"
      7 "[1]" 8 "[2]" 3 4 sample_echo]
  by (simp add: sample_echo_def MAXLINE_def)

text \<open>As long as reads succeed, the discipline holds over any batch of events.\<close>

lemma echo_batch_in_bounds:
  assumes "reads_succeed S" and "buffer_ok st" and "\<forall>a\<in>set (past st). write_ok a"
    and "echo_batch S ep lfd evs st = Inr st'"
  shows "buffer_ok st' \<and> (\<forall>a\<in>set (past st'). write_ok a)"
proof -
  have run: "run_all (echo_step S ep lfd) evs st = Some st'"
    using assms(4) by (simp add: echo_batch_run_all)
  show ?thesis
    using echo_handler.batch_inv [OF run] echo_handler.batch_keeps [OF run] assms(1-3) by blast
qed

text \<open>C38: a read that fails is not remembered: the connection is armed for output all the same,
  and its next writable event asks \<open>write\<close> for 2^64 - 1 bytes of the ten-byte buffer.\<close>

theorem failed_read_overruns_write:
  assumes "fst (sys_read S f MAXLINE (kern (proc st))) = Inl e" and "e \<noteq> ECONNRESET"
    and "f \<noteq> lfd" and "0 \<le> f" and "length (line st) = MAXLINE"
  shows "\<exists>st'. echo_batch S ep lfd
      [\<lparr>ev_events = EPOLLIN, ev_fd = f\<rparr>, \<lparr>ev_events = EPOLLOUT, ev_fd = f\<rparr>] st = Inr st'
    \<and> past st' = past st @ [Read f 10, Print (Line ''readline error''),
        Ctl ep CTL_MOD f (EPOLLOUT OR EPOLLET), Write f (line st) (2 ^ 64 - 1),
        Ctl ep CTL_MOD f (EPOLLIN OR EPOLLET)]
    \<and> \<not> write_ok (Write f (line st) (2 ^ 64 - 1))"
  using assms by (simp add: echo_event_def EPOLLIN_def EPOLLOUT_def on_writable_simps on_readable_fail)
    (simp add: MAXLINE_def)

theorem failed_read_overruns_write_witness:
  "\<exists>st'. echo_batch script_os 4 3
      [\<lparr>ev_events = EPOLLIN, ev_fd = 6\<rparr>, \<lparr>ev_events = EPOLLOUT, ev_fd = 6\<rparr>] sample_echo = Inr st'
    \<and> past st' = [Read 6 10, Print (Line ''readline error''),
        Ctl 4 CTL_MOD 6 (EPOLLOUT OR EPOLLET), Write 6 (replicate 10 0) (2 ^ 64 - 1),
        Ctl 4 CTL_MOD 6 (EPOLLIN OR EPOLLET)]"
  using failed_read_overruns_write [of script_os 6 sample_echo EAGAIN 3 4]
  by (simp add: sample_echo_def script_os_def script_recv_def MAXLINE_def)

text \<open>What an event of a connection re-registers it for.\<close>

fun is_ctl :: "action \<Rightarrow> bool" where
  "is_ctl (Ctl ep c f ev) = True"
| "is_ctl _ = False"

definition rearm :: "fd \<Rightarrow> epoll_event \<Rightarrow> action list" where
  "rearm ep ev =
     (if ev_events ev AND EPOLLIN \<noteq> 0 then [Ctl ep CTL_MOD (ev_fd ev) (EPOLLOUT OR EPOLLET)]
      else if ev_events ev AND EPOLLOUT \<noteq> 0 then [Ctl ep CTL_MOD (ev_fd ev) (EPOLLIN OR EPOLLET)]
      else [])"

lemma on_readable_ctl:
  "\<exists>ts. past (on_readable S ep f st) = past st @ ts
    \<and> filter is_ctl ts = [Ctl ep CTL_MOD f (EPOLLOUT OR EPOLLET)]"
  by (cases "fst (sys_read S f MAXLINE (kern (proc st)))")
    (auto simp: on_readable_ok(1) on_readable_fail(1))

lemma echo_event_rearms:
  assumes "ev_fd ev \<noteq> lfd" and "0 \<le> ev_fd ev"
  shows "\<exists>st' ts. echo_event S ep lfd ev st = Inr st' \<and> past st' = past st @ ts
    \<and> filter is_ctl ts = rearm ep ev"
  using assms on_readable_ctl [of S ep "ev_fd ev" st]
  by (simp add: echo_event_def rearm_def on_writable_simps not_less)

text \<open>Every event of a connection re-registers it exactly once: a readable event for output,
  a merely writable one for input, always edge-triggered. No event of a connection ends the
  program.\<close>

theorem connection_rearmed_once_per_event:
  assumes "\<forall>ev\<in>set evs. ev_fd ev \<noteq> lfd \<and> 0 \<le> ev_fd ev"
  shows "\<exists>st' ts. echo_batch S ep lfd evs st = Inr st' \<and> past st' = past st @ ts
    \<and> filter is_ctl ts = concat (map (rearm ep) evs)"
  using assms
proof (induction evs arbitrary: st)
  case (Cons ev evs)
  obtain st1 t1 where st1: "echo_event S ep lfd ev st = Inr st1" "past st1 = past st @ t1"
    "filter is_ctl t1 = rearm ep ev"
    using echo_event_rearms [of ev lfd S ep st] Cons.prems by auto
  obtain st' t2 where "echo_batch S ep lfd evs st1 = Inr st'" "past st' = past st1 @ t2"
    "filter is_ctl t2 = concat (map (rearm ep) evs)"
    using Cons.IH [of st1] Cons.prems by auto
  with st1 show ?case by (intro exI [of _ st'] exI [of _ "t1 @ t2"]) simp
qed simp

theorem connection_rearmed_once_per_event_witness:
  "\<exists>st' ts. echo_batch script_os 4 3 [\<lparr>ev_events = EPOLLIN, ev_fd = 9\<rparr>, \<lparr>ev_events = EPOLLOUT, ev_fd = 7\<rparr>]
      sample_echo = Inr st' \<and> past st' = past sample_echo @ ts
    \<and> filter is_ctl ts = [Ctl 4 CTL_MOD 9 (EPOLLOUT OR EPOLLET), Ctl 4 CTL_MOD 7 (EPOLLIN OR EPOLLET)]"
  using connection_rearmed_once_per_event
    [of "[\<lparr>ev_events = EPOLLIN, ev_fd = 9\<rparr>, \<lparr>ev_events = EPOLLOUT, ev_fd = 7\<rparr>]" 3 script_os 4 sample_echo]
  by (simp add: rearm_def EPOLLIN_def EPOLLOUT_def)

text \<open>At the end of a stream the connection is closed and then modified in the epoll set, on
  the descriptor that no longer exists.\<close>

theorem echo_eof_rearms_closed:
  assumes "fst (sys_read S f MAXLINE (kern (proc st))) = Inr []" and "f \<noteq> lfd" and "0 \<le> f"
  shows "\<exists>st'. echo_batch S ep lfd [\<lparr>ev_events = EPOLLIN, ev_fd = f\<rparr>] st = Inr st'
    \<and> past st' = past st @ [Read f 10, Close f, Ctl ep CTL_MOD f (EPOLLOUT OR EPOLLET)]
    \<and> n_read st' = 0"
  using assms by (simp add: echo_event_def EPOLLIN_def on_readable_ok) (simp add: MAXLINE_def)

theorem echo_eof_rearms_closed_witness:
  "\<exists>st'. echo_batch script_os 4 3 [\<lparr>ev_events = EPOLLIN, ev_fd = 9\<rparr>] sample_echo = Inr st'
    \<and> past st' = [Read 9 10, Close 9, Ctl 4 CTL_MOD 9 (EPOLLOUT OR EPOLLET)] \<and> n_read st' = 0"
  using echo_eof_rearms_closed [of script_os 9 sample_echo 3 4]
  by (simp add: sample_echo_def script_os_def script_recv_def MAXLINE_def)

text \<open>The loop ends only through \<open>exit(1)\<close>; while \<open>accept\<close> and \<open>fcntl\<close> succeed it never
  ends, whatever \<open>epoll_wait\<close>, \<open>read\<close>, \<open>write\<close> and \<open>epoll_ctl\<close> return.\<close>

lemma echo_loop_exit:
  assumes "echo_loop S ep lfd st = Some r"
  shows "fst r = 1 \<and> \<not> accepts_succeed S"
proof (rule echo_loop.raw_induct [where P = "\<lambda>S ep lfd st r. fst r = 1 \<and> \<not> accepts_succeed S", OF _ assms])
  fix rec and S :: "'a os" and ep lfd st and r :: "int \<times> 'a echo"
  assume IH: "\<And>S ep lfd st r. rec S ep lfd st = Some r \<Longrightarrow> fst r = 1 \<and> \<not> accepts_succeed S"
    and eq: "(case echo_turn S ep lfd st of Inl e \<Rightarrow> Some e | Inr st \<Rightarrow> rec S ep lfd st) = Some r"
  show "fst r = 1 \<and> \<not> accepts_succeed S"
  proof (cases "echo_turn S ep lfd st")
    case (Inl e)
    then have "e = r" using eq by simp
    then have "fst r = 1" using echo_turn_exit [of S ep lfd st "fst e" "snd e"] Inl by simp
    moreover have "\<not> accepts_succeed S" using echo_turn_goes_on [of S ep lfd st] Inl by auto
    ultimately show ?thesis by simp
  next
    case (Inr st1)
    then show ?thesis using IH eq by simp
  qed
qed

end
