(* ===== verification/Event_Loops.thy ===== *)
theory Event_Loops
  imports Epoll_Server Epoll_Echo Epoll_Set
begin

text \<open>
  The two event loops side by side. A loop waits for a batch of events and handles them one by one, and
  then waits again; the main loop of \<open>server.c\<close> and the endless loop of \<open>epoll.c\<close> are both of that form.
  What they have in common is proved once: both register their listening socket edge-triggered and accept
  one connection for each time it is reported, so that clients that are already waiting can wait for ever.
\<close>

section \<open>Loops over batches of events\<close>

fun loop_rounds ::
    "('p \<Rightarrow> (epoll_event list \<times> 'p) option) \<Rightarrow> (epoll_event \<Rightarrow> 'p \<Rightarrow> 'p option) \<Rightarrow> nat \<Rightarrow> 'p \<Rightarrow> 'p option" where
  "loop_rounds wait handle 0 p = Some p"
| "loop_rounds wait handle (Suc n) p =
     do { (evs, p) \<leftarrow> wait p; p \<leftarrow> run_all handle evs p; loop_rounds wait handle n p }"

text \<open>The server stops at a failed wait.\<close>

definition server_wait :: "'k os \<Rightarrow> fd \<Rightarrow> 'k proc \<Rightarrow> (epoll_event list \<times> 'k proc) option" where
  "server_wait S epollfd p =
     (case do_wait S epollfd MAX_EVENT_NUMBER (-1) p of (Inl e, p) \<Rightarrow> None | (Inr evs, p) \<Rightarrow> Some (evs, p))"

lemma server_rounds_loop:
  "server_rounds n S lfd ep p = loop_rounds (server_wait S ep) (\<lambda>ev p. Some (lt_event S ep lfd ev p)) n p"
proof (induction n arbitrary: p)
  case (Suc n)
  show ?case
    by (cases "do_wait S ep MAX_EVENT_NUMBER (-1) p")
      (auto simp: server_round_def server_wait_def Let_def run_all_total lt_def Suc split: sum.splits)
qed simp

text \<open>The echo server takes a failed wait for no events. The state after a number of turns that did not
  end the program:\<close>

fun echo_turns :: "nat \<Rightarrow> 'k os \<Rightarrow> fd \<Rightarrow> fd \<Rightarrow> 'k echo \<Rightarrow> 'k echo option" where
  "echo_turns 0 S epfd listenfd st = Some st"
| "echo_turns (Suc n) S epfd listenfd st =
     (case echo_turn S epfd listenfd st of Inl e \<Rightarrow> None | Inr st \<Rightarrow> echo_turns n S epfd listenfd st)"

definition echo_wait :: "'k os \<Rightarrow> fd \<Rightarrow> 'k echo \<Rightarrow> (epoll_event list \<times> 'k echo) option" where
  "echo_wait S epfd st =
     (let (ret, p) = do_wait S epfd 20 500 (proc st)
      in Some (case ret of Inl e \<Rightarrow> [] | Inr evs \<Rightarrow> evs, st\<lparr>proc := p\<rparr>))"

lemma run_all_echo_step:
  "run_all (echo_step S ep lfd) evs st = (case echo_batch S ep lfd evs st of Inl e \<Rightarrow> None | Inr st' \<Rightarrow> Some st')"
  by (induction evs arbitrary: st) (auto simp: echo_step_def split: sum.splits)

lemma echo_turns_loop: "echo_turns n S ep lfd st = loop_rounds (echo_wait S ep) (echo_step S ep lfd) n st"
proof (induction n arbitrary: st)
  case (Suc n)
  show ?case
    by (cases "do_wait S ep 20 500 (proc st)")
      (auto simp: echo_turn_def echo_wait_def Let_def run_all_echo_step Suc split: sum.splits)
qed simp

text \<open>The endless loop ends with the status of the first turn that exits, if there is one.\<close>

lemma echo_loop_unfold:
  "echo_loop S ep lfd st = (case echo_turn S ep lfd st of Inl r \<Rightarrow> Some r | Inr st' \<Rightarrow> echo_loop S ep lfd st')"
  by (rule echo_loop.simps)

lemma echo_loop_iff_turns:
  "echo_loop S ep lfd st = Some r \<longleftrightarrow> (\<exists>n st'. echo_turns n S ep lfd st = Some st' \<and> echo_turn S ep lfd st' = Inl r)"
proof
  assume "echo_loop S ep lfd st = Some r"
  then show "\<exists>n st'. echo_turns n S ep lfd st = Some st' \<and> echo_turn S ep lfd st' = Inl r"
  proof (rule echo_loop.raw_induct [where P = "\<lambda>S ep lfd st r. \<exists>n st'. echo_turns n S ep lfd st = Some st'
      \<and> echo_turn S ep lfd st' = Inl r", rotated])
    fix rec :: "'a os \<Rightarrow> fd \<Rightarrow> fd \<Rightarrow> 'a echo \<Rightarrow> (int \<times> 'a echo) option" and S ep lfd st r
    assume IH: "\<And>S ep lfd st r. rec S ep lfd st = Some r \<Longrightarrow>
        \<exists>n st'. echo_turns n S ep lfd st = Some st' \<and> echo_turn S ep lfd st' = Inl r"
      and eq: "(case echo_turn S ep lfd st of Inl e \<Rightarrow> Some e | Inr st \<Rightarrow> rec S ep lfd st) = Some r"
    show "\<exists>n st'. echo_turns n S ep lfd st = Some st' \<and> echo_turn S ep lfd st' = Inl r"
    proof (cases "echo_turn S ep lfd st")
      case (Inl e)
      then show ?thesis using eq by (intro exI [of _ 0] exI [of _ st]) simp
    next
      case (Inr st1)
      then have "rec S ep lfd st1 = Some r" using eq by simp
      from IH [OF this] obtain n st' where "echo_turns n S ep lfd st1 = Some st'" "echo_turn S ep lfd st' = Inl r"
        by blast
      then show ?thesis using Inr by (intro exI [of _ "Suc n"] exI [of _ st']) simp
    qed
  qed
next
  have "echo_turns n S ep lfd st = Some st' \<Longrightarrow> echo_turn S ep lfd st' = Inl r \<Longrightarrow> echo_loop S ep lfd st = Some r" for n st'
  proof (induction n arbitrary: st)
    case 0
    then show ?case using echo_loop_unfold [of S ep lfd st] by simp
  next
    case (Suc n)
    then show ?case using echo_loop_unfold [of S ep lfd st] by (auto split: sum.splits)
  qed
  then show "\<exists>n st'. echo_turns n S ep lfd st = Some st' \<and> echo_turn S ep lfd st' = Inl r \<Longrightarrow> echo_loop S ep lfd st = Some r"
    by blast
qed

lemma echo_turns_Suc_last:
  "echo_turns (Suc n) S ep lfd st = Option.bind (echo_turns n S ep lfd st)
     (\<lambda>st. case echo_turn S ep lfd st of Inl r \<Rightarrow> None | Inr st \<Rightarrow> Some st)"
proof (induction n arbitrary: st)
  case (Suc n)
  show ?case
  proof (cases "echo_turn S ep lfd st")
    case (Inr st1)
    have "echo_turns (Suc (Suc n)) S ep lfd st = echo_turns (Suc n) S ep lfd st1"
      by (simp only: echo_turns.simps(2) [of "Suc n"] Inr sum.case)
    also have "\<dots> = Option.bind (echo_turns n S ep lfd st1)
        (\<lambda>st. case echo_turn S ep lfd st of Inl r \<Rightarrow> None | Inr st \<Rightarrow> Some st)" by (rule Suc.IH)
    finally show ?thesis by (simp add: Inr)
  qed simp
qed (simp split: sum.split)

lemma echo_loop_None_iff: "echo_loop S ep lfd st = None \<longleftrightarrow> (\<forall>n. echo_turns n S ep lfd st \<noteq> None)"
proof
  assume none: "echo_loop S ep lfd st = None"
  show "\<forall>n. echo_turns n S ep lfd st \<noteq> None"
  proof
    fix n show "echo_turns n S ep lfd st \<noteq> None"
    proof (induction n)
      case (Suc n)
      then obtain t where t: "echo_turns n S ep lfd st = Some t" by blast
      have "echo_turn S ep lfd t \<noteq> Inl r" for r using none t echo_loop_iff_turns [of S ep lfd st r] by auto
      then obtain t' where "echo_turn S ep lfd t = Inr t'" by (cases "echo_turn S ep lfd t") auto
      then show ?case by (simp add: echo_turns_Suc_last t del: echo_turns.simps)
    qed simp
  qed
next
  assume all: "\<forall>n. echo_turns n S ep lfd st \<noteq> None"
  show "echo_loop S ep lfd st = None"
  proof (rule ccontr)
    assume "echo_loop S ep lfd st \<noteq> None"
    then obtain n t r where "echo_turns n S ep lfd st = Some t" "echo_turn S ep lfd t = Inl r"
      using echo_loop_iff_turns by fastforce
    then have "echo_turns (Suc n) S ep lfd st = None" by (simp add: echo_turns_Suc_last del: echo_turns.simps)
    then show False using all by blast
  qed
qed

section \<open>Clients that wait to be accepted\<close>

text \<open>
  The contract of a loop with a listening socket \<open>l\<close> while no further client connects. \<open>waiting\<close> is the number of
  clients in the queue of the socket, \<open>edge\<close> says that the socket is still to be reported for them, and \<open>listens\<close>
  that it is registered edge-triggered or not at all, which the loop never changes. A wait then reports it at most
  once, and then not again; handling an event takes at most one client from the queue, and none when the event is
  of another descriptor.
\<close>

locale quiet_listener =
  fixes quiet :: bool
    and wait :: "'p \<Rightarrow> (epoll_event list \<times> 'p) option"
    and handle :: "epoll_event \<Rightarrow> 'p \<Rightarrow> 'p option"
    and l :: fd
    and waiting :: "'p \<Rightarrow> nat"
    and edge :: "'p \<Rightarrow> bool"
    and listens :: "'p \<Rightarrow> bool"
  assumes wait_reports: "quiet \<Longrightarrow> listens p \<Longrightarrow> wait p = Some (evs, p') \<Longrightarrow> listens p' \<and> waiting p' = waiting p
      \<and> count_list (map ev_fd evs) l + of_bool (edge p') \<le> of_bool (edge p)"
    and handle_takes: "quiet \<Longrightarrow> listens p \<Longrightarrow> handle ev p = Some p' \<Longrightarrow> listens p' \<and> edge p' = edge p
      \<and> waiting p' \<le> waiting p \<and> waiting p \<le> waiting p' + of_bool (ev_fd ev = l)"
begin

lemma batch_takes:
  "quiet \<Longrightarrow> listens p \<Longrightarrow> run_all handle evs p = Some p' \<Longrightarrow> listens p' \<and> edge p' = edge p
    \<and> waiting p' \<le> waiting p \<and> waiting p \<le> waiting p' + count_list (map ev_fd evs) l"
proof (induction evs arbitrary: p)
  case (Cons ev evs)
  from Cons.prems(3) obtain q where q: "handle ev p = Some q" "run_all handle evs q = Some p'"
    by (auto simp: bind_Some_iff)
  note first = handle_takes [OF Cons.prems(1,2) q(1)]
  show ?case using first Cons.IH [OF Cons.prems(1) _ q(2)] by auto
qed simp

lemma rounds_take:
  "quiet \<Longrightarrow> listens p \<Longrightarrow> loop_rounds wait handle n p = Some p' \<Longrightarrow>
    waiting p' \<le> waiting p \<and> waiting p + of_bool (edge p') \<le> waiting p' + of_bool (edge p)"
proof (induction n arbitrary: p)
  case (Suc n)
  from Suc.prems(3) obtain evs q r where q: "wait p = Some (evs, q)" "run_all handle evs q = Some r"
    "loop_rounds wait handle n r = Some p'"
    by (auto simp: bind_Some_iff split: prod.splits)
  note w = wait_reports [OF Suc.prems(1,2) q(1)]
  note b = batch_takes [OF Suc.prems(1) conjunct1 [OF w] q(2)]
  show ?case using w b Suc.IH [OF Suc.prems(1) conjunct1 [OF b] q(3)] by auto
qed simp

lemma at_most_one:
  assumes "quiet" and "listens p" and "loop_rounds wait handle n p = Some p'"
  shows "waiting p \<le> waiting p' + 1"
  using rounds_take [OF assms] by (cases "edge p") auto

end

text \<open>What the system documents of the queue of a listening socket: \<open>accept\<close> takes one client, and gives a descriptor
  that is not the socket itself; no other call touches the queue. A socket that is registered edge-triggered is
  reported once if it is still to be reported, and one that is not registered is not; only a registration makes it
  be reported afresh.\<close>

definition edge_only :: "u32 option \<Rightarrow> bool" where
  "edge_only r \<longleftrightarrow> (\<forall>w. r = Some w \<longrightarrow> w AND EPOLLET \<noteq> 0)"

definition quiet_kernel :: "'k os \<Rightarrow> fd \<Rightarrow> fd \<Rightarrow> ('k \<Rightarrow> fd \<Rightarrow> u32 option) \<Rightarrow> ('k \<Rightarrow> nat) \<Rightarrow> ('k \<Rightarrow> bool) \<Rightarrow> bool" where
  "quiet_kernel S ep l interest backlog edge \<longleftrightarrow>
     (\<forall>k. backlog (snd (sys_accept S l k)) = backlog k - 1 \<and> edge (snd (sys_accept S l k)) = edge k
        \<and> fst (sys_accept S l k) \<noteq> l)
   \<and> (\<forall>n t k. backlog (snd (sys_epoll_wait S ep n t k)) = backlog k)
   \<and> (\<forall>n t k. edge_only (interest k l) \<longrightarrow>
        count_list (map ev_fd (case fst (sys_epoll_wait S ep n t k) of Inl e \<Rightarrow> [] | Inr evs \<Rightarrow> evs)) l
            + of_bool (edge (snd (sys_epoll_wait S ep n t k))) \<le> (of_bool (edge k) :: nat))
   \<and> (\<forall>f k. backlog (snd (sys_getfl S f k)) = backlog k \<and> edge (snd (sys_getfl S f k)) = edge k)
   \<and> (\<forall>f v k. backlog (snd (sys_setfl S f v k)) = backlog k \<and> edge (snd (sys_setfl S f v k)) = edge k)
   \<and> (\<forall>c f ev k. backlog (snd (sys_epoll_ctl S ep c f ev k)) = backlog k
        \<and> (f \<noteq> l \<longrightarrow> edge (snd (sys_epoll_ctl S ep c f ev k)) = edge k))
   \<and> (\<forall>f k. f \<noteq> l \<longrightarrow> backlog (snd (sys_close S f k)) = backlog k \<and> edge (snd (sys_close S f k)) = edge k)
   \<and> (\<forall>f n k. backlog (snd (sys_recv S f n k)) = backlog k \<and> edge (snd (sys_recv S f n k)) = edge k)
   \<and> (\<forall>f n k. backlog (snd (sys_read S f n k)) = backlog k \<and> edge (snd (sys_read S f n k)) = edge k)
   \<and> (\<forall>f bs n k. backlog (snd (sys_write S f bs n k)) = backlog k \<and> edge (snd (sys_write S f bs n k)) = edge k)"

lemma quiet_kernelD:
  assumes "quiet_kernel S ep l interest backlog edge"
  shows "backlog (snd (sys_accept S l k)) = backlog k - 1" "edge (snd (sys_accept S l k)) = edge k"
    "fst (sys_accept S l k) \<noteq> l" "backlog (snd (sys_epoll_wait S ep m t k)) = backlog k"
    "edge_only (interest k l) \<Longrightarrow>
       count_list (map ev_fd (case fst (sys_epoll_wait S ep m t k) of Inl e \<Rightarrow> [] | Inr evs \<Rightarrow> evs)) l
       + of_bool (edge (snd (sys_epoll_wait S ep m t k))) \<le> (of_bool (edge k) :: nat)"
    "backlog (snd (sys_getfl S f k)) = backlog k" "edge (snd (sys_getfl S f k)) = edge k"
    "backlog (snd (sys_setfl S f v k)) = backlog k" "edge (snd (sys_setfl S f v k)) = edge k"
    "backlog (snd (sys_epoll_ctl S ep c f ev k)) = backlog k"
    "f \<noteq> l \<Longrightarrow> edge (snd (sys_epoll_ctl S ep c f ev k)) = edge k"
    "f \<noteq> l \<Longrightarrow> backlog (snd (sys_close S f k)) = backlog k" "f \<noteq> l \<Longrightarrow> edge (snd (sys_close S f k)) = edge k"
    "backlog (snd (sys_recv S f m k)) = backlog k" "edge (snd (sys_recv S f m k)) = edge k"
    "backlog (snd (sys_read S f m k)) = backlog k" "edge (snd (sys_read S f m k)) = edge k"
    "backlog (snd (sys_write S f bs w k)) = backlog k" "edge (snd (sys_write S f bs w k)) = edge k"
  using assms by (simp_all add: quiet_kernel_def)

text \<open>The system of both programs, for the listening socket \<open>l\<close> and the epoll set \<open>ep\<close>.\<close>

definition quiet_system :: "'k os \<Rightarrow> fd \<Rightarrow> fd \<Rightarrow> ('k \<Rightarrow> fd \<Rightarrow> u32 option) \<Rightarrow> ('k \<Rightarrow> nat) \<Rightarrow> ('k \<Rightarrow> bool) \<Rightarrow> bool" where
  "quiet_system S ep l interest backlog edge \<longleftrightarrow> epoll_set S ep interest \<and> recv_registers_nothing S interest
     \<and> quiet_kernel S ep l interest backlog edge"

lemma quiet_systemD:
  assumes "quiet_system S ep l interest backlog edge"
  shows "epoll_set S ep interest" "interest (snd (sys_recv S f n k)) = interest k"
    "quiet_kernel S ep l interest backlog edge"
  using assms by (simp_all add: quiet_system_def recv_registers_nothing_def)

text \<open>A registration or change of another descriptor leaves what \<open>l\<close> is registered for.\<close>

lemma ctl_other:
  assumes "epoll_set S ep interest" and "f \<noteq> l"
  shows "interest (snd (sys_epoll_ctl S ep c f ev k)) l = interest k l"
  using epoll_setD(1,2) [OF assms(1), of f ev k] assms(2) by (cases c) auto

lemma addfd_quiet:
  assumes "quiet_system S ep l interest backlog edge" and "f \<noteq> l"
  shows "backlog (kern (addfd S ep f e p)) = backlog (kern p)" "edge (kern (addfd S ep f e p)) = edge (kern p)"
    "interest (kern (addfd S ep f e p)) l = interest (kern p) l"
proof -
  note E = quiet_systemD(1) [OF assms(1)] and Q = quiet_systemD(3) [OF assms(1)]
  show "backlog (kern (addfd S ep f e p)) = backlog (kern p)" "edge (kern (addfd S ep f e p)) = edge (kern p)"
    "interest (kern (addfd S ep f e p)) l = interest (kern p) l"
    using assms(2)
    by (simp_all add: addfd_def setnonblocking_def Let_def case_prod_unfold quiet_kernelD [OF Q] epoll_setD(9,10) [OF E] ctl_other [OF E])
qed

lemma lt_event_quiet:
  assumes "quiet_system S ep l interest backlog edge"
  shows "edge (kern (lt_event S ep l ev p)) = edge (kern p)"
    "backlog (kern (lt_event S ep l ev p)) = backlog (kern p) - of_bool (ev_fd ev = l)"
    "interest (kern (lt_event S ep l ev p)) l = interest (kern p) l"
proof -
  note E = quiet_systemD(1) [OF assms] and R = quiet_systemD(2) [OF assms] and Q = quiet_systemD(3) [OF assms]
  show "edge (kern (lt_event S ep l ev p)) = edge (kern p)"
    "backlog (kern (lt_event S ep l ev p)) = backlog (kern p) - of_bool (ev_fd ev = l)"
    "interest (kern (lt_event S ep l ev p)) l = interest (kern p) l"
    by (auto simp: lt_event_def Let_def case_prod_unfold quiet_kernelD [OF Q] addfd_quiet [OF assms] R epoll_setD(6,8) [OF E]
        split: sum.split)
qed

interpretation server_listener: quiet_listener
  "quiet_system S ep l interest backlog edge" "server_wait S ep" "\<lambda>ev p. Some (lt_event S ep l ev p)" l
  "\<lambda>p. backlog (kern p)" "\<lambda>p. edge (kern p)" "\<lambda>p. edge_only (interest (kern p) l)"
proof unfold_locales
  fix p evs p' assume quiet: "quiet_system S ep l interest backlog edge" and e: "edge_only (interest (kern p) l)"
    and w: "server_wait S ep p = Some (evs, p')"
  then have "fst (sys_epoll_wait S ep MAX_EVENT_NUMBER (-1) (kern p)) = Inr evs"
    "kern p' = snd (sys_epoll_wait S ep MAX_EVENT_NUMBER (-1) (kern p))"
    by (auto simp: server_wait_def do_wait_def Let_def split: prod.splits sum.splits)
  then show "edge_only (interest (kern p') l) \<and> backlog (kern p') = backlog (kern p)
      \<and> count_list (map ev_fd evs) l + of_bool (edge (kern p')) \<le> of_bool (edge (kern p))"
    using quiet_kernelD(4) [OF quiet_systemD(3) [OF quiet], where m = MAX_EVENT_NUMBER and t = "-1" and k = "kern p"]
      quiet_kernelD(5) [OF quiet_systemD(3) [OF quiet] e, where m = MAX_EVENT_NUMBER and t = "-1"]
      epoll_setD(3) [OF quiet_systemD(1) [OF quiet]] e by simp
next
  fix ev and p p' :: "'a proc"
  assume quiet: "quiet_system S ep l interest backlog edge" and "edge_only (interest (kern p) l)"
    and "Some (lt_event S ep l ev p) = Some p'"
  then show "edge_only (interest (kern p') l) \<and> edge (kern p') = edge (kern p) \<and> backlog (kern p') \<le> backlog (kern p)
      \<and> backlog (kern p) \<le> backlog (kern p') + of_bool (ev_fd ev = l)"
    using lt_event_quiet [OF quiet] by auto
qed

text \<open>In the echo server the same calls, with the flags of the new connection set before it is registered.\<close>

lemma echo_setnonblocking_quiet:
  assumes "quiet_system S ep l interest backlog edge" and "echo_setnonblocking S f st = Inr st'"
  shows "backlog (kern (proc st')) = backlog (kern (proc st)) \<and> edge (kern (proc st')) = edge (kern (proc st))
    \<and> interest (kern (proc st')) = interest (kern (proc st))"
  using assms(2)
  by (auto simp: echo_setnonblocking_def exit_with_def Let_def case_prod_unfold quiet_kernelD [OF quiet_systemD(3) [OF assms(1)]]
      epoll_setD(9,10) [OF quiet_systemD(1) [OF assms(1)]] split: if_splits)

lemma on_accept_quiet:
  assumes "quiet_system S ep l interest backlog edge" and "on_accept S ep l st = Inr st'"
  shows "edge (kern (proc st')) = edge (kern (proc st))"
    "backlog (kern (proc st')) = backlog (kern (proc st)) - 1"
    "interest (kern (proc st')) l = interest (kern (proc st)) l"
  using assms(2)
  by (auto simp: on_accept_def exit_with_def Let_def case_prod_unfold quiet_kernelD [OF quiet_systemD(3) [OF assms(1)]]
      epoll_setD(6) [OF quiet_systemD(1) [OF assms(1)]] ctl_other [OF quiet_systemD(1) [OF assms(1)]]
      split: if_splits sum.splits dest!: echo_setnonblocking_quiet [OF assms(1)])

lemma on_readable_quiet:
  assumes "quiet_system S ep l interest backlog edge" and "f \<noteq> l"
  shows "edge (kern (proc (on_readable S ep f st))) = edge (kern (proc st))"
    "backlog (kern (proc (on_readable S ep f st))) = backlog (kern (proc st))"
    "interest (kern (proc (on_readable S ep f st))) l = interest (kern (proc st)) l"
  using assms(2)
  by (simp_all add: on_readable_def Let_def case_prod_unfold quiet_kernelD [OF quiet_systemD(3) [OF assms(1)]]
      epoll_setD(8,11) [OF quiet_systemD(1) [OF assms(1)]] ctl_other [OF quiet_systemD(1) [OF assms(1)]] split: sum.split)

lemma on_writable_quiet:
  assumes "quiet_system S ep l interest backlog edge" and "f \<noteq> l"
  shows "edge (kern (proc (on_writable S ep f st))) = edge (kern (proc st))"
    "backlog (kern (proc (on_writable S ep f st))) = backlog (kern (proc st))"
    "interest (kern (proc (on_writable S ep f st))) l = interest (kern (proc st)) l"
  using assms(2)
  by (simp_all add: on_writable_def Let_def case_prod_unfold quiet_kernelD [OF quiet_systemD(3) [OF assms(1)]]
      epoll_setD(12) [OF quiet_systemD(1) [OF assms(1)]] ctl_other [OF quiet_systemD(1) [OF assms(1)]])

interpretation echo_listener: quiet_listener
  "quiet_system S ep l interest backlog edge" "echo_wait S ep" "echo_step S ep l" l
  "\<lambda>st. backlog (kern (proc st))" "\<lambda>st. edge (kern (proc st))" "\<lambda>st. edge_only (interest (kern (proc st)) l)"
proof unfold_locales
  fix p evs p' assume quiet: "quiet_system S ep l interest backlog edge" and e: "edge_only (interest (kern (proc p)) l)"
    and w: "echo_wait S ep p = Some (evs, p')"
  then have "evs = (case fst (sys_epoll_wait S ep 20 500 (kern (proc p))) of Inl e \<Rightarrow> [] | Inr evs \<Rightarrow> evs)"
    "kern (proc p') = snd (sys_epoll_wait S ep 20 500 (kern (proc p)))"
    by (auto simp: echo_wait_def do_wait_def Let_def split: prod.splits)
  then show "edge_only (interest (kern (proc p')) l) \<and> backlog (kern (proc p')) = backlog (kern (proc p))
      \<and> count_list (map ev_fd evs) l + of_bool (edge (kern (proc p'))) \<le> of_bool (edge (kern (proc p)))"
    using quiet_kernelD(4) [OF quiet_systemD(3) [OF quiet], where m = 20 and t = 500 and k = "kern (proc p)"]
      quiet_kernelD(5) [OF quiet_systemD(3) [OF quiet] e, where m = 20 and t = 500]
      epoll_setD(3) [OF quiet_systemD(1) [OF quiet]] e by simp
next
  fix ev and p p' :: "'a echo"
  assume quiet: "quiet_system S ep l interest backlog edge" and e: "edge_only (interest (kern (proc p)) l)"
    and step: "echo_step S ep l ev p = Some p'"
  from step consider "ev_fd ev = l" "on_accept S ep l p = Inr p'" | "p' = p"
    | "ev_fd ev \<noteq> l" "p' = on_readable S ep (ev_fd ev) p" | "ev_fd ev \<noteq> l" "p' = on_writable S ep (ev_fd ev) p"
    unfolding echo_step_event echo_event_def by (auto split: if_splits)
  then show "edge_only (interest (kern (proc p')) l) \<and> edge (kern (proc p')) = edge (kern (proc p))
      \<and> backlog (kern (proc p')) \<le> backlog (kern (proc p))
      \<and> backlog (kern (proc p)) \<le> backlog (kern (proc p')) + of_bool (ev_fd ev = l)"
    using e by cases (simp_all add: on_accept_quiet [OF quiet] on_readable_quiet [OF quiet] on_writable_quiet [OF quiet])
qed

text \<open>What the two programs register: the listening socket, edge-triggered.\<close>

lemma edge_flags: "(EPOLLIN OR EPOLLET) AND EPOLLET \<noteq> 0" "EPOLLET \<noteq> 0"
  by (simp_all add: EPOLLIN_def EPOLLET_def)

lemma server_ready_listens:
  assumes "quiet_system S ep l interest backlog edge" and "interest (kern p) l = None"
  shows "edge_only (interest (kern (server_ready S l ep p)) l)" "backlog (kern (server_ready S l ep p)) = backlog (kern p)"
proof -
  note E = quiet_systemD(1) [OF assms(1)] and Q = quiet_systemD(3) [OF assms(1)]
  show "edge_only (interest (kern (server_ready S l ep p)) l)"
    using epoll_setD(1) [OF E, of l "\<lparr>ev_events = EPOLLIN OR EPOLLET, ev_fd = l\<rparr>" "kern p"] assms(2)
    by (auto simp: server_ready_def addfd_def setnonblocking_def Let_def case_prod_unfold epoll_setD(9,10) [OF E]
        edge_only_def edge_flags)
  show "backlog (kern (server_ready S l ep p)) = backlog (kern p)"
    by (simp add: server_ready_def addfd_def setnonblocking_def Let_def case_prod_unfold quiet_kernelD(6,8,10) [OF Q])
qed

lemma echo_ready_listens:
  assumes "quiet_system S ep l interest backlog edge" and "interest (kern (proc st)) l = None"
  shows "edge_only (interest (kern (proc (echo_ready S ep l st))) l)"
    "backlog (kern (proc (echo_ready S ep l st))) = backlog (kern (proc st))"
proof -
  note E = quiet_systemD(1) [OF assms(1)] and Q = quiet_systemD(3) [OF assms(1)]
  show "edge_only (interest (kern (proc (echo_ready S ep l st))) l)"
    using epoll_setD(1) [OF E, of l "\<lparr>ev_events = EPOLLIN OR EPOLLET, ev_fd = l\<rparr>" "kern (proc st)"] assms(2)
    by (auto simp: echo_ready_def edge_only_def edge_flags)
  show "backlog (kern (proc (echo_ready S ep l st))) = backlog (kern (proc st))"
    by (simp add: echo_ready_def quiet_kernelD(10) [OF Q])
qed

text \<open>C12: both servers leave clients waiting: if no further client connects, then of those that are in the queue
  of the listening socket when the program registers it at most one is ever accepted, over any number of rounds
  of the one server or turns of the other. Each registers its socket edge-triggered, so that it is
  reported once, and answers each report by a single \<open>accept\<close>.\<close>

theorem waiting_clients_starve:
  assumes "quiet_system S epollfd listenfd interest backlog edge"
  shows "(interest (kern p) listenfd = None \<longrightarrow>
      server_rounds n S listenfd epollfd (server_ready S listenfd epollfd p) = Some q \<longrightarrow>
      backlog (kern p) \<le> backlog (kern q) + 1)
    \<and> (interest (kern (proc st)) listenfd = None \<longrightarrow>
      echo_turns n S epollfd listenfd (echo_ready S epollfd listenfd st) = Some st' \<longrightarrow>
      backlog (kern (proc st)) \<le> backlog (kern (proc st')) + 1)"
  using server_listener.at_most_one [OF assms server_ready_listens(1) [OF assms], of p n q]
    echo_listener.at_most_one [OF assms echo_ready_listens(1) [OF assms], of st n st']
  by (auto simp: server_rounds_loop echo_turns_loop server_ready_listens(2) [OF assms] echo_ready_listens(2) [OF assms])

text \<open>A kernel with a number of clients in the queue of descriptor 3, whether they are still to be reported, and
  what is registered. A socket registered without \<open>EPOLLET\<close> is reported as long as clients wait.\<close>

record queue_state =
  q_clients :: nat
  q_edge :: bool
  q_interest :: "fd \<Rightarrow> u32 option"

definition queue_ctl :: "fd \<Rightarrow> ctl_op \<Rightarrow> fd \<Rightarrow> epoll_event \<Rightarrow> queue_state \<Rightarrow> int \<times> queue_state" where
  "queue_ctl ep c f ev k =
     (if (q_interest k f = None) = (c = CTL_ADD)
      then (0, k\<lparr>q_interest := (q_interest k)(f \<mapsto> ev_events ev), q_edge := if f = 3 then q_clients k \<noteq> 0 else q_edge k\<rparr>)
      else (-1, k))"

definition queue_wait :: "fd \<Rightarrow> nat \<Rightarrow> int \<Rightarrow> queue_state \<Rightarrow> (errno + epoll_event list) \<times> queue_state" where
  "queue_wait ep n t k =
     (let ready = (case q_interest k 3 of None \<Rightarrow> False
        | Some w \<Rightarrow> w AND EPOLLIN \<noteq> 0 \<and> (if w AND EPOLLET = 0 then q_clients k \<noteq> 0 else q_edge k))
      in (Inr (if ready then [\<lparr>ev_events = EPOLLIN, ev_fd = 3\<rparr>] else []), k\<lparr>q_edge := \<not> ready \<and> q_edge k\<rparr>))"

definition queue_os :: "queue_state os" where
  "queue_os = \<lparr>
     sys_getfl = (\<lambda>f k. (2, k)), sys_setfl = (\<lambda>f v k. (0, k)), sys_epoll_ctl = queue_ctl, sys_epoll_wait = queue_wait,
     sys_accept = (\<lambda>f k. (if q_clients k = 0 \<or> q_interest k 5 \<noteq> None then -1 else 5, k\<lparr>q_clients := q_clients k - 1\<rparr>)),
     sys_recv = (\<lambda>f n k. (Inl EAGAIN, k)), sys_read = (\<lambda>f n k. (Inl EAGAIN, k)), sys_write = (\<lambda>f bs n k. (0, k)),
     sys_close = (\<lambda>f k. (0, k\<lparr>q_interest := (q_interest k)(f := None)\<rparr>)) \<rparr>"

lemma queue_os_quiet: "quiet_system queue_os 4 3 q_interest q_clients q_edge"
  unfolding quiet_system_def
proof (intro conjI)
  show "epoll_set queue_os 4 q_interest"
    unfolding epoll_set_def
    by (intro conjI) (auto simp: queue_os_def queue_ctl_def queue_wait_def Let_def reportable_def EPOLLIN_def EPOLLOUT_def split: option.splits)
  show "quiet_kernel queue_os 4 3 q_interest q_clients q_edge"
    unfolding quiet_kernel_def
    by (intro conjI) (auto simp: queue_os_def queue_ctl_def queue_wait_def Let_def edge_only_def split: option.splits)
qed (simp add: recv_registers_nothing_def queue_os_def)

definition sample_queue :: queue_state where
  "sample_queue = \<lparr>q_clients = 2, q_edge = False, q_interest = (\<lambda>_. None)\<rparr>"

theorem waiting_clients_starve_witness:
  "\<exists>q st'. server_rounds 3 queue_os 3 4 (server_ready queue_os 3 4 \<lparr>kern = sample_queue, trace = []\<rparr>) = Some q
    \<and> 1 \<le> q_clients (kern q)
    \<and> echo_turns 3 queue_os 4 3 (echo_ready queue_os 4 3
        \<lparr>proc = \<lparr>kern = sample_queue, trace = []\<rparr>, line = [], n_read = 0\<rparr>) = Some st'
    \<and> 1 \<le> q_clients (kern (proc st'))"
proof -
  let ?p = "\<lparr>kern = sample_queue, trace = []\<rparr>"
  let ?st = "\<lparr>proc = ?p, line = [], n_read = 0\<rparr>"
  note eval = numeral_3_eq_3 server_round_def lt_def lt_event_def server_ready_def addfd_def setnonblocking_def do_getfl_def
    do_setfl_def do_ctl_def do_wait_def do_accept_def log_call_def queue_os_def queue_ctl_def queue_wait_def sample_queue_def
    EPOLLIN_def EPOLLET_def
  obtain q where q: "server_rounds 3 queue_os 3 4 (server_ready queue_os 3 4 ?p) = Some q"
    by (simp add: eval)
  obtain st' where st': "echo_turns 3 queue_os 4 3 (echo_ready queue_os 4 3 ?st) = Some st'"
    by (simp add: eval echo_ready_def register_def on_proc_def echo_turn_def echo_event_def on_accept_def
        echo_setnonblocking_def say_def word_sless_alt)
  have none: "q_interest (kern ?p) 3 = None" "q_clients (kern ?p) = 2" by (simp_all add: sample_queue_def)
  show ?thesis
    using q st' none waiting_clients_starve [OF queue_os_quiet, of ?p 3 q ?st st'] by auto
qed

end
