(* ===== verification/Echo_Protocol.thy ===== *)
theory Echo_Protocol
  imports Event_Loops
begin

text \<open>
  The order of the calls that the echo server of \<open>epoll.c\<close> makes on each connection. A connection is
  registered, then read and written in turn, and it is closed only right after a read. The program keeps no
  state per connection: the order is kept by what each connection is registered for in the epoll set, and
  so holds for any interleaving of any number of connections. It is what makes the count \<open>n\<close> and the
  buffer \<open>line\<close>, which start uninitialised, safe to use.
\<close>

section \<open>The protocol of a connection\<close>

datatype phase = Ended | To_read | To_write

fun phase_step :: "fd \<Rightarrow> action \<Rightarrow> phase \<Rightarrow> phase option" where
  "phase_step f (Ctl ep CTL_ADD g ev) ph = Some (if g = f then To_read else ph)"
| "phase_step f (Read g n) ph =
     (if g \<noteq> f then Some ph else if ph = To_read then Some To_write else None)"
| "phase_step f (Write g bs c) ph =
     (if g \<noteq> f then Some ph else if ph = To_write then Some To_read else None)"
| "phase_step f (Close g) ph =
     (if g \<noteq> f then Some ph else if ph = To_write then Some Ended else None)"
| "phase_step f a ph = Some ph"

text \<open>The phase that the calls of a trace leave a descriptor in, or \<open>None\<close> when they break the protocol.\<close>

definition protocol :: "fd \<Rightarrow> action list \<Rightarrow> phase option" where
  "protocol f as = run_all (phase_step f) as Ended"

lemma protocol_append: "protocol f (as @ bs) = do { ph \<leftarrow> protocol f as; run_all (phase_step f) bs ph }"
  by (simp add: protocol_def run_all_append)

lemma To_write_after_Read:
  "run_all (phase_step f) as ph = Some To_write \<Longrightarrow> ph \<noteq> To_write \<Longrightarrow> \<exists>n. Read f n \<in> set as"
proof (induction as arbitrary: ph)
  case (Cons a as)
  then obtain ph1 where ph1: "phase_step f a ph = Some ph1" "run_all (phase_step f) as ph1 = Some To_write"
    by (auto simp: bind_Some_iff)
  show ?case
  proof (cases "ph1 = To_write")
    case True
    then have "\<exists>n. a = Read f n" using ph1(1) Cons.prems(2)
      by (cases "(f, a, ph)" rule: phase_step.cases) (auto split: if_splits)
    then show ?thesis by auto
  qed (use Cons.IH [OF ph1(2)] in auto)
qed simp

section \<open>What one event does to a connection\<close>

text \<open>The bytes a read stores leave the trace as it is; a read is followed by a close, a message or nothing.\<close>

lemma on_readable_past:
  "\<exists>as. past (on_readable S ep f st) = past st @ Read f MAXLINE # as @ [Ctl ep CTL_MOD f (EPOLLOUT OR EPOLLET)]
    \<and> as \<in> {[], [Close f], [Print (Line ''readline error'')]}
    \<and> kern (proc (on_readable S ep f st)) = snd (sys_epoll_ctl S ep CTL_MOD f \<lparr>ev_events = EPOLLOUT OR EPOLLET, ev_fd = f\<rparr>
        (if as = [Close f] then snd (sys_close S f (snd (sys_read S f MAXLINE (kern (proc st)))))
         else snd (sys_read S f MAXLINE (kern (proc st)))))"
  by (auto simp: on_readable_def Let_def case_prod_unfold split: sum.split)

lemma on_accept_past:
  assumes "on_accept S ep l st = Inr st'"
  shows "\<exists>v k. 0 \<le> fst (sys_accept S l (kern (proc st))) \<and> past st' = past st @ [Accept l, Getfl (fst (sys_accept S l (kern (proc st)))),
        Setfl (fst (sys_accept S l (kern (proc st)))) v, Print (Line ''connect from''),
        Ctl ep CTL_ADD (fst (sys_accept S l (kern (proc st)))) (EPOLLIN OR EPOLLET)]
    \<and> k = snd (sys_setfl S (fst (sys_accept S l (kern (proc st)))) v
        (snd (sys_getfl S (fst (sys_accept S l (kern (proc st)))) (snd (sys_accept S l (kern (proc st)))))))
    \<and> kern (proc st') = snd (sys_epoll_ctl S ep CTL_ADD (fst (sys_accept S l (kern (proc st))))
        \<lparr>ev_events = EPOLLIN OR EPOLLET, ev_fd = fst (sys_accept S l (kern (proc st)))\<rparr> k)"
  using assms
  by (auto simp: on_accept_def echo_setnonblocking_def exit_with_def Let_def case_prod_unfold split: if_splits)

text \<open>Every descriptor follows the protocol, and what it is registered for fits its phase: input while it is to be
  read, output while it is to be written.\<close>

definition fits :: "phase \<Rightarrow> u32 option \<Rightarrow> bool" where
  "fits ph r \<longleftrightarrow> (case r of None \<Rightarrow> ph \<noteq> To_write
     | Some w \<Rightarrow> ph = To_read \<and> w AND EPOLLIN \<noteq> 0 \<and> w AND EPOLLOUT = 0
         \<or> ph = To_write \<and> w AND EPOLLOUT \<noteq> 0 \<and> w AND EPOLLIN = 0)"

lemma fits_simps [simp]:
  "fits ph None \<longleftrightarrow> ph \<noteq> To_write"
  "fits ph (Some w) \<longleftrightarrow> ph = To_read \<and> w AND EPOLLIN \<noteq> 0 \<and> w AND EPOLLOUT = 0
     \<or> ph = To_write \<and> w AND EPOLLOUT \<noteq> 0 \<and> w AND EPOLLIN = 0"
  by (simp_all add: fits_def)

definition in_phase :: "('k \<Rightarrow> fd \<Rightarrow> u32 option) \<Rightarrow> 'k echo \<Rightarrow> bool" where
  "in_phase interest st \<longleftrightarrow>
     (\<forall>f. \<exists>ph. protocol f (past st) = Some ph \<and> fits ph (interest (kern (proc st)) f))"

lemma event_bits:
  "(EPOLLIN OR EPOLLET) AND EPOLLOUT = 0" "(EPOLLOUT OR EPOLLET) AND EPOLLIN = 0"
  "(EPOLLIN OR EPOLLET) AND EPOLLIN \<noteq> 0" "(EPOLLOUT OR EPOLLET) AND EPOLLOUT \<noteq> 0"
  "EPOLLIN \<noteq> 0" "EPOLLOUT \<noteq> 0"
  by (simp_all add: EPOLLIN_def EPOLLOUT_def EPOLLET_def)

lemma in_phase_accept:
  assumes E: "epoll_set S ep interest" and inv: "in_phase interest st" and acc: "on_accept S ep l st = Inr st'"
  shows "in_phase interest st'"
    and "interest (kern (proc st)) f \<noteq> None \<Longrightarrow> interest (kern (proc st')) f = interest (kern (proc st)) f"
proof -
  let ?c = "fst (sys_accept S l (kern (proc st)))"
  obtain v where c: "0 \<le> ?c" and past: "past st' = past st @ [Accept l, Getfl ?c, Setfl ?c v, Print (Line ''connect from''),
      Ctl ep CTL_ADD ?c (EPOLLIN OR EPOLLET)]"
    and kern: "kern (proc st') = snd (sys_epoll_ctl S ep CTL_ADD ?c \<lparr>ev_events = EPOLLIN OR EPOLLET, ev_fd = ?c\<rparr>
        (snd (sys_setfl S ?c v (snd (sys_getfl S ?c (snd (sys_accept S l (kern (proc st)))))))))"
    using on_accept_past [OF acc] by blast
  have new: "interest (kern (proc st)) ?c = None" by (rule epoll_setD(7) [OF E c])
  have int: "interest (kern (proc st')) = interest (kern (proc st))
      \<or> interest (kern (proc st')) = (interest (kern (proc st)))(?c \<mapsto> (EPOLLIN OR EPOLLET))"
    using epoll_setD(1) [OF E, where f = ?c and ev = "\<lparr>ev_events = EPOLLIN OR EPOLLET, ev_fd = ?c\<rparr>"
        and k = "snd (sys_setfl S ?c v (snd (sys_getfl S ?c (snd (sys_accept S l (kern (proc st)))))))"]
    by (auto simp: kern epoll_setD(6,9,10) [OF E])
  show "interest (kern (proc st)) f \<noteq> None \<Longrightarrow> interest (kern (proc st')) f = interest (kern (proc st)) f"
    using int new by auto
  show "in_phase interest st'" unfolding in_phase_def
  proof
    fix f
    obtain ph where ph: "protocol f (past st) = Some ph" and fit: "fits ph (interest (kern (proc st)) f)"
      using inv unfolding in_phase_def by blast
    show "\<exists>ph. protocol f (past st') = Some ph
        \<and> fits ph (interest (kern (proc st')) f)"
      using int new fit by (auto simp: past protocol_append ph event_bits)
  qed
qed

lemma in_phase_readable:
  assumes E: "epoll_set S ep interest" and inv: "in_phase interest st"
    and w: "interest (kern (proc st)) g = Some w" "w AND EPOLLIN \<noteq> 0"
  shows "in_phase interest (on_readable S ep g st)"
    and "f \<noteq> g \<Longrightarrow> interest (kern (proc (on_readable S ep g st))) f = interest (kern (proc st)) f"
proof -
  obtain as where past: "past (on_readable S ep g st) = past st @ Read g MAXLINE # as @ [Ctl ep CTL_MOD g (EPOLLOUT OR EPOLLET)]"
    and as: "as \<in> {[], [Close g], [Print (Line ''readline error'')]}"
    and kern: "kern (proc (on_readable S ep g st)) = snd (sys_epoll_ctl S ep CTL_MOD g \<lparr>ev_events = EPOLLOUT OR EPOLLET, ev_fd = g\<rparr>
        (if as = [Close g] then snd (sys_close S g (snd (sys_read S g MAXLINE (kern (proc st)))))
         else snd (sys_read S g MAXLINE (kern (proc st)))))"
    using on_readable_past [of S ep g st] by blast
  have int: "interest (kern (proc (on_readable S ep g st))) =
      (interest (kern (proc st)))(g := if as = [Close g] then None else Some (EPOLLOUT OR EPOLLET))"
    by (simp add: kern epoll_setD(2,8,11) [OF E] w(1) fun_upd_idem)
  show "f \<noteq> g \<Longrightarrow> interest (kern (proc (on_readable S ep g st))) f = interest (kern (proc st)) f"
    by (simp add: int)
  show "in_phase interest (on_readable S ep g st)" unfolding in_phase_def
  proof
    fix f
    obtain ph where ph: "protocol f (past st) = Some ph" and fit: "fits ph (interest (kern (proc st)) f)"
      using inv unfolding in_phase_def by blast
    show "\<exists>ph. protocol f (past (on_readable S ep g st)) = Some ph
        \<and> fits ph (interest (kern (proc (on_readable S ep g st))) f)"
    proof (cases "f = g")
      case True
      then have "ph = To_read" using fit w by simp
      then show ?thesis using as ph by (auto simp: past protocol_append int event_bits True)
    next
      case False
      then show ?thesis using as fit by (auto simp: past protocol_append ph int)
    qed
  qed
qed

lemma in_phase_writable:
  assumes E: "epoll_set S ep interest" and inv: "in_phase interest st"
    and w: "interest (kern (proc st)) g = Some w" "w AND EPOLLOUT \<noteq> 0"
  shows "in_phase interest (on_writable S ep g st)" and "protocol g (past st) = Some To_write"
    and "f \<noteq> g \<Longrightarrow> interest (kern (proc (on_writable S ep g st))) f = interest (kern (proc st)) f"
proof -
  have int: "interest (kern (proc (on_writable S ep g st))) = (interest (kern (proc st)))(g \<mapsto> (EPOLLIN OR EPOLLET))"
    by (simp add: on_writable_def Let_def case_prod_unfold epoll_setD(2,12) [OF E] w(1))
  show "f \<noteq> g \<Longrightarrow> interest (kern (proc (on_writable S ep g st))) f = interest (kern (proc st)) f"
    by (simp add: int)
  show g: "protocol g (past st) = Some To_write" using inv w unfolding in_phase_def by (metis fits_simps(2))
  show "in_phase interest (on_writable S ep g st)" unfolding in_phase_def
  proof
    fix f
    obtain ph where ph: "protocol f (past st) = Some ph" and fit: "fits ph (interest (kern (proc st)) f)"
      using inv unfolding in_phase_def by blast
    show "\<exists>ph. protocol f (past (on_writable S ep g st)) = Some ph
        \<and> fits ph (interest (kern (proc (on_writable S ep g st))) f)"
      using g fit by (cases "f = g") (auto simp: on_writable_simps protocol_append ph int event_bits)
  qed
qed

section \<open>Invariants of whole runs\<close>

lemma reported_event_cases:
  assumes "reportable ev (interest k (ev_fd ev))" and "echo_event S ep lfd ev st = Inr st'"
  obtains (accept) "on_accept S ep lfd st = Inr st'" | (idle) "st' = st"
  | (readable) w where "interest k (ev_fd ev) = Some w" "w AND EPOLLIN \<noteq> 0" "st' = on_readable S ep (ev_fd ev) st"
  | (writable) w where "interest k (ev_fd ev) = Some w" "w AND EPOLLOUT \<noteq> 0" "st' = on_writable S ep (ev_fd ev) st"
proof -
  obtain w where w: "interest k (ev_fd ev) = Some w"
    and bits: "ev_events ev AND EPOLLIN \<noteq> 0 \<Longrightarrow> w AND EPOLLIN \<noteq> 0" "ev_events ev AND EPOLLOUT \<noteq> 0 \<Longrightarrow> w AND EPOLLOUT \<noteq> 0"
    using assms(1) unfolding reportable_def by (cases "interest k (ev_fd ev)") simp_all
  show thesis
  proof (cases "ev_fd ev = lfd")
    case True
    then show thesis using assms(2) accept by (simp add: echo_event_def)
  next
    case conn: False
    show thesis
    proof (cases "ev_events ev AND EPOLLIN = 0")
      case False
      then have "st' = on_readable S ep (ev_fd ev) st \<or> st' = st"
        using assms(2) conn by (simp add: echo_event_def split: if_splits)
      then show thesis using readable [OF w bits(1) [OF False]] idle by blast
    next
      case True
      then show thesis
      proof (cases "ev_events ev AND EPOLLOUT = 0")
        case False
        then have "st' = on_writable S ep (ev_fd ev) st"
          using assms(2) conn True by (simp add: echo_event_def)
        then show thesis by (rule writable [OF w bits(2) [OF False]])
      qed (use assms(2) conn idle in \<open>simp add: echo_event_def\<close>)
    qed
  qed
qed

lemma event_in_phase:
  assumes E: "epoll_set S ep interest" and inv: "in_phase interest st"
    and ev: "reportable ev (interest (kern (proc st)) (ev_fd ev))" and step: "echo_event S ep lfd ev st = Inr st'"
  shows "in_phase interest st'"
    and "f \<noteq> ev_fd ev \<Longrightarrow> interest (kern (proc st)) f \<noteq> None \<Longrightarrow>
      interest (kern (proc st')) f = interest (kern (proc st)) f"
proof -
  have "in_phase interest st' \<and> (f \<noteq> ev_fd ev \<longrightarrow> interest (kern (proc st)) f \<noteq> None \<longrightarrow>
      interest (kern (proc st')) f = interest (kern (proc st)) f)"
    using ev step
  proof (cases rule: reported_event_cases)
    case accept
    then show ?thesis using in_phase_accept [OF E inv] by blast
  next
    case idle
    then show ?thesis using inv by simp
  next
    case (readable w)
    then show ?thesis using in_phase_readable [OF E inv] by blast
  next
    case (writable w)
    then show ?thesis using in_phase_writable [OF E inv] by blast
  qed
  then show "in_phase interest st'" and "f \<noteq> ev_fd ev \<Longrightarrow> interest (kern (proc st)) f \<noteq> None \<Longrightarrow>
      interest (kern (proc st')) f = interest (kern (proc st)) f" by blast+
qed

text \<open>A batch that ends the program does so in an accept, after the events before it have been handled.\<close>

lemma batch_exits:
  "echo_batch S ep lfd evs st = Inl r \<Longrightarrow>
    \<exists>us ev vs u. evs = us @ ev # vs \<and> echo_batch S ep lfd us st = Inr u \<and> on_accept S ep lfd u = Inl r"
proof (induction evs arbitrary: st)
  case (Cons ev evs)
  show ?case
  proof (cases "echo_event S ep lfd ev st")
    case (Inl e)
    then have "on_accept S ep lfd st = Inl r" using Cons.prems by (auto simp: echo_event_def split: if_splits)
    then show ?thesis by (intro exI [of _ "[]"] exI [of _ ev] exI [of _ evs] exI [of _ st]) simp
  next
    case (Inr st1)
    then obtain us ev' vs u where "evs = us @ ev' # vs" "echo_batch S ep lfd us st1 = Inr u" "on_accept S ep lfd u = Inl r"
      using Cons.IH [of st1] Cons.prems by auto
    then show ?thesis using Inr by (intro exI [of _ "ev # us"] exI) auto
  qed
qed simp

text \<open>A property of the state that waiting keeps, and handling any event that can be reported while every
  connection is in its phase, holds throughout a run.\<close>

locale turn_invariant =
  fixes ok :: bool
    and S :: "'k os" and ep lfd :: fd
    and interest :: "'k \<Rightarrow> fd \<Rightarrow> u32 option"
    and holds :: "'k echo \<Rightarrow> bool"
  assumes ok_epoll: "ok \<Longrightarrow> epoll_set S ep interest"
    and wait_holds: "ok \<Longrightarrow> holds st \<Longrightarrow> holds (st\<lparr>proc := snd (do_wait S ep 20 500 (proc st))\<rparr>)"
    and event_holds: "ok \<Longrightarrow> in_phase interest st \<Longrightarrow> holds st \<Longrightarrow>
      reportable ev (interest (kern (proc st)) (ev_fd ev)) \<Longrightarrow> echo_event S ep lfd ev st = Inr st' \<Longrightarrow> holds st'"
begin

lemma batch_holds:
  "ok \<Longrightarrow> in_phase interest st \<Longrightarrow> holds st \<Longrightarrow> distinct (map ev_fd evs) \<Longrightarrow>
   (\<And>ev. ev \<in> set evs \<Longrightarrow> reportable ev (interest (kern (proc st)) (ev_fd ev))) \<Longrightarrow>
   echo_batch S ep lfd evs st = Inr st' \<Longrightarrow> in_phase interest st' \<and> holds st'"
proof (induction evs arbitrary: st)
  case (Cons ev evs)
  from Cons.prems(6) obtain st1 where st1: "echo_event S ep lfd ev st = Inr st1" "echo_batch S ep lfd evs st1 = Inr st'"
    by (auto split: sum.splits)
  note rep = Cons.prems(5)
  have ev: "reportable ev (interest (kern (proc st)) (ev_fd ev))" by (rule rep) simp
  note step = event_in_phase [OF ok_epoll [OF Cons.prems(1)] Cons.prems(2) ev st1(1)]
  have "reportable e (interest (kern (proc st1)) (ev_fd e))" if "e \<in> set evs" for e
  proof -
    have "reportable e (interest (kern (proc st)) (ev_fd e))" using rep that by simp
    moreover have "ev_fd e \<noteq> ev_fd ev" using Cons.prems(4) that by (metis distinct.simps(2) imageI list.set_map list.simps(9))
    ultimately show ?thesis using step(2) by (auto simp: reportable_def split: option.splits)
  qed
  then show ?case
    using Cons.IH [OF Cons.prems(1) step(1) event_holds [OF Cons.prems(1-3) ev st1(1)]] Cons.prems(4) st1(2) by simp
qed simp

text \<open>The state after a wait, and what the wait reports.\<close>

lemma after_wait:
  assumes "ok" and "in_phase interest st" and "holds st"
  defines "w \<equiv> st\<lparr>proc := snd (do_wait S ep 20 500 (proc st))\<rparr>"
  shows "in_phase interest w \<and> holds w"
    and "fst (sys_epoll_wait S ep 20 500 (kern (proc st))) = Inr evs \<Longrightarrow>
      distinct (map ev_fd evs) \<and> (\<forall>ev\<in>set evs. reportable ev (interest (kern (proc w)) (ev_fd ev)))"
proof -
  note E = ok_epoll [OF assms(1)]
  show "in_phase interest w \<and> holds w"
    using assms(2) wait_holds [OF assms(1,3)] by (simp add: w_def in_phase_def protocol_append epoll_setD(3) [OF E])
  assume evs: "fst (sys_epoll_wait S ep 20 500 (kern (proc st))) = Inr evs"
  show "distinct (map ev_fd evs) \<and> (\<forall>ev\<in>set evs. reportable ev (interest (kern (proc w)) (ev_fd ev)))"
    using epoll_setD(4,5) [OF E evs] by (simp add: w_def epoll_setD(3) [OF E])
qed

lemma turns_hold:
  "ok \<Longrightarrow> in_phase interest st \<Longrightarrow> holds st \<Longrightarrow> echo_turns n S ep lfd st = Some st' \<Longrightarrow>
    in_phase interest st' \<and> holds st'"
proof (induction n arbitrary: st)
  case (Suc n)
  note w = after_wait [OF Suc.prems(1-3)]
  from Suc.prems(4) obtain st1 where st1: "echo_turn S ep lfd st = Inr st1" "echo_turns n S ep lfd st1 = Some st'"
    by (auto split: sum.splits)
  have "in_phase interest st1 \<and> holds st1"
  proof (cases "fst (sys_epoll_wait S ep 20 500 (kern (proc st)))")
    case (Inl e)
    then show ?thesis using w(1) st1(1) by (auto simp: echo_turn_def Let_def case_prod_unfold)
  next
    case (Inr evs)
    then have "echo_batch S ep lfd evs (st\<lparr>proc := snd (do_wait S ep 20 500 (proc st))\<rparr>) = Inr st1"
      using st1(1) by (simp add: echo_turn_def Let_def case_prod_unfold)
    then show ?thesis using batch_holds [OF Suc.prems(1)] w(1) w(2) [OF Inr] by blast
  qed
  then show ?case using Suc.IH Suc.prems(1) st1(2) by blast
qed simp

text \<open>The program ends in an accept, in a state where the property still holds.\<close>

lemma loop_exit_holds:
  assumes "ok" and "in_phase interest st" and "holds st" and "echo_loop S ep lfd st = Some r"
  obtains u where "in_phase interest u" "holds u" "on_accept S ep lfd u = Inl r"
proof -
  obtain n t where t: "echo_turns n S ep lfd st = Some t" "echo_turn S ep lfd t = Inl r"
    using assms(4) unfolding echo_loop_iff_turns by blast
  have "in_phase interest t" "holds t" using turns_hold [OF assms(1-3) t(1)] by simp_all
  note w = after_wait [OF assms(1) this]
  obtain evs where evs: "fst (sys_epoll_wait S ep 20 500 (kern (proc t))) = Inr evs"
    "echo_batch S ep lfd evs (t\<lparr>proc := snd (do_wait S ep 20 500 (proc t))\<rparr>) = Inl r"
    using t(2) by (auto simp: echo_turn_def Let_def case_prod_unfold split: sum.splits)
  obtain us ev vs u where split: "evs = us @ ev # vs"
    and u: "echo_batch S ep lfd us (t\<lparr>proc := snd (do_wait S ep 20 500 (proc t))\<rparr>) = Inr u" "on_accept S ep lfd u = Inl r"
    using batch_exits [OF evs(2)] by blast
  have "in_phase interest u \<and> holds u"
    using batch_holds [OF assms(1) _ _ _ _ u(1)] w(1) w(2) [OF evs(1)] split by simp
  then show thesis using that u(2) by blast
qed

end

interpretation echo_phases: turn_invariant "epoll_set S ep interest" S ep lfd interest "\<lambda>_. True"
  by unfold_locales auto

lemma ready_in_phase:
  assumes "epoll_set S ep interest" and "interest (kern (proc st)) = (\<lambda>_. None)" and "past st = [Getfl lfd, Setfl lfd v]"
  shows "in_phase interest (echo_ready S ep lfd st)"
  unfolding in_phase_def
proof
  fix f
  have "interest (kern (proc (echo_ready S ep lfd st))) = (\<lambda>_. None)
      \<or> interest (kern (proc (echo_ready S ep lfd st))) = [lfd \<mapsto> (EPOLLIN OR EPOLLET)]"
    using epoll_setD(1) [OF assms(1), where f = lfd and ev = "\<lparr>ev_events = EPOLLIN OR EPOLLET, ev_fd = lfd\<rparr>"
        and k = "kern (proc st)"] assms(2) by (simp add: echo_ready_def)
  then show "\<exists>ph. protocol f (past (echo_ready S ep lfd st)) = Some ph
        \<and> fits ph (interest (kern (proc (echo_ready S ep lfd st))) f)"
    by (auto simp: echo_ready_def assms(3) protocol_def event_bits)
qed

section \<open>The buffer\<close>

text \<open>From the first read on the count is that of a read, and no write comes before it.\<close>

definition count_ok :: "'k echo \<Rightarrow> bool" where
  "count_ok st \<longleftrightarrow> length (line st) = MAXLINE
     \<and> ((\<exists>f n. Read f n \<in> set (past st)) \<longrightarrow> 0 \<le> n_read st \<and> n_read st \<le> int MAXLINE)
     \<and> (\<forall>a\<in>set (past st). write_ok a)"

lemma on_readable_count:
  assumes "reads_succeed S" and "count_ok st"
  shows "count_ok (on_readable S ep f st)"
proof -
  obtain bs where "fst (sys_read S f MAXLINE (kern (proc st))) = Inr bs" "length bs \<le> MAXLINE"
    using assms(1) unfolding reads_succeed_def by blast
  then show ?thesis using assms(2) by (auto simp: count_ok_def on_readable_ok)
qed

lemma on_accept_count: "count_ok st \<Longrightarrow> on_accept S ep l st = Inr st' \<Longrightarrow> count_ok st'"
  using on_accept_Inr [of S ep l st st'] on_accept_past [of S ep l st st'] unfolding count_ok_def by fastforce

lemma on_writable_count:
  assumes "count_ok st" and "protocol g (past st) = Some To_write"
  shows "count_ok (on_writable S ep g st)" and "0 \<le> n_read st \<and> n_read st \<le> int MAXLINE"
proof -
  have "\<exists>n. Read g n \<in> set (past st)" using assms(2) unfolding protocol_def by (rule To_write_after_Read) simp
  then show "0 \<le> n_read st \<and> n_read st \<le> int MAXLINE" using assms(1) by (auto simp: count_ok_def)
  then show "count_ok (on_writable S ep g st)" using assms(1) by (auto simp: count_ok_def on_writable_simps unat_count)
qed

interpretation echo_counts: turn_invariant "epoll_set S ep interest \<and> reads_succeed S" S ep lfd interest count_ok
proof unfold_locales
  fix st st' :: "'a echo" and ev
  assume ok: "epoll_set S ep interest \<and> reads_succeed S" and inv: "in_phase interest st" and st: "count_ok st"
    and ev: "reportable ev (interest (kern (proc st)) (ev_fd ev))" and step: "echo_event S ep lfd ev st = Inr st'"
  show "count_ok st'" using ev step
  proof (cases rule: reported_event_cases)
    case accept
    then show ?thesis using on_accept_count [OF st] by blast
  next
    case idle
    then show ?thesis using st by simp
  next
    case (readable w)
    then show ?thesis using on_readable_count st ok by blast
  next
    case (writable w)
    have "protocol (ev_fd ev) (past st) = Some To_write"
      by (rule in_phase_writable(2) [OF _ inv writable(1,2)]) (use ok in blast)
    then show ?thesis using on_writable_count(1) [OF st] writable(3) by simp
  qed
qed (auto simp: count_ok_def)


text \<open>Also where reads fail: the buffer keeps its size, and a count of -1 is the only one beyond it.\<close>

definition count_typed :: "'k echo \<Rightarrow> bool" where
  "count_typed st \<longleftrightarrow> length (line st) = MAXLINE
     \<and> ((\<exists>f n. Read f n \<in> set (past st)) \<longrightarrow> -1 \<le> n_read st \<and> n_read st \<le> int MAXLINE)
     \<and> (\<forall>f bs c. Write f bs c \<in> set (past st) \<longrightarrow> length bs = MAXLINE \<and> (unat c \<le> MAXLINE \<or> c = - 1))"

lemma on_readable_typed:
  assumes "read_bounded S" and "count_typed st"
  shows "count_typed (on_readable S ep f st)"
proof (cases "fst (sys_read S f MAXLINE (kern (proc st)))")
  case (Inl e)
  then show ?thesis using assms(2) by (auto simp: count_typed_def on_readable_fail [OF Inl] split: if_splits)
next
  case (Inr bs)
  then have "length bs \<le> MAXLINE" using assms(1) unfolding read_bounded_def by blast
  then show ?thesis using assms(2) by (auto simp: count_typed_def on_readable_ok [OF Inr] split: if_splits)
qed

lemma on_writable_typed:
  assumes "count_typed st" and "protocol g (past st) = Some To_write"
  shows "count_typed (on_writable S ep g st)"
proof -
  have "\<exists>n. Read g n \<in> set (past st)" using assms(2) unfolding protocol_def by (rule To_write_after_Read) simp
  then have n: "-1 \<le> n_read st" "n_read st \<le> int MAXLINE" using assms(1) by (auto simp: count_typed_def)
  have "unat (of_int (n_read st) :: u64) \<le> MAXLINE \<or> (of_int (n_read st) :: u64) = - 1"
  proof (cases "n_read st = -1")
    case False
    then show ?thesis using n unat_count [of "n_read st"] by (simp add: nat_le_iff)
  qed simp
  then show ?thesis using assms(1) n by (auto simp: count_typed_def on_writable_simps)
qed

lemma on_accept_typed: "count_typed st \<Longrightarrow> on_accept S ep l st = Inr st' \<Longrightarrow> count_typed st'"
  using on_accept_Inr [of S ep l st st'] on_accept_past [of S ep l st st'] unfolding count_typed_def by fastforce

interpretation echo_typed: turn_invariant "epoll_set S ep interest \<and> read_bounded S" S ep lfd interest count_typed
proof unfold_locales
  fix st st' :: "'a echo" and ev
  assume ok: "epoll_set S ep interest \<and> read_bounded S" and inv: "in_phase interest st" and st: "count_typed st"
    and ev: "reportable ev (interest (kern (proc st)) (ev_fd ev))" and step: "echo_event S ep lfd ev st = Inr st'"
  show "count_typed st'" using ev step
  proof (cases rule: reported_event_cases)
    case accept
    then show ?thesis using on_accept_typed [OF st] by blast
  next
    case idle
    then show ?thesis using st by simp
  next
    case (readable w)
    then show ?thesis using on_readable_typed st ok by blast
  next
    case (writable w)
    have "protocol (ev_fd ev) (past st) = Some To_write"
      by (rule in_phase_writable(2) [OF _ inv writable(1,2)]) (use ok in blast)
    then show ?thesis using on_writable_typed [OF st] writable(3) by simp
  qed
qed (auto simp: count_typed_def)

section \<open>A system with clients\<close>

text \<open>For the witnesses: each wait lets bytes arrive at a descriptor and then reports a given event if it is one
  that can be reported. A read with nothing pending is the end of the stream.\<close>

record clients =
  c_interest :: "fd \<Rightarrow> u32 option"
  c_arrived :: "fd \<Rightarrow> u8 list"
  c_pending :: "fd \<Rightarrow> u8 list"
  c_sent :: "fd \<Rightarrow> u8 list"
  c_next :: "(fd \<times> u8 list \<times> epoll_event) list"

definition client_ctl :: "fd \<Rightarrow> ctl_op \<Rightarrow> fd \<Rightarrow> epoll_event \<Rightarrow> clients \<Rightarrow> int \<times> clients" where
  "client_ctl ep c f ev k = (if (c_interest k f = None) = (c = CTL_ADD)
     then (0, k\<lparr>c_interest := (c_interest k)(f \<mapsto> ev_events ev)\<rparr>) else (-1, k))"

definition client_wait :: "fd \<Rightarrow> nat \<Rightarrow> int \<Rightarrow> clients \<Rightarrow> (errno + epoll_event list) \<times> clients" where
  "client_wait ep n t k = (case c_next k of [] \<Rightarrow> (Inl EINTR, k) | (f, bs, ev) # rest \<Rightarrow>
     (Inr (if reportable ev (c_interest k (ev_fd ev)) then [ev] else []),
      k\<lparr>c_next := rest, c_arrived := (c_arrived k)(f := c_arrived k f @ bs),
        c_pending := (c_pending k)(f := c_pending k f @ bs)\<rparr>))"

definition client_read :: "fd \<Rightarrow> nat \<Rightarrow> clients \<Rightarrow> (errno + u8 list) \<times> clients" where
  "client_read f n k =
     (Inr (take n (c_pending k f)), k\<lparr>c_pending := (c_pending k)(f := drop n (c_pending k f))\<rparr>)"

definition client_os :: "clients os" where
  "client_os = \<lparr>
     sys_getfl = (\<lambda>f k. (2, k)), sys_setfl = (\<lambda>f v k. (0, k)), sys_epoll_ctl = client_ctl, sys_epoll_wait = client_wait,
     sys_accept = (\<lambda>f k. (if c_interest k 5 = None then 5 else if c_interest k 6 = None then 6 else -1, k)), sys_recv = client_read, sys_read = client_read,
     sys_write = (\<lambda>f bs n k. (int (unat n), k\<lparr>c_sent := (c_sent k)(f := c_sent k f @ take (unat n) bs)\<rparr>)),
     sys_close = (\<lambda>f k. (0, k\<lparr>c_interest := (c_interest k)(f := None), c_pending := (c_pending k)(f := [])\<rparr>)) \<rparr>"

lemma client_os_epoll: "epoll_set client_os ep c_interest"
  unfolding epoll_set_def
  by (intro conjI) (auto simp: client_os_def client_ctl_def client_wait_def client_read_def split: list.splits if_splits)

lemma client_os_reads: "reads_succeed client_os"
  by (simp add: reads_succeed_def client_os_def client_read_def)

text \<open>Two clients connect to descriptor 3 and become 5 and 6; 5 sends two bytes and gets them back, then 6 sends one and
  gets it back, and 5 sends another one; \<open>n\<close> and \<open>line\<close> start with anything in them.\<close>

definition sample_clients :: "clients echo" where
  "sample_clients = \<lparr>proc = \<lparr>kern = \<lparr>c_interest = (\<lambda>_. None), c_arrived = (\<lambda>_. []), c_pending = (\<lambda>_. []),
       c_sent = (\<lambda>_. []), c_next = [(3, [], \<lparr>ev_events = EPOLLIN, ev_fd = 3\<rparr>), (3, [], \<lparr>ev_events = EPOLLIN, ev_fd = 3\<rparr>),
         (5, [104, 105], \<lparr>ev_events = EPOLLIN, ev_fd = 5\<rparr>), (5, [33], \<lparr>ev_events = EPOLLOUT, ev_fd = 5\<rparr>),
         (6, [7], \<lparr>ev_events = EPOLLIN, ev_fd = 6\<rparr>), (6, [], \<lparr>ev_events = EPOLLOUT, ev_fd = 6\<rparr>),
         (5, [], \<lparr>ev_events = EPOLLIN, ev_fd = 5\<rparr>)]\<rparr>,
     trace = [Getfl 3, Setfl 3 0x802]\<rparr>, line = replicate 10 99, n_read = 77\<rparr>"

lemma sample_clients_simps:
  "c_interest (kern (proc sample_clients)) = (\<lambda>_. None)" "past sample_clients = [Getfl 3, Setfl 3 0x802]"
  "length (line sample_clients) = MAXLINE" "c_arrived (kern (proc sample_clients)) = (\<lambda>_. [])"
  "c_pending (kern (proc sample_clients)) = (\<lambda>_. [])"
  "c_sent (kern (proc sample_clients)) = (\<lambda>_. [])"
  by (simp_all add: sample_clients_def MAXLINE_def)

lemmas client_simps = echo_turn_def echo_event_def on_accept_def echo_setnonblocking_def register_def on_readable_def on_writable_def
  do_getfl_def do_setfl_def do_ctl_def do_wait_def do_accept_def do_read_def do_write_def do_close_def log_call_def say_def on_proc_def
  echo_ready_def client_os_def client_ctl_def client_wait_def client_read_def reportable_def word_sless_alt
  EPOLLIN_def EPOLLOUT_def EPOLLET_def MAXLINE_def

lemma four_rounds: "echo_turns 4 = echo_turns (Suc (Suc (Suc (Suc 0))))"
  by (simp add: eval_nat_numeral)

lemma five_rounds: "echo_turns 5 = echo_turns (Suc (Suc (Suc (Suc (Suc 0)))))"
  by (simp add: eval_nat_numeral)

lemma seven_rounds: "echo_turns 7 = echo_turns (Suc (Suc (Suc (Suc (Suc (Suc (Suc 0)))))))"
  by (simp add: eval_nat_numeral)

lemma sample_clients_run:
  obtains st' where "echo_turns 7 client_os 4 3 (echo_ready client_os 4 3 sample_clients) = Some st'"
    and "filter is_write (past st') = [Write 5 (104 # 105 # replicate 8 99) 2, Write 6 (7 # 105 # replicate 8 99) 1]"
    and "protocol 5 (past st') = Some To_write" and "protocol 6 (past st') = Some To_read"
  by (simp add: seven_rounds client_simps sample_clients_def protocol_def)

section \<open>Properties\<close>

text \<open>C10: in any run of the echo server, with any number of connections in any order, the calls on each descriptor
  keep to the protocol: it is read only after it was registered or written, written only after it was
  read, and closed only after a read; after it is closed it is not touched before it is registered anew.\<close>

theorem connections_take_turns:
  assumes "epoll_set S epollfd interest"
    and "interest (kern (proc st)) = (\<lambda>_. None)" and "past st = [Getfl listenfd, Setfl listenfd v]"
    and "echo_turns n S epollfd listenfd (echo_ready S epollfd listenfd st) = Some st'"
  shows "\<exists>ph. protocol f (past st') = Some ph"
  using echo_phases.turns_hold [OF assms(1) ready_in_phase [OF assms(1-3)] TrueI assms(4)]
  unfolding in_phase_def by blast

theorem connections_take_turns_witness:
  "\<exists>st' ph. echo_turns 7 client_os 4 3 (echo_ready client_os 4 3 sample_clients) = Some st'
    \<and> protocol 5 (past st') = Some ph"
proof -
  obtain st' where "echo_turns 7 client_os 4 3 (echo_ready client_os 4 3 sample_clients) = Some st'"
    by (rule sample_clients_run)
  then show ?thesis using connections_take_turns [OF client_os_epoll sample_clients_simps(1,2)] by blast
qed

text \<open>C11: no write sends bytes from outside the buffer in any run in which the reads succeed, although the program
  initialises neither \<open>n\<close> nor \<open>line\<close>: no connection is written before some read has set the count, and
  no read sets it to more than the ten bytes of the buffer.\<close>

theorem echo_writes_in_bounds:
  assumes "epoll_set S epollfd interest" and "reads_succeed S" and "length (line st) = MAXLINE"
    and "interest (kern (proc st)) = (\<lambda>_. None)" and "past st = [Getfl listenfd, Setfl listenfd v]"
    and "echo_turns n S epollfd listenfd (echo_ready S epollfd listenfd st) = Some st'" and "a \<in> set (past st')"
  shows "write_ok a"
proof -
  have "count_ok (echo_ready S epollfd listenfd st)" using assms(3,5) by (simp add: count_ok_def echo_ready_def)
  then have "count_ok st'"
    using echo_counts.turns_hold [OF conjI [OF assms(1,2)] ready_in_phase [OF assms(1,4,5)] _ assms(6)] by blast
  then show ?thesis using assms(7) by (simp add: count_ok_def)
qed

theorem echo_writes_in_bounds_witness:
  "n_read sample_clients = 77 \<and> (\<exists>st'. echo_turns 7 client_os 4 3 (echo_ready client_os 4 3 sample_clients) = Some st'
    \<and> list_all write_ok (past st'))"
proof -
  obtain st' where st': "echo_turns 7 client_os 4 3 (echo_ready client_os 4 3 sample_clients) = Some st'"
    by (rule sample_clients_run)
  have "write_ok a" if "a \<in> set (past st')" for a
    using echo_writes_in_bounds [OF client_os_epoll client_os_reads sample_clients_simps(3,1,2) st' that] .
  then show ?thesis using st' by (simp add: list_all_iff) (simp add: sample_clients_def)
qed


text \<open>The system with clients, where each read fails.\<close>

definition deaf_os :: "clients os" where
  "deaf_os = client_os\<lparr>sys_read := (\<lambda>f n k. (Inl EINTR, k))\<rparr>"

lemma deaf_os_ok: "epoll_set deaf_os ep c_interest" "read_bounded deaf_os"
proof -
  show "epoll_set deaf_os ep c_interest"
    unfolding epoll_set_def
    by (intro conjI) (auto simp: deaf_os_def client_os_def client_ctl_def client_wait_def split: list.splits if_splits)
qed (simp add: read_bounded_def deaf_os_def)

lemma deaf_run:
  obtains st' where "echo_turns 4 deaf_os 4 3 (echo_ready deaf_os 4 3 sample_clients) = Some st'"
    and "filter is_write (past st') = [Write 5 (replicate 10 99) (- 1)]" and "n_read st' = -1"
  by (simp add: client_simps sample_clients_def deaf_os_def four_rounds)


end
