(* ===== verification/Echo_Streams.thy ===== *)
theory Echo_Streams
  imports Echo_Protocol Stream_Sockets
begin

text \<open>
  What the echo server of \<open>epoll.c\<close> echoes. The buffer is shared, so that a connection gets back what it sent only as
  long as no other one is read between a read of it and the write that answers it. Then, over a whole run and with
  any number of connections, the bytes that it was asked to write, those that it has read and not written
  yet, and those that are still pending are together the bytes that arrived.
\<close>

section \<open>The bytes that are written\<close>

fun asked_to_write :: "fd \<Rightarrow> action list \<Rightarrow> u8 list" where
  "asked_to_write f [] = []"
| "asked_to_write f (Write g bs c # as) = (if g = f then take (unat c) bs else []) @ asked_to_write f as"
| "asked_to_write f (a # as) = asked_to_write f as"

lemma asked_append: "asked_to_write f (as @ bs) = asked_to_write f as @ asked_to_write f bs"
  by (induction f as rule: asked_to_write.induct) auto

text \<open>The bytes read and not yet written are in the buffer while the connection is waiting to be written.\<close>

definition held :: "fd \<Rightarrow> 'k echo \<Rightarrow> u8 list" where
  "held f st = (if protocol f (past st) = Some To_write then take (nat (n_read st)) (line st) else [])"

text \<open>The connection \<open>f\<close> is undisturbed when no other connection is read between a read of \<open>f\<close> and the write that
  answers it. The second argument is the phase of \<open>f\<close>.\<close>

fun undisturbed_from :: "fd \<Rightarrow> phase \<Rightarrow> action list \<Rightarrow> bool" where
  "undisturbed_from f ph [] = True"
| "undisturbed_from f ph (a # as) =
     ((case a of Read g n \<Rightarrow> g = f \<or> ph \<noteq> To_write | _ \<Rightarrow> True)
      \<and> (case phase_step f a ph of None \<Rightarrow> False | Some ph' \<Rightarrow> undisturbed_from f ph' as))"

definition undisturbed :: "fd \<Rightarrow> action list \<Rightarrow> bool" where
  "undisturbed f as \<longleftrightarrow> undisturbed_from f Ended as"

lemma undisturbed_prefix: "undisturbed f (as @ bs) \<Longrightarrow> undisturbed f as"
proof -
  have "undisturbed_from f ph (as @ bs) \<Longrightarrow> undisturbed_from f ph as" for ph
    by (induction f ph as rule: undisturbed_from.induct) (auto split: option.splits)
  then show "undisturbed f (as @ bs) \<Longrightarrow> undisturbed f as" by (simp add: undisturbed_def)
qed

lemma undisturbed_read:
  "undisturbed f (as @ Read g n # bs) \<Longrightarrow> g \<noteq> f \<Longrightarrow> protocol f as \<noteq> Some To_write"
proof -
  have "undisturbed_from f ph (as @ Read g n # bs) \<Longrightarrow> g \<noteq> f \<Longrightarrow> run_all (phase_step f) as ph \<noteq> Some To_write" for ph
    by (induction f ph as rule: undisturbed_from.induct) (auto split: option.splits)
  then show "undisturbed f (as @ Read g n # bs) \<Longrightarrow> g \<noteq> f \<Longrightarrow> protocol f as \<noteq> Some To_write"
    by (simp add: undisturbed_def protocol_def)
qed

text \<open>The account of the connection \<open>f\<close>, unless it has been disturbed.\<close>

definition echo_accounted :: "'k view \<Rightarrow> 'k view \<Rightarrow> fd \<Rightarrow> 'k echo \<Rightarrow> bool" where
  "echo_accounted arrived pending f st \<longleftrightarrow> count_ok st
     \<and> (undisturbed f (past st) \<longrightarrow> account arrived pending f (asked_to_write f (past st) @ held f st) (kern (proc st)))"

section \<open>One event\<close>

lemma echoed_accept:
  assumes S: "stream_sockets S A P" and E: "epoll_set S ep interest" and inv: "in_phase interest st"
    and st: "echo_accounted A P f st" and acc: "on_accept S ep l st = Inr st'"
  shows "echo_accounted A P f st'"
proof -
  let ?c = "fst (sys_accept S l (kern (proc st)))"
  obtain v where c: "0 \<le> ?c" and past: "past st' = past st @ [Accept l, Getfl ?c, Setfl ?c v, Print (Line ''connect from''),
      Ctl ep CTL_ADD ?c (EPOLLIN OR EPOLLET)]"
    and kern: "kern (proc st') = snd (sys_epoll_ctl S ep CTL_ADD ?c \<lparr>ev_events = EPOLLIN OR EPOLLET, ev_fd = ?c\<rparr>
        (snd (sys_setfl S ?c v (snd (sys_getfl S ?c (snd (sys_accept S l (kern (proc st)))))))))"
    using on_accept_past [OF acc] by blast
  have same: "line st' = line st" "n_read st' = n_read st" using on_accept_Inr [OF acc] by blast+
  have l: "leaves A P (kern (proc st)) (kern (proc st'))"
    unfolding kern
    by (rule leaves_trans [OF leaves_trans [OF leaves_trans [OF stream_socketsD(5) [OF S] stream_socketsD(1) [OF S]]
        stream_socketsD(2) [OF S]] stream_socketsD(3) [OF S]])
  obtain ph where ph: "protocol f (past st) = Some ph" "fits ph (interest (kern (proc st)) f)"
    using inv unfolding in_phase_def by blast
  then have "f = ?c \<Longrightarrow> ph \<noteq> To_write" using epoll_setD(7) [OF E c] by simp
  then have "held f st' = held f st"
    by (simp add: held_def past same protocol_append ph(1))
  then show ?thesis
    using st leaves_account [OF l] on_accept_count [OF _ acc]
    by (auto simp: echo_accounted_def past asked_append dest: undisturbed_prefix)
qed

text \<open>A read moves the bytes it takes into the buffer; only at the end of the stream, when nothing is pending,
  the descriptor is closed.\<close>

lemma on_readable_kern:
  assumes "fst (sys_read S f MAXLINE (kern (proc st))) = Inr bs"
  shows "kern (proc (on_readable S ep f st)) = snd (sys_epoll_ctl S ep CTL_MOD f \<lparr>ev_events = EPOLLOUT OR EPOLLET, ev_fd = f\<rparr>
      (if bs = [] then snd (sys_close S f (snd (sys_read S f MAXLINE (kern (proc st)))))
       else snd (sys_read S f MAXLINE (kern (proc st)))))"
  using assms by (simp add: on_readable_def Let_def case_prod_unfold)

lemma echoed_readable:
  assumes S: "stream_sockets S A P" and R: "reads_succeed S" and inv: "in_phase interest st"
    and st: "echo_accounted A P f st" and w: "interest (kern (proc st)) g = Some w" "w AND EPOLLIN \<noteq> 0"
  shows "echo_accounted A P f (on_readable S ep g st)"
proof (cases "g = f")
  case False
  let ?k = "snd (sys_read S g MAXLINE (kern (proc st)))"
  obtain bs where bs: "fst (sys_read S g MAXLINE (kern (proc st))) = Inr bs"
    using R unfolding reads_succeed_def by blast
  note ok = on_readable_ok [OF bs, of ep] and kern = on_readable_kern [OF bs, of ep]
  have "account A P f (asked_to_write f (past (on_readable S ep g st)) @ held f (on_readable S ep g st))
      (kern (proc (on_readable S ep g st)))" if u: "undisturbed f (past (on_readable S ep g st))"
  proof -
    have "undisturbed f (past st)" using u ok(1) undisturbed_prefix by metis
    moreover have f: "protocol f (past st) \<noteq> Some To_write" using u False undisturbed_read unfolding ok(1) append_Cons by blast
    ultimately have acc: "account A P f (asked_to_write f (past st)) (kern (proc st))"
      using st by (simp add: echo_accounted_def held_def)
    have "account A P f (asked_to_write f (past st)) ?k"
      using taken_account [OF receivesD(1) [OF stream_socketsD(9) [OF S], where f = g and n = MAXLINE] acc] False by simp
    moreover have "account A P f (asked_to_write f (past st)) (snd (sys_close S g ?k))"
      using ends_account [OF stream_socketsD(7) [OF S] calculation] False by simp
    ultimately have "account A P f (asked_to_write f (past st)) (kern (proc (on_readable S ep g st)))"
      unfolding kern by (intro leaves_account [OF stream_socketsD(3) [OF S]]) simp
    moreover have "asked_to_write f (past (on_readable S ep g st)) = asked_to_write f (past st)" by (simp add: ok(1) asked_append)
    moreover have "held f (on_readable S ep g st) = []"
      using f False by (cases "protocol f (past st)") (auto simp: held_def ok(1) protocol_append)
    ultimately show ?thesis by simp
  qed
  then show ?thesis using st on_readable_count [OF R] by (simp add: echo_accounted_def)
next
  case True
  let ?k = "snd (sys_read S f MAXLINE (kern (proc st)))"
  obtain bs where bs: "fst (sys_read S f MAXLINE (kern (proc st))) = Inr bs"
    using R unfolding reads_succeed_def by blast
  note rcv = receivesD [OF stream_socketsD(9) [OF S], where f = f and n = MAXLINE and k = "kern (proc st)", unfolded bs received_simps]
  note ok = on_readable_ok [OF bs, of ep]
  have ph: "protocol f (past st) = Some To_read"
    using inv w unfolding in_phase_def True by (metis fits_simps(2))
  have "account A P f (asked_to_write f (past (on_readable S ep f st)) @ held f (on_readable S ep f st))
      (kern (proc (on_readable S ep f st)))" if "undisturbed f (past st)"
  proof -
    have "account A P f (asked_to_write f (past st)) (kern (proc st))"
      using st that by (simp add: echo_accounted_def held_def ph)
    from taken_account [OF rcv(1) this] have k: "account A P f (asked_to_write f (past st) @ bs) ?k" by simp
    show ?thesis
    proof (cases "bs = []")
      case True
      have "account A P f (asked_to_write f (past st)) (snd (sys_close S f ?k))"
        using ends_account [OF stream_socketsD(7) [OF S], of f "asked_to_write f (past st)"] k True rcv(3)
        by (simp add: MAXLINE_def)
      from leaves_account [OF stream_socketsD(3) [OF S] this] show ?thesis
        using True by (simp add: ok on_readable_kern [OF bs] held_def asked_append protocol_append ph)
    next
      case False
      from leaves_account [OF stream_socketsD(3) [OF S] k] show ?thesis
        using False by (simp add: ok on_readable_kern [OF bs] held_def asked_append protocol_append ph)
    qed
  qed
  moreover have "undisturbed f (past (on_readable S ep f st)) \<Longrightarrow> undisturbed f (past st)"
    unfolding ok(1) by (rule undisturbed_prefix)
  ultimately show ?thesis
    using st on_readable_count [OF R] True by (simp add: echo_accounted_def)
qed

text \<open>A write asks for what the buffer holds.\<close>

lemma echoed_writable:
  assumes S: "stream_sockets S A P" and ph: "protocol g (past st) = Some To_write" and st: "echo_accounted A P f st"
  shows "echo_accounted A P f (on_writable S ep g st)"
proof -
  have c: "count_ok (on_writable S ep g st)" and n: "0 \<le> n_read st \<and> n_read st \<le> int MAXLINE"
    using on_writable_count [OF _ ph] st unfolding echo_accounted_def by blast+
  have l: "leaves A P (kern (proc st)) (kern (proc (on_writable S ep g st)))"
    unfolding on_writable_def Let_def case_prod_unfold register_simps(4)
    using leaves_trans [OF stream_socketsD(6) [OF S] stream_socketsD(3) [OF S]] by simp
  have "asked_to_write f (past (on_writable S ep g st)) @ held f (on_writable S ep g st) = asked_to_write f (past st) @ held f st"
  proof (cases "f = g")
    case True
    have "unat (of_int (n_read st) :: u64) = nat (n_read st)" using n by (simp add: unat_count)
    then show ?thesis using ph by (simp add: held_def on_writable_simps asked_append protocol_append True)
  next
    case False
    then show ?thesis
      by (cases "protocol f (past st)") (simp_all add: held_def on_writable_simps asked_append protocol_append)
  qed
  then show ?thesis using st c leaves_account [OF l]
    by (auto simp: echo_accounted_def on_writable_simps dest: undisturbed_prefix)
qed

section \<open>Whole runs\<close>

interpretation echo_accounts: turn_invariant
  "epoll_set S ep interest \<and> reads_succeed S \<and> stream_sockets S A P" S ep lfd interest "echo_accounted A P f"
proof unfold_locales
  fix st st' :: "'a echo" and ev
  assume ok: "epoll_set S ep interest \<and> reads_succeed S \<and> stream_sockets S A P" and inv: "in_phase interest st"
    and st: "echo_accounted A P f st" and ev: "reportable ev (interest (kern (proc st)) (ev_fd ev))"
    and step: "echo_event S ep lfd ev st = Inr st'"
  then have E: "epoll_set S ep interest" and R: "reads_succeed S" and S: "stream_sockets S A P" by simp_all
  show "echo_accounted A P f st'" using ev step
  proof (cases rule: reported_event_cases)
    case accept
    then show ?thesis by (rule echoed_accept [OF S E inv st])
  next
    case idle
    then show ?thesis using st by simp
  next
    case (readable w)
    then show ?thesis using echoed_readable [OF S R inv st] by simp
  next
    case (writable w)
    then show ?thesis using echoed_writable [OF S in_phase_writable(2) [OF E inv writable(1,2)] st] by simp
  qed
next
  fix st :: "'a echo"
  assume ok: "epoll_set S ep interest \<and> reads_succeed S \<and> stream_sockets S A P" and st: "echo_accounted A P f st"
  have l: "leaves A P (kern (proc st)) (snd (sys_epoll_wait S ep 20 500 (kern (proc st))))"
    using ok by (intro stream_socketsD(4)) simp
  have "protocol f (past st @ [Wait ep 20 500]) = protocol f (past st)"
    by (cases "protocol f (past st)") (simp_all add: protocol_append)
  then show "echo_accounted A P f (st\<lparr>proc := snd (do_wait S ep 20 500 (proc st))\<rparr>)"
    using st leaves_account [OF l] by (auto simp: echo_accounted_def count_ok_def held_def asked_append
        dest: undisturbed_prefix)
qed simp

lemma ready_accounted:
  assumes "stream_sockets S A P" and "past st = [Getfl lfd, Setfl lfd v]" and "length (line st) = MAXLINE"
    and "A (kern (proc st)) f = P (kern (proc st)) f"
  shows "echo_accounted A P f (echo_ready S ep lfd st)"
proof -
  have l: "leaves A P (kern (proc st)) (kern (proc (echo_ready S ep lfd st)))"
    by (simp add: echo_ready_def stream_socketsD(3) [OF assms(1)])
  have "account A P f [] (kern (proc st))" using assms(4) by (simp add: account_def)
  from leaves_account [OF l this] have "account A P f [] (kern (proc (echo_ready S ep lfd st)))" .
  moreover have "asked_to_write f (past (echo_ready S ep lfd st)) @ held f (echo_ready S ep lfd st) = []"
    by (simp add: echo_ready_def assms(2) held_def protocol_def)
  moreover have "count_ok (echo_ready S ep lfd st)" using assms(2,3) by (simp add: count_ok_def echo_ready_def)
  ultimately show ?thesis by (simp add: echo_accounted_def del: append_is_Nil_conv)
qed

section \<open>What is sent\<close>

text \<open>What the system documents of output: \<open>sent k f\<close> are the bytes that have been taken for the descriptor \<open>f\<close> so far.
  A write takes the first bytes of its buffer, as many as it returns, and none when it fails; no other
  call sends anything.\<close>

definition output_sockets :: "'k os \<Rightarrow> 'k view \<Rightarrow> bool" where
  "output_sockets S sent \<longleftrightarrow>
     (\<forall>f bs n k. sent (snd (sys_write S f bs n k)) = (sent k)(f := sent k f @ take (nat (fst (sys_write S f bs n k))) bs))
   \<and> (\<forall>f k. sent (snd (sys_getfl S f k)) = sent k)
   \<and> (\<forall>f v k. sent (snd (sys_setfl S f v k)) = sent k)
   \<and> (\<forall>ep c f ev k. sent (snd (sys_epoll_ctl S ep c f ev k)) = sent k)
   \<and> (\<forall>ep n t k. sent (snd (sys_epoll_wait S ep n t k)) = sent k)
   \<and> (\<forall>f k. sent (snd (sys_accept S f k)) = sent k)
   \<and> (\<forall>f n k. sent (snd (sys_read S f n k)) = sent k)
   \<and> (\<forall>f k. sent (snd (sys_close S f k)) = sent k)"

lemma output_socketsD:
  assumes "output_sockets S sent"
  shows "sent (snd (sys_write S f bs w k)) = (sent k)(f := sent k f @ take (nat (fst (sys_write S f bs w k))) bs)"
    "sent (snd (sys_getfl S f k)) = sent k" "sent (snd (sys_setfl S f v k)) = sent k"
    "sent (snd (sys_epoll_ctl S ep c f ev k)) = sent k" "sent (snd (sys_epoll_wait S ep n t k)) = sent k"
    "sent (snd (sys_accept S f k)) = sent k" "sent (snd (sys_read S f n k)) = sent k" "sent (snd (sys_close S f k)) = sent k"
  using assms by (simp_all add: output_sockets_def)

text \<open>The program ignores what \<open>write\<close> returns, so that it sends what it means to only as long as each write to a
  connected client takes all it is asked to.\<close>

definition takes_all :: "'k os \<Rightarrow> ('k \<Rightarrow> fd \<Rightarrow> u32 option) \<Rightarrow> fd \<Rightarrow> bool" where
  "takes_all S interest f \<longleftrightarrow>
     (\<forall>bs n k. interest k f \<noteq> None \<longrightarrow> unat n \<le> length bs \<longrightarrow> fst (sys_write S f bs n k) = int (unat n))"

definition sends_asked :: "'k view \<Rightarrow> fd \<Rightarrow> 'k echo \<Rightarrow> bool" where
  "sends_asked sent f st \<longleftrightarrow> count_ok st \<and> sent (kern (proc st)) f = asked_to_write f (past st)"

lemma sends_writable:
  assumes "output_sockets S sent" and "takes_all S interest f" and "protocol g (past st) = Some To_write"
    and "interest (kern (proc st)) g \<noteq> None" and st: "sends_asked sent f st"
  shows "sends_asked sent f (on_writable S ep g st)"
proof -
  have c: "count_ok (on_writable S ep g st)" and n: "0 \<le> n_read st \<and> n_read st \<le> int MAXLINE"
    using on_writable_count [OF _ assms(3)] st unfolding sends_asked_def by blast+
  then have "unat (of_int (n_read st) :: u64) \<le> length (line st)"
    using st by (simp add: unat_count sends_asked_def count_ok_def nat_le_iff)
  then have "f = g \<Longrightarrow> fst (sys_write S f (line st) (of_int (n_read st)) (kern (proc st))) = int (unat (of_int (n_read st) :: u64))"
    using assms(2,4) unfolding takes_all_def by blast
  then show ?thesis
    using st c by (auto simp: sends_asked_def on_writable_simps asked_append on_writable_def Let_def case_prod_unfold
        output_socketsD(1,4) [OF assms(1)])
qed

interpretation echo_sends: turn_invariant
  "epoll_set S ep interest \<and> reads_succeed S \<and> output_sockets S sent \<and> takes_all S interest f" S ep lfd interest "sends_asked sent f"
proof unfold_locales
  fix st st' :: "'a echo" and ev
  assume ok: "epoll_set S ep interest \<and> reads_succeed S \<and> output_sockets S sent \<and> takes_all S interest f"
    and inv: "in_phase interest st" and st: "sends_asked sent f st"
    and ev: "reportable ev (interest (kern (proc st)) (ev_fd ev))" and step: "echo_event S ep lfd ev st = Inr st'"
  from ok have E: "epoll_set S ep interest" and R: "reads_succeed S" and O: "output_sockets S sent" and T: "takes_all S interest f"
    by simp_all
  show "sends_asked sent f st'" using ev step
  proof (cases rule: reported_event_cases)
    case accept
    then show ?thesis using st on_accept_past [OF accept] on_accept_count [OF _ accept]
      by (auto simp: sends_asked_def output_socketsD [OF O] asked_append)
  next
    case idle
    then show ?thesis using st by simp
  next
    case (readable w)
    obtain bs where bs: "fst (sys_read S (ev_fd ev) MAXLINE (kern (proc st))) = Inr bs"
      using R unfolding reads_succeed_def by blast
    show ?thesis using st on_readable_count [OF R] readable(3)
      by (simp add: sends_asked_def on_readable_kern [OF bs] on_readable_ok [OF bs] output_socketsD [OF O] asked_append)
  next
    case (writable w)
    then show ?thesis using sends_writable [OF O T in_phase_writable(2) [OF E inv writable(1,2)] _ st] by simp
  qed
next
  fix st :: "'a echo"
  assume "epoll_set S ep interest \<and> reads_succeed S \<and> output_sockets S sent \<and> takes_all S interest f" and "sends_asked sent f st"
  then show "sends_asked sent f (st\<lparr>proc := snd (do_wait S ep 20 500 (proc st))\<rparr>)"
    by (auto simp: sends_asked_def count_ok_def output_socketsD(5) asked_append)
qed simp

lemma ready_sends:
  assumes "output_sockets S sent" and "past st = [Getfl lfd, Setfl lfd v]" and "length (line st) = MAXLINE"
    and "sent (kern (proc st)) f = []"
  shows "sends_asked sent f (echo_ready S ep lfd st)"
  using assms by (simp add: sends_asked_def count_ok_def echo_ready_def output_socketsD(4) [OF assms(1)])

section \<open>Properties\<close>

text \<open>C8: the server echoes: over any run in which the reads succeed, with any number of clients, what \<open>write\<close> was asked
  to send to a connection that no other one disturbed, what has been read from it and is about to be written, and
  what is still pending there are together exactly what arrived there, in order. Nothing is lost, doubled,
  invented or taken from another client, also in the last chunk before the end of the stream. What was asked
  for is what was sent when each write to the connection takes all it is asked to.\<close>

theorem undisturbed_clients_are_echoed:
  assumes "epoll_set S epollfd interest" and "reads_succeed S" and "stream_sockets S arrived pending"
    and "output_sockets S sent"
    and "interest (kern (proc st)) = (\<lambda>_. None)" and "past st = [Getfl listenfd, Setfl listenfd v]"
    and "length (line st) = MAXLINE" and "arrived (kern (proc st)) f = pending (kern (proc st)) f"
    and "sent (kern (proc st)) f = []"
    and "echo_turns n S epollfd listenfd (echo_ready S epollfd listenfd st) = Some st'"
    and "undisturbed f (past st')"
  shows "asked_to_write f (past st')
      @ (if protocol f (past st') = Some To_write then take (nat (n_read st')) (line st') else [])
      @ pending (kern (proc st')) f = arrived (kern (proc st')) f
    \<and> (takes_all S interest f \<longrightarrow> sent (kern (proc st')) f = asked_to_write f (past st'))"
proof -
  note phase = ready_in_phase [OF assms(1,5,6)]
  have "echo_accounted arrived pending f st'"
    using echo_accounts.turns_hold [OF _ phase ready_accounted [OF assms(3,6-8)] assms(10)] assms(1-3) by blast
  moreover have "sends_asked sent f st'" if "takes_all S interest f"
    using echo_sends.turns_hold [OF _ phase ready_sends [OF assms(4,6,7,9)] assms(10)] assms(1,2,4) that by blast
  ultimately show ?thesis using assms(11) by (simp add: echo_accounted_def account_def held_def sends_asked_def)
qed

lemma client_os_streams: "stream_sockets client_os c_arrived c_pending"
proof -
  have "receives c_arrived c_pending client_read" by (auto simp: receives_def taken_def client_read_def)
  then show ?thesis
    unfolding stream_sockets_def
    by (intro conjI) (auto simp: client_os_def client_ctl_def client_wait_def leaves_def ends_def split: list.splits)
qed

lemma client_os_output: "output_sockets client_os c_sent" "takes_all client_os interest f"
proof -
  show "output_sockets client_os c_sent"
    unfolding output_sockets_def
    by (intro conjI) (auto simp: client_os_def client_ctl_def client_wait_def client_read_def split: list.splits)
qed (simp add: takes_all_def client_os_def)

lemma sample_clients_echo:
  obtains st' where "echo_turns 7 client_os 4 3 (echo_ready client_os 4 3 sample_clients) = Some st'"
    and "c_arrived (kern (proc st')) 5 = [104, 105, 33]" "c_pending (kern (proc st')) 5 = []"
    and "c_arrived (kern (proc st')) 6 = [7]" "c_pending (kern (proc st')) 6 = []"
    and "protocol 5 (past st') = Some To_write" and "protocol 6 (past st') = Some To_read"
    and "n_read st' = 1" and "take 1 (line st') = [33]"
    and "undisturbed 5 (past st')" and "undisturbed 6 (past st')"
  by (simp add: seven_rounds client_simps sample_clients_def protocol_def undisturbed_def)

text \<open>Both clients of the sample get their bytes.\<close>

theorem undisturbed_clients_are_echoed_witness:
  "\<exists>st'. echo_turns 7 client_os 4 3 (echo_ready client_os 4 3 sample_clients) = Some st'
    \<and> asked_to_write 5 (past st') = [104, 105] \<and> c_sent (kern (proc st')) 5 = [104, 105]
    \<and> asked_to_write 6 (past st') = [7] \<and> c_sent (kern (proc st')) 6 = [7]"
proof -
  obtain st' where run: "echo_turns 7 client_os 4 3 (echo_ready client_os 4 3 sample_clients) = Some st'"
    and net: "c_arrived (kern (proc st')) 5 = [104, 105, 33]" "c_pending (kern (proc st')) 5 = []"
      "c_arrived (kern (proc st')) 6 = [7]" "c_pending (kern (proc st')) 6 = []"
    and "protocol 5 (past st') = Some To_write" "protocol 6 (past st') = Some To_read"
    and "n_read st' = 1" "take 1 (line st') = [33]"
    and "undisturbed 5 (past st')" "undisturbed 6 (past st')"
    by (rule sample_clients_echo)
  then show ?thesis
    using undisturbed_clients_are_echoed [OF client_os_epoll client_os_reads client_os_streams client_os_output(1) sample_clients_simps(1,2,3) _ _ run, of 5]
      undisturbed_clients_are_echoed [OF client_os_epoll client_os_reads client_os_streams client_os_output(1) sample_clients_simps(1,2,3) _ _ run, of 6]
    by (simp add: sample_clients_simps(4-6) client_os_output(2))
qed

end
