(* ===== verification/Echo_Answers.thy ===== *)
theory Echo_Answers
  imports Echo_Streams
begin

text \<open>
  The echo server of \<open>epoll.c\<close> answers. Its connections are edge-triggered, so that a wait reports each change only
  once; but every event that the program handles ends with a modification of the registration, after which the
  connection is looked at afresh. No bytes are left lying: once no more arrive, a connection is read until nothing
  is pending, and what was read is written.
\<close>

section \<open>Edge-triggered connections\<close>

definition registered_for :: "u32 option \<Rightarrow> u32 \<Rightarrow> bool" where
  "registered_for r b \<longleftrightarrow> (\<exists>w. r = Some w \<and> w AND b \<noteq> 0)"

lemma registered_for_simps [simp]:
  "\<not> registered_for None b" "registered_for (Some w) b \<longleftrightarrow> w AND b \<noteq> 0"
  by (simp_all add: registered_for_def)

text \<open>An event of \<open>f\<close> that reports what \<open>f\<close> is registered for.\<close>

definition serves :: "u32 option \<Rightarrow> fd \<Rightarrow> epoll_event \<Rightarrow> bool" where
  "serves r f ev \<longleftrightarrow> ev_fd ev = f
     \<and> (registered_for r EPOLLIN \<and> ev_events ev AND EPOLLIN \<noteq> 0 \<or> registered_for r EPOLLOUT \<and> ev_events ev AND EPOLLOUT \<noteq> 0)"

text \<open>
  What the system documents: \<open>fresh k f\<close> says that \<open>f\<close> will be reported as soon as it is ready. A wait does not fail
  (it can only be interrupted) and, unless more descriptors are ready than the 20 it has room for, reports a fresh
  descriptor that is ready, for input when bytes are pending and for output always; one that
  is not ready stays fresh. A registration and a modification make it fresh, and no other call takes that away.
\<close>

definition edge_triggered :: "'k os \<Rightarrow> fd \<Rightarrow> ('k \<Rightarrow> fd \<Rightarrow> u32 option) \<Rightarrow> 'k view \<Rightarrow> ('k \<Rightarrow> fd \<Rightarrow> bool) \<Rightarrow> fd \<Rightarrow> bool" where
  "edge_triggered S ep interest pending fresh f \<longleftrightarrow>
     (\<forall>n t k. fresh k f \<longrightarrow> (\<exists>evs. fst (sys_epoll_wait S ep n t k) = Inr evs
        \<and> (if registered_for (interest k f) EPOLLIN \<and> pending (snd (sys_epoll_wait S ep n t k)) f \<noteq> []
              \<or> registered_for (interest k f) EPOLLOUT
           then \<exists>ev\<in>set evs. serves (interest k f) f ev
           else fresh (snd (sys_epoll_wait S ep n t k)) f)))
   \<and> (\<forall>ev k. interest k f \<noteq> None \<longrightarrow> fresh (snd (sys_epoll_ctl S ep CTL_MOD f ev k)) f)
   \<and> (\<forall>ev k. interest k f = None \<longrightarrow> interest (snd (sys_epoll_ctl S ep CTL_ADD f ev k)) f \<noteq> None \<longrightarrow>
        fresh (snd (sys_epoll_ctl S ep CTL_ADD f ev k)) f)
   \<and> (\<forall>c g ev k. fresh k f \<longrightarrow> fresh (snd (sys_epoll_ctl S ep c g ev k)) f)
   \<and> (\<forall>g k. fresh k f \<longrightarrow> fresh (snd (sys_accept S g k)) f)
   \<and> (\<forall>g k. fresh k f \<longrightarrow> fresh (snd (sys_getfl S g k)) f)
   \<and> (\<forall>g v k. fresh k f \<longrightarrow> fresh (snd (sys_setfl S g v k)) f)
   \<and> (\<forall>g n k. fresh k f \<longrightarrow> fresh (snd (sys_read S g n k)) f)
   \<and> (\<forall>g bs n k. fresh k f \<longrightarrow> fresh (snd (sys_write S g bs n k)) f)
   \<and> (\<forall>g k. g \<noteq> f \<longrightarrow> fresh k f \<longrightarrow> fresh (snd (sys_close S g k)) f)"

lemma edge_triggeredD:
  assumes "edge_triggered S ep interest pending fresh f"
  shows "fresh k f \<Longrightarrow> \<exists>evs. fst (sys_epoll_wait S ep n t k) = Inr evs
        \<and> (if registered_for (interest k f) EPOLLIN \<and> pending (snd (sys_epoll_wait S ep n t k)) f \<noteq> []
              \<or> registered_for (interest k f) EPOLLOUT
           then \<exists>ev\<in>set evs. serves (interest k f) f ev
           else fresh (snd (sys_epoll_wait S ep n t k)) f)"
    "interest k f \<noteq> None \<Longrightarrow> fresh (snd (sys_epoll_ctl S ep CTL_MOD f ev k)) f"
    "interest k f = None \<Longrightarrow> interest (snd (sys_epoll_ctl S ep CTL_ADD f ev k)) f \<noteq> None \<Longrightarrow>
       fresh (snd (sys_epoll_ctl S ep CTL_ADD f ev k)) f"
    "fresh k f \<Longrightarrow> fresh (snd (sys_epoll_ctl S ep c g ev k)) f" "fresh k f \<Longrightarrow> fresh (snd (sys_accept S g k)) f"
    "fresh k f \<Longrightarrow> fresh (snd (sys_getfl S g k)) f" "fresh k f \<Longrightarrow> fresh (snd (sys_setfl S g v k)) f"
    "fresh k f \<Longrightarrow> fresh (snd (sys_read S g n k)) f" "fresh k f \<Longrightarrow> fresh (snd (sys_write S g bs w k)) f"
    "g \<noteq> f \<Longrightarrow> fresh k f \<Longrightarrow> fresh (snd (sys_close S g k)) f"
proof -
  note d = assms [unfolded edge_triggered_def]
  show "fresh k f \<Longrightarrow> \<exists>evs. fst (sys_epoll_wait S ep n t k) = Inr evs
        \<and> (if registered_for (interest k f) EPOLLIN \<and> pending (snd (sys_epoll_wait S ep n t k)) f \<noteq> []
              \<or> registered_for (interest k f) EPOLLOUT
           then \<exists>ev\<in>set evs. serves (interest k f) f ev
           else fresh (snd (sys_epoll_wait S ep n t k)) f)"
    using d [THEN conjunct1] by blast
  show "interest k f \<noteq> None \<Longrightarrow> fresh (snd (sys_epoll_ctl S ep CTL_MOD f ev k)) f"
    using d [THEN conjunct2, THEN conjunct1] by blast
  note d = d [THEN conjunct2, THEN conjunct2]
  show "interest k f = None \<Longrightarrow> interest (snd (sys_epoll_ctl S ep CTL_ADD f ev k)) f \<noteq> None \<Longrightarrow>
       fresh (snd (sys_epoll_ctl S ep CTL_ADD f ev k)) f"
    using d [THEN conjunct1] by blast
  note d = d [THEN conjunct2]
  show "fresh k f \<Longrightarrow> fresh (snd (sys_epoll_ctl S ep c g ev k)) f" "fresh k f \<Longrightarrow> fresh (snd (sys_accept S g k)) f"
    "fresh k f \<Longrightarrow> fresh (snd (sys_getfl S g k)) f" "fresh k f \<Longrightarrow> fresh (snd (sys_setfl S g v k)) f"
    "fresh k f \<Longrightarrow> fresh (snd (sys_read S g n k)) f" "fresh k f \<Longrightarrow> fresh (snd (sys_write S g bs w k)) f"
    "g \<noteq> f \<Longrightarrow> fresh k f \<Longrightarrow> fresh (snd (sys_close S g k)) f"
    using d by simp_all
qed

section \<open>What one event leaves to do\<close>

text \<open>A registered connection is fresh.\<close>

definition watched :: "('k \<Rightarrow> fd \<Rightarrow> u32 option) \<Rightarrow> ('k \<Rightarrow> fd \<Rightarrow> bool) \<Rightarrow> fd \<Rightarrow> 'k echo \<Rightarrow> bool" where
  "watched interest fresh f st \<longleftrightarrow> (interest (kern (proc st)) f \<noteq> None \<longrightarrow> fresh (kern (proc st)) f)"

text \<open>Two turns for each pending byte, one to read and one to write it, and one for what is read already.\<close>

definition to_do :: "('k \<Rightarrow> fd \<Rightarrow> u32 option) \<Rightarrow> 'k view \<Rightarrow> fd \<Rightarrow> 'k echo \<Rightarrow> nat" where
  "to_do interest pending f st = 2 * length (pending (kern (proc st)) f)
     + (if registered_for (interest (kern (proc st)) f) EPOLLOUT then 1 else 0)"

text \<open>From one state to another no more bytes arrive at \<open>f\<close>.\<close>

definition no_arrival :: "'k view \<Rightarrow> fd \<Rightarrow> 'k echo \<Rightarrow> 'k echo \<Rightarrow> bool" where
  "no_arrival arrived f st st' \<longleftrightarrow> length (arrived (kern (proc st')) f) \<le> length (arrived (kern (proc st)) f)"

definition closed_drained :: "('k \<Rightarrow> fd \<Rightarrow> u32 option) \<Rightarrow> 'k view \<Rightarrow> fd \<Rightarrow> 'k echo \<Rightarrow> bool" where
  "closed_drained interest pending f st \<longleftrightarrow>
     (interest (kern (proc st)) f = None \<longrightarrow> pending (kern (proc st)) f = [])"

lemma leaves_silent:
  assumes "leaves A P k k'"
  shows "length (A k f) \<le> length (A k' f)" and "length (A k' f) \<le> length (A k f) \<Longrightarrow> P k' f = P k f"
proof -
  obtain new where "A k' f = A k f @ new" "P k' f = P k f @ new" using assms unfolding leaves_def by blast
  then show "length (A k f) \<le> length (A k' f)" "length (A k' f) \<le> length (A k f) \<Longrightarrow> P k' f = P k f" by simp_all
qed

lemma taken_silent:
  assumes "taken A P g bs k k'"
  shows "length (A k f) \<le> length (A k' f)"
    and "length (A k' f) \<le> length (A k f) \<Longrightarrow> P k f = (if f = g then bs else []) @ P k' f"
proof -
  obtain new where "A k' f = A k f @ new" "P k f @ new = (if f = g then bs else []) @ P k' f"
    using assms unfolding taken_def by blast
  then show "length (A k f) \<le> length (A k' f)"
    "length (A k' f) \<le> length (A k f) \<Longrightarrow> P k f = (if f = g then bs else []) @ P k' f" by simp_all
qed

lemma ends_silent:
  assumes "ends A P g k k'"
  shows "length (A k f) \<le> length (A k' f)"
    and "length (A k' f) \<le> length (A k f) \<Longrightarrow> P k' f = (if f = g then [] else P k f)"
proof -
  consider "f = g" | new where "f \<noteq> g" "A k' f = A k f @ new" "P k' f = P k f @ new"
    using assms unfolding ends_def by blast
  then have "length (A k f) \<le> length (A k' f) \<and> (length (A k' f) \<le> length (A k f) \<longrightarrow> P k' f = (if f = g then [] else P k f))"
    by cases (use assms in \<open>auto simp: ends_def\<close>)
  then show "length (A k f) \<le> length (A k' f)"
    "length (A k' f) \<le> length (A k f) \<Longrightarrow> P k' f = (if f = g then [] else P k f)" by blast+
qed

text \<open>What a transition leaves to do at \<open>f\<close>: unless more arrives, at least \<open>d\<close> turns less, or nothing.\<close>

definition progress ::
    "('k \<Rightarrow> fd \<Rightarrow> u32 option) \<Rightarrow> 'k view \<Rightarrow> 'k view \<Rightarrow> fd \<Rightarrow> nat \<Rightarrow> 'k echo \<Rightarrow> 'k echo \<Rightarrow> bool" where
  "progress interest arrived pending f d st st' \<longleftrightarrow>
     length (arrived (kern (proc st)) f) \<le> length (arrived (kern (proc st')) f)
   \<and> (no_arrival arrived f st st' \<longrightarrow> closed_drained interest pending f st \<longrightarrow>
        closed_drained interest pending f st' \<and> to_do interest pending f st' \<le> to_do interest pending f st - d)"

lemma progress_refl: "progress I A P f 0 st st"
  by (simp add: progress_def)

lemma progress_trans:
  "progress I A P f d st1 st2 \<Longrightarrow> progress I A P f e st2 st3 \<Longrightarrow> progress I A P f (d + e) st1 st3"
  unfolding progress_def no_arrival_def by auto

lemma progress_0: "progress I A P f d st st' \<Longrightarrow> progress I A P f 0 st st'"
  unfolding progress_def by auto

lemma leaves_progress:
  assumes "leaves A P (kern (proc st)) (kern (proc st'))"
    and "I (kern (proc st')) f = I (kern (proc st)) f
      \<or> I (kern (proc st)) f = None \<and> \<not> registered_for (I (kern (proc st')) f) EPOLLOUT"
  shows "progress I A P f 0 st st'"
  using leaves_silent [OF assms(1), of f] assms(2)
  by (auto simp: progress_def no_arrival_def closed_drained_def to_do_def)

section \<open>One event\<close>

lemma accept_answers:
  assumes S: "stream_sockets S A P" and E: "epoll_set S ep interest" and X: "edge_triggered S ep interest P fresh f"
    and acc: "on_accept S ep l st = Inr st'"
  shows "progress interest A P f 0 st st'" and "watched interest fresh f st \<Longrightarrow> watched interest fresh f st'"
proof -
  let ?c = "fst (sys_accept S l (kern (proc st)))"
  let ?ev = "\<lparr>ev_events = EPOLLIN OR EPOLLET, ev_fd = ?c\<rparr>"
  obtain v k where c: "0 \<le> ?c"
    and k: "k = snd (sys_setfl S ?c v (snd (sys_getfl S ?c (snd (sys_accept S l (kern (proc st)))))))"
    and kern: "kern (proc st') = snd (sys_epoll_ctl S ep CTL_ADD ?c ?ev k)"
    using on_accept_past [OF acc] by blast
  have new: "interest (kern (proc st)) ?c = None" by (rule epoll_setD(7) [OF E c])
  have ik: "interest k = interest (kern (proc st))" by (simp add: k epoll_setD(6,9,10) [OF E])
  then have int: "interest (kern (proc st')) = interest (kern (proc st))
      \<or> interest (kern (proc st')) = (interest (kern (proc st)))(?c \<mapsto> (EPOLLIN OR EPOLLET))"
    using epoll_setD(1) [OF E, where f = ?c and ev = ?ev and k = k] by (auto simp: kern)
  have l: "leaves A P (kern (proc st)) (kern (proc st'))"
    unfolding kern k
    by (rule leaves_trans [OF leaves_trans [OF leaves_trans [OF stream_socketsD(5) [OF S] stream_socketsD(1) [OF S]]
        stream_socketsD(2) [OF S]] stream_socketsD(3) [OF S]])
  show "progress interest A P f 0 st st'"
    by (rule leaves_progress [OF l]) (use int new in \<open>cases "f = ?c"; auto simp: event_bits\<close>)
  assume w: "watched interest fresh f st"
  show "watched interest fresh f st'" unfolding watched_def
  proof
    assume reg: "interest (kern (proc st')) f \<noteq> None"
    show "fresh (kern (proc st')) f"
    proof (cases "interest (kern (proc st)) f = None")
      case True
      then have "f = ?c" using int reg by (auto split: if_splits)
      then show ?thesis using edge_triggeredD(3) [OF X, of k ?ev] True reg ik by (simp add: kern)
    next
      case False
      then have "fresh (kern (proc st)) f" using w by (simp add: watched_def)
      then show ?thesis unfolding kern k by (intro edge_triggeredD(4-7) [OF X])
    qed
  qed
qed

lemma on_readable_interest:
  assumes E: "epoll_set S ep interest" and w: "interest (kern (proc st)) g = Some w"
    and bs: "fst (sys_read S g MAXLINE (kern (proc st))) = Inr bs"
  shows "interest (kern (proc (on_readable S ep g st))) =
      (interest (kern (proc st)))(g := if bs = [] then None else Some (EPOLLOUT OR EPOLLET))"
  by (simp add: on_readable_kern [OF bs] epoll_setD(2,8,11) [OF E] w fun_upd_idem)

lemma readable_answers:
  assumes S: "stream_sockets S A P" and E: "epoll_set S ep interest" and X: "edge_triggered S ep interest P fresh f"
    and R: "reads_succeed S" and w: "interest (kern (proc st)) g = Some w" and "\<not> w AND EPOLLOUT \<noteq> 0"
  shows "progress interest A P f (if f = g then 1 else 0) st (on_readable S ep g st)"
    and "f = g \<or> watched interest fresh f st \<Longrightarrow> watched interest fresh f (on_readable S ep g st)"
proof -
  let ?k = "snd (sys_read S g MAXLINE (kern (proc st)))" and ?ev = "\<lparr>ev_events = EPOLLOUT OR EPOLLET, ev_fd = g\<rparr>"
  obtain bs where bs: "fst (sys_read S g MAXLINE (kern (proc st))) = Inr bs"
    using R unfolding reads_succeed_def by blast
  let ?k' = "if bs = [] then snd (sys_close S g ?k) else ?k"
  note kern = on_readable_kern [OF bs, of ep] and int = on_readable_interest [OF E w bs]
  note rcv = receivesD [OF stream_socketsD(9) [OF S], where f = g and n = MAXLINE and k = "kern (proc st)", unfolded bs received_simps]
  have fin: "leaves A P ?k' (kern (proc (on_readable S ep g st)))" unfolding kern by (rule stream_socketsD(3) [OF S])
  have empty: "bs = [] \<Longrightarrow> P ?k g = []" using rcv(3) by (simp add: MAXLINE_def)
  let ?st' = "on_readable S ep g st"
  have l1: "length (A (kern (proc st)) f) \<le> length (A ?k f)"
    and p1: "length (A ?k f) \<le> length (A (kern (proc st)) f) \<Longrightarrow> P (kern (proc st)) f = (if f = g then bs else []) @ P ?k f"
    using taken_silent [OF rcv(1), where f = f] by simp_all
  have l2: "length (A ?k f) \<le> length (A ?k' f)"
    and p2: "length (A ?k' f) \<le> length (A ?k f) \<Longrightarrow> P ?k' f = P ?k f"
    using ends_silent [OF stream_socketsD(7) [OF S], where f = f and k = ?k and g = g] empty by (cases "bs = []"; cases "f = g"; simp)+
  have l3: "length (A ?k' f) \<le> length (A (kern (proc ?st')) f)"
    and p3: "length (A (kern (proc ?st')) f) \<le> length (A ?k' f) \<Longrightarrow> P (kern (proc ?st')) f = P ?k' f"
    using leaves_silent [OF fin, where f = f] by blast+
  have "P (kern (proc st)) f = (if f = g then bs else []) @ P (kern (proc ?st')) f
      \<and> (f = g \<longrightarrow> bs = [] \<longrightarrow> P (kern (proc ?st')) f = [])" if "no_arrival A f st ?st'"
  proof -
    have "length (A ?k f) \<le> length (A (kern (proc st)) f)" "length (A ?k' f) \<le> length (A ?k f)"
      "length (A (kern (proc ?st')) f) \<le> length (A ?k' f)"
      using that l1 l2 l3 unfolding no_arrival_def by linarith+
    from p1 [OF this(1)] p2 [OF this(2)] p3 [OF this(3)] empty show ?thesis by (cases "f = g"; simp)
  qed
  then show "progress interest A P f (if f = g then 1 else 0) st ?st'"
    using l1 l2 l3 w assms(6) by (cases bs) (auto simp: progress_def closed_drained_def to_do_def int)
  show "watched interest fresh f ?st'" if "f = g \<or> watched interest fresh f st"
    unfolding watched_def
  proof
    assume reg: "interest (kern (proc ?st')) f \<noteq> None"
    show "fresh (kern (proc ?st')) f"
    proof (cases "f = g")
      case True
      then have "bs \<noteq> []" using reg by (auto simp: int)
      then show ?thesis
        using edge_triggeredD(2) [OF X, of ?k ?ev] w True by (simp add: kern epoll_setD(11) [OF E])
    next
      case False
      then have "fresh (kern (proc st)) f" using that reg by (simp add: watched_def int)
      then show ?thesis using False unfolding kern by (auto intro!: edge_triggeredD(4,8,10) [OF X])
    qed
  qed
qed

lemma writable_answers:
  assumes S: "stream_sockets S A P" and E: "epoll_set S ep interest" and X: "edge_triggered S ep interest P fresh f"
    and w: "interest (kern (proc st)) g = Some w" "w AND EPOLLOUT \<noteq> 0"
  shows "progress interest A P f (if f = g then 1 else 0) st (on_writable S ep g st)"
    and "f = g \<or> watched interest fresh f st \<Longrightarrow> watched interest fresh f (on_writable S ep g st)"
proof -
  let ?st' = "on_writable S ep g st" and ?ev = "\<lparr>ev_events = EPOLLIN OR EPOLLET, ev_fd = g\<rparr>"
  let ?k = "snd (sys_write S g (line st) (of_int (n_read st)) (kern (proc st)))"
  have kern: "kern (proc ?st') = snd (sys_epoll_ctl S ep CTL_MOD g ?ev ?k)"
    by (simp add: on_writable_def Let_def case_prod_unfold)
  have int: "interest (kern (proc ?st')) = (interest (kern (proc st)))(g \<mapsto> (EPOLLIN OR EPOLLET))"
    by (simp add: kern epoll_setD(2,12) [OF E] w(1))
  have "leaves A P (kern (proc st)) (kern (proc ?st'))"
    unfolding kern by (rule leaves_trans [OF stream_socketsD(6) [OF S] stream_socketsD(3) [OF S]])
  from leaves_silent [OF this, of f] show "progress interest A P f (if f = g then 1 else 0) st ?st'"
    using w by (auto simp: progress_def no_arrival_def closed_drained_def to_do_def int event_bits)
  show "watched interest fresh f ?st'" if "f = g \<or> watched interest fresh f st"
  proof (cases "f = g")
    case True
    then show ?thesis using edge_triggeredD(2) [OF X, of ?k ?ev] w(1) by (simp add: watched_def kern epoll_setD(12) [OF E])
  next
    case False
    then show ?thesis using that unfolding watched_def kern
      by (auto simp: int [unfolded kern] intro!: edge_triggeredD(4,9) [OF X])
  qed
qed

text \<open>Together: an event that serves \<open>f\<close> makes progress there and leaves it watched, any other event keeps both.\<close>

lemma event_answers:
  assumes S: "stream_sockets S A P" and E: "epoll_set S ep interest" and X: "edge_triggered S ep interest P fresh f"
    and R: "reads_succeed S" and inv: "in_phase interest st" and f: "f \<noteq> lfd" "0 \<le> f"
    and ev: "reportable ev (interest (kern (proc st)) (ev_fd ev))" and step: "echo_event S ep lfd ev st = Inr st'"
  shows "progress interest A P f 0 st st'"
    and "watched interest fresh f st \<Longrightarrow> watched interest fresh f st'"
    and "serves (interest (kern (proc st)) f) f ev \<Longrightarrow>
      progress interest A P f 1 st st' \<and> watched interest fresh f st'"
proof -
  have not_both: "\<not> w AND EPOLLOUT \<noteq> 0" if "interest (kern (proc st)) g = Some w" "w AND EPOLLIN \<noteq> 0" for g w
    using inv that unfolding in_phase_def by (metis fits_simps(2) phase.distinct(5))
  have "progress interest A P f 0 st st' \<and> (watched interest fresh f st \<longrightarrow> watched interest fresh f st')"
    using ev step
  proof (cases rule: reported_event_cases)
    case accept
    then show ?thesis using accept_answers [OF S E X] by blast
  next
    case idle
    then show ?thesis using progress_refl by blast
  next
    case (readable w)
    then show ?thesis
      using readable_answers [OF S E X R readable(1) not_both [OF readable(1,2)]] progress_0 by blast
  next
    case (writable w)
    then show ?thesis using writable_answers [OF S E X writable(1,2)] progress_0 by blast
  qed
  then show "progress interest A P f 0 st st'" and "watched interest fresh f st \<Longrightarrow> watched interest fresh f st'"
    by blast+
  assume "serves (interest (kern (proc st)) f) f ev"
  then obtain w where fd: "ev_fd ev = f" and w: "interest (kern (proc st)) f = Some w"
    and bits: "w AND EPOLLIN \<noteq> 0 \<and> ev_events ev AND EPOLLIN \<noteq> 0 \<or> w AND EPOLLOUT \<noteq> 0 \<and> ev_events ev AND EPOLLOUT \<noteq> 0"
    unfolding serves_def registered_for_def by fastforce
  show "progress interest A P f 1 st st' \<and> watched interest fresh f st'"
  proof (cases "ev_events ev AND EPOLLIN = 0")
    case True
    then have "st' = on_writable S ep f st" using step fd f bits by (simp add: echo_event_def)
    then show ?thesis using writable_answers [OF S E X w] bits True by simp
  next
    case False
    then have st': "st' = on_readable S ep f st" using step fd f by (simp add: echo_event_def)
    have "w AND EPOLLIN \<noteq> 0" using ev False by (simp add: reportable_def fd w)
    then show ?thesis using readable_answers [OF S E X R w not_both [OF w]] st' by simp
  qed
qed

section \<open>Batches and turns\<close>

lemma batch_answers:
  assumes S: "stream_sockets S A P" and E: "epoll_set S ep interest" and X: "edge_triggered S ep interest P fresh f"
    and R: "reads_succeed S" and f: "f \<noteq> lfd" "0 \<le> f"
  shows "in_phase interest st \<Longrightarrow> distinct (map ev_fd evs) \<Longrightarrow>
    (\<And>ev. ev \<in> set evs \<Longrightarrow> reportable ev (interest (kern (proc st)) (ev_fd ev))) \<Longrightarrow>
    echo_batch S ep lfd evs st = Inr st' \<Longrightarrow>
    progress interest A P f 0 st st' \<and> (watched interest fresh f st \<longrightarrow> watched interest fresh f st')
    \<and> ((\<exists>ev\<in>set evs. serves (interest (kern (proc st)) f) f ev) \<longrightarrow>
         progress interest A P f 1 st st' \<and> watched interest fresh f st')"
proof (induction evs arbitrary: st)
  case Nil
  then show ?case using progress_refl by simp
next
  case (Cons ev evs)
  from Cons.prems(4) obtain st1 where st1: "echo_event S ep lfd ev st = Inr st1" "echo_batch S ep lfd evs st1 = Inr st'"
    by (auto split: sum.splits)
  note rep = Cons.prems(3)
  have ev: "reportable ev (interest (kern (proc st)) (ev_fd ev))" by (rule rep) simp
  note phase = event_in_phase [OF E Cons.prems(1) ev st1(1)]
  note step = event_answers [OF S E X R Cons.prems(1) f ev st1(1)]
  have other: "ev_fd e \<noteq> ev_fd ev" if "e \<in> set evs" for e
    using Cons.prems(2) that by (metis distinct.simps(2) imageI list.set_map list.simps(9))
  have "reportable e (interest (kern (proc st1)) (ev_fd e))" if "e \<in> set evs" for e
  proof -
    have "reportable e (interest (kern (proc st)) (ev_fd e))" using rep that by simp
    then show ?thesis using phase(2) [OF other [OF that]] by (auto simp: reportable_def split: option.splits)
  qed
  note rest = Cons.IH [OF phase(1) _ this st1(2)]
  have rest0: "progress interest A P f 0 st1 st'" and keep: "watched interest fresh f st1 \<longrightarrow> watched interest fresh f st'"
    and rest1: "(\<exists>e\<in>set evs. serves (interest (kern (proc st1)) f) f e) \<longrightarrow>
         progress interest A P f 1 st1 st' \<and> watched interest fresh f st'"
    using rest Cons.prems(2) by simp_all
  have "progress interest A P f 1 st st' \<and> watched interest fresh f st'"
    if e: "e \<in> set (ev # evs)" "serves (interest (kern (proc st)) f) f e" for e
  proof (cases "e = ev")
    case True
    then show ?thesis using step(3) e(2) progress_trans [OF _ rest0, of 1 st] keep by auto
  next
    case False
    then have mem: "e \<in> set evs" using e(1) by simp
    have "f \<noteq> ev_fd ev" using other [OF mem] e(2) by (simp add: serves_def)
    moreover have "interest (kern (proc st)) f \<noteq> None" using e(2) by (auto simp: serves_def registered_for_def)
    ultimately have "interest (kern (proc st1)) f = interest (kern (proc st)) f" by (rule phase(2))
    then show ?thesis using rest1 mem e(2) progress_trans [OF step(1), of 1 st'] by auto
  qed
  then show ?case using progress_trans [OF step(1) rest0] step(2) keep by auto
qed

lemma turn_answers:
  assumes S: "stream_sockets S A P" and E: "epoll_set S ep interest" and X: "edge_triggered S ep interest P fresh f"
    and R: "reads_succeed S" and f: "f \<noteq> lfd" "0 \<le> f"
    and inv: "in_phase interest st" and watched: "watched interest fresh f st" and turn: "echo_turn S ep lfd st = Inr st'"
  shows "progress interest A P f 1 st st' \<and> watched interest fresh f st'"
proof -
  let ?st = "st\<lparr>proc := snd (do_wait S ep 20 500 (proc st))\<rparr>"
  let ?r = "interest (kern (proc st)) f"
  have int: "interest (kern (proc ?st)) = interest (kern (proc st))" by (simp add: epoll_setD(3) [OF E])
  have phase: "in_phase interest ?st" using inv by (simp add: in_phase_def protocol_append epoll_setD(3) [OF E])
  have "leaves A P (kern (proc st)) (kern (proc ?st))" by (simp add: stream_socketsD(4) [OF S])
  note silent = leaves_silent [OF this, of f] and wait = leaves_progress [OF this, of interest f]
  have wait: "progress interest A P f 0 st ?st" by (rule wait) (simp add: epoll_setD(3) [OF E])
  have batch: "progress interest A P f 0 ?st st' \<and> (watched interest fresh f ?st \<longrightarrow> watched interest fresh f st')
      \<and> (\<forall>evs. fst (sys_epoll_wait S ep 20 500 (kern (proc st))) = Inr evs \<longrightarrow> (\<exists>ev\<in>set evs. serves ?r f ev) \<longrightarrow>
           progress interest A P f 1 ?st st' \<and> watched interest fresh f st')"
  proof (cases "fst (sys_epoll_wait S ep 20 500 (kern (proc st)))")
    case (Inl e)
    then have "st' = ?st" using turn by (simp add: echo_turn_def Let_def case_prod_unfold)
    then show ?thesis using progress_refl Inl by simp
  next
    case (Inr evs)
    then have b: "echo_batch S ep lfd evs ?st = Inr st'" using turn by (simp add: echo_turn_def Let_def case_prod_unfold)
    have rep: "reportable e (interest (kern (proc ?st)) (ev_fd e))" if "e \<in> set evs" for e
      using epoll_setD(5) [OF E Inr that] unfolding int .
    from batch_answers [OF S E X R f phase epoll_setD(4) [OF E Inr] rep b] show ?thesis
      using Inr unfolding int by simp
  qed
  show ?thesis
  proof (cases "?r = None")
    case True
    then have "watched interest fresh f ?st" by (simp add: watched_def epoll_setD(3) [OF E])
    moreover have "progress interest A P f 0 st st'" using progress_trans [OF wait, of 0 st'] batch by simp
    moreover have "to_do interest P f st = 0" if "closed_drained interest P f st"
      using that True by (simp add: to_do_def closed_drained_def)
    ultimately have "watched interest fresh f ?st \<and> progress interest A P f 1 st st'" by (simp add: progress_def)
    then show ?thesis using batch by blast
  next
    case False
    then have fr: "fresh (kern (proc st)) f" using watched by (simp add: watched_def)
    have ks: "kern (proc ?st) = snd (sys_epoll_wait S ep 20 500 (kern (proc st)))" by simp
    obtain evs where evs: "fst (sys_epoll_wait S ep 20 500 (kern (proc st))) = Inr evs"
      and rep: "if registered_for ?r EPOLLIN \<and> P (kern (proc ?st)) f \<noteq> [] \<or> registered_for ?r EPOLLOUT
           then \<exists>ev\<in>set evs. serves ?r f ev else fresh (kern (proc ?st)) f"
      using edge_triggeredD(1) [OF X fr, where n = 20 and t = 500] unfolding ks by blast
    show ?thesis
    proof (cases "registered_for ?r EPOLLIN \<and> P (kern (proc ?st)) f \<noteq> [] \<or> registered_for ?r EPOLLOUT")
      case True
      then show ?thesis using rep batch evs progress_trans [OF wait, of 1 st'] by auto
    next
      case idle: False
      obtain w where w: "?r = Some w" using False by blast
      obtain ph where "fits ph ?r" using inv unfolding in_phase_def by blast
      then have quiet: "P (kern (proc ?st)) f = []" "\<not> registered_for ?r EPOLLOUT" using idle by (auto simp: w)
      have "progress interest A P f 0 st st'" using progress_trans [OF wait, of 0 st'] batch by simp
      moreover have "to_do interest P f st = 0" if "no_arrival A f st st'"
      proof -
        have "length (A (kern (proc ?st)) f) \<le> length (A (kern (proc st)) f)"
          using that batch unfolding progress_def no_arrival_def by linarith
        from silent(2) [OF this] quiet(1) have "P (kern (proc st)) f = []" by metis
        then show ?thesis unfolding to_do_def using quiet(2) by simp
      qed
      ultimately have "progress interest A P f 1 st st'" by (auto simp: progress_def)
      moreover have "watched interest fresh f ?st" using rep [unfolded if_not_P [OF idle]] unfolding watched_def by blast
      ultimately show ?thesis using batch by blast
    qed
  qed
qed

lemma turns_answer:
  assumes S: "stream_sockets S A P" and E: "epoll_set S ep interest" and X: "edge_triggered S ep interest P fresh f"
    and R: "reads_succeed S" and f: "f \<noteq> lfd" "0 \<le> f"
  shows "in_phase interest st \<Longrightarrow> watched interest fresh f st \<Longrightarrow> echo_turns n S ep lfd st = Some st' \<Longrightarrow>
    progress interest A P f n st st' \<and> watched interest fresh f st'"
proof (induction n arbitrary: st)
  case 0
  then show ?case using progress_refl by simp
next
  case (Suc n)
  then obtain st1 where st1: "echo_turn S ep lfd st = Inr st1" "echo_turns n S ep lfd st1 = Some st'"
    by (auto split: sum.splits)
  have "in_phase interest st1"
    using echo_phases.turns_hold [OF E Suc.prems(1) TrueI, where n = 1 and lfd = lfd and st' = st1] st1(1) by simp
  with turn_answers [OF S E X R f Suc.prems(1,2) st1(1)] Suc.IH [OF _ _ st1(2)] show ?case
    using progress_trans [of interest A P f 1 st st1 n st'] by simp
qed

section \<open>Properties\<close>


text \<open>
  The system with clients, edge-triggered for descriptor 5: beside the clients the state says whether 5 is still to be
  reported. Of the scripted events only those of the listening socket 3 are used.
\<close>

definition edge_events :: "clients \<Rightarrow> epoll_event list" where
  "edge_events k = (case c_interest k 5 of None \<Rightarrow> []
     | Some w \<Rightarrow> if w AND EPOLLIN \<noteq> 0 \<and> c_pending k 5 \<noteq> [] then [\<lparr>ev_events = EPOLLIN, ev_fd = 5\<rparr>]
         else if w AND EPOLLOUT \<noteq> 0 then [\<lparr>ev_events = EPOLLOUT, ev_fd = 5\<rparr>] else [])"

definition next_arrival :: "clients \<Rightarrow> clients" where
  "next_arrival k = (case c_next k of [] \<Rightarrow> k | (g, bs, ev) # rest \<Rightarrow>
     k\<lparr>c_next := rest, c_arrived := (c_arrived k)(g := c_arrived k g @ bs), c_pending := (c_pending k)(g := c_pending k g @ bs)\<rparr>)"

definition listener_events :: "clients \<Rightarrow> epoll_event list" where
  "listener_events k = (case c_next k of [] \<Rightarrow> [] | (g, bs, ev) # rest \<Rightarrow>
     if ev_fd ev = 3 \<and> reportable ev (c_interest k 3) then [ev] else [])"

definition edge_wait :: "fd \<Rightarrow> nat \<Rightarrow> int \<Rightarrow> clients \<times> bool \<Rightarrow> (errno + epoll_event list) \<times> (clients \<times> bool)" where
  "edge_wait ep n t s =
     (let k = next_arrival (fst s); evs = (if snd s then edge_events k else [])
      in (Inr (listener_events (fst s) @ evs), (k, snd s \<and> edge_events k = [])))"

definition edge_ctl :: "fd \<Rightarrow> ctl_op \<Rightarrow> fd \<Rightarrow> epoll_event \<Rightarrow> clients \<times> bool \<Rightarrow> int \<times> (clients \<times> bool)" where
  "edge_ctl ep c f ev s =
     (let (r, k) = client_ctl ep c f ev (fst s) in (r, (k, if f = 5 \<and> r = 0 then True else snd s)))"

definition edge_os :: "(clients \<times> bool) os" where
  "edge_os = \<lparr>
     sys_getfl = (\<lambda>f s. (2, s)), sys_setfl = (\<lambda>f v s. (0, s)), sys_epoll_ctl = edge_ctl, sys_epoll_wait = edge_wait,
     sys_accept = (\<lambda>f s. (if c_interest (fst s) 5 = None then 5 else -1, s)),
     sys_recv = (\<lambda>f n s. (fst (client_read f n (fst s)), (snd (client_read f n (fst s)), snd s))),
     sys_read = (\<lambda>f n s. (fst (client_read f n (fst s)), (snd (client_read f n (fst s)), snd s))),
     sys_write = (\<lambda>f bs n s. (int (unat n), ((fst s)\<lparr>c_sent := (c_sent (fst s))(f := c_sent (fst s) f @ take (unat n) bs)\<rparr>, snd s))),
     sys_close = (\<lambda>f s. (0, ((fst s)\<lparr>c_interest := (c_interest (fst s))(f := None),
        c_pending := (c_pending (fst s))(f := [])\<rparr>, snd s))) \<rparr>"

lemma next_arrival_interest [simp]: "c_interest (next_arrival k) = c_interest k"
  by (simp add: next_arrival_def split: list.split)

lemma next_arrival_leaves:
  "leaves (\<lambda>s. c_arrived (fst s)) (\<lambda>s. c_pending (fst s)) s (next_arrival (fst s), b)"
  by (auto simp: leaves_def next_arrival_def split: list.split)

lemma edge_events_cases:
  "edge_events k = [] \<or> edge_events k = [\<lparr>ev_events = EPOLLIN, ev_fd = 5\<rparr>] \<and> registered_for (c_interest k 5) EPOLLIN
   \<or> edge_events k = [\<lparr>ev_events = EPOLLOUT, ev_fd = 5\<rparr>] \<and> registered_for (c_interest k 5) EPOLLOUT"
  by (auto simp: edge_events_def split: option.split)

lemma listener_events_cases:
  "listener_events k = [] \<or> (\<exists>ev. listener_events k = [ev] \<and> ev_fd ev = 3 \<and> reportable ev (c_interest k 3))"
  by (auto simp: listener_events_def split: list.split)

lemma reportable_one:
  "registered_for r EPOLLIN \<Longrightarrow> reportable \<lparr>ev_events = EPOLLIN, ev_fd = f\<rparr> r"
  "registered_for r EPOLLOUT \<Longrightarrow> reportable \<lparr>ev_events = EPOLLOUT, ev_fd = f\<rparr> r"
  by (auto simp: registered_for_def reportable_def EPOLLIN_def EPOLLOUT_def)

lemma edge_wait_reports:
  "distinct (map ev_fd (listener_events k @ (if b then edge_events (next_arrival k) else [])))
   \<and> (\<forall>ev\<in>set (listener_events k @ (if b then edge_events (next_arrival k) else [])). reportable ev (c_interest k (ev_fd ev)))"
  using listener_events_cases [of k] edge_events_cases [of "next_arrival k"] reportable_one by fastforce

lemma edge_events_serve:
  "registered_for (c_interest k 5) EPOLLIN \<and> c_pending k 5 \<noteq> [] \<or> registered_for (c_interest k 5) EPOLLOUT
    \<longleftrightarrow> edge_events k \<noteq> []"
  "ev \<in> set (edge_events k) \<Longrightarrow> serves (c_interest k 5) 5 ev"
  by (cases "c_interest k 5"; auto simp: edge_events_def serves_def EPOLLIN_def EPOLLOUT_def split: if_splits)+

lemma edge_os_epoll: "epoll_set edge_os ep (\<lambda>s. c_interest (fst s))"
  unfolding epoll_set_def
proof (intro conjI)
  show "\<forall>n t k evs. fst (sys_epoll_wait edge_os ep n t k) = Inr evs \<longrightarrow>
      distinct (map ev_fd evs) \<and> (\<forall>ev\<in>set evs. reportable ev (c_interest (fst k) (ev_fd ev)))"
  proof (intro allI impI)
    fix n t k evs assume "fst (sys_epoll_wait edge_os ep n t k) = Inr evs"
    then have "evs = listener_events (fst k) @ (if snd k then edge_events (next_arrival (fst k)) else [])"
      by (simp add: edge_os_def edge_wait_def Let_def)
    then show "distinct (map ev_fd evs) \<and> (\<forall>ev\<in>set evs. reportable ev (c_interest (fst k) (ev_fd ev)))"
      using edge_wait_reports [of "fst k" "snd k"] by simp
  qed
qed (auto simp: edge_os_def edge_ctl_def client_ctl_def edge_wait_def client_read_def Let_def)

lemma edge_os_reads: "reads_succeed edge_os"
  by (simp add: reads_succeed_def edge_os_def client_read_def)

lemma edge_os_streams: "stream_sockets edge_os (\<lambda>s. c_arrived (fst s)) (\<lambda>s. c_pending (fst s))"
proof -
  have "receives (\<lambda>s. c_arrived (fst s)) (\<lambda>s. c_pending (fst s))
      (\<lambda>f n s. (fst (client_read f n (fst s)), (snd (client_read f n (fst s)), snd s)))"
    by (auto simp: receives_def taken_def client_read_def)
  then show ?thesis
    unfolding stream_sockets_def
    by (intro conjI) (auto simp: edge_os_def edge_ctl_def client_ctl_def edge_wait_def next_arrival_leaves Let_def ends_def
        intro: leaves_def [THEN iffD2])
qed

lemma edge_os_output: "output_sockets edge_os (\<lambda>s. c_sent (fst s))" "takes_all edge_os interest f"
proof -
  show "output_sockets edge_os (\<lambda>s. c_sent (fst s))"
    unfolding output_sockets_def
    by (intro conjI) (auto simp: edge_os_def edge_ctl_def client_ctl_def edge_wait_def client_read_def next_arrival_def
        Let_def split: list.splits prod.splits)
qed (simp add: takes_all_def edge_os_def)

lemma edge_os_edges:
  "edge_triggered edge_os ep (\<lambda>s. c_interest (fst s)) (\<lambda>s. c_pending (fst s)) (\<lambda>s f. snd s) 5"
  unfolding edge_triggered_def
proof (intro conjI)
  show "\<forall>n t k. snd k \<longrightarrow> (\<exists>evs. fst (sys_epoll_wait edge_os ep n t k) = Inr evs
        \<and> (if registered_for (c_interest (fst k) 5) EPOLLIN \<and> c_pending (fst (snd (sys_epoll_wait edge_os ep n t k))) 5 \<noteq> []
              \<or> registered_for (c_interest (fst k) 5) EPOLLOUT
           then \<exists>ev\<in>set evs. serves (c_interest (fst k) 5) 5 ev
           else snd (snd (sys_epoll_wait edge_os ep n t k))))"
  proof (intro allI impI)
    fix n t and k :: "clients \<times> bool" assume k: "snd k"
    let ?k = "next_arrival (fst k)"
    have w: "sys_epoll_wait edge_os ep n t k = (Inr (listener_events (fst k) @ edge_events ?k), (?k, edge_events ?k = []))"
      using k by (simp add: edge_os_def edge_wait_def Let_def)
    show "\<exists>evs. fst (sys_epoll_wait edge_os ep n t k) = Inr evs
        \<and> (if registered_for (c_interest (fst k) 5) EPOLLIN \<and> c_pending (fst (snd (sys_epoll_wait edge_os ep n t k))) 5 \<noteq> []
              \<or> registered_for (c_interest (fst k) 5) EPOLLOUT
           then \<exists>ev\<in>set evs. serves (c_interest (fst k) 5) 5 ev
           else snd (snd (sys_epoll_wait edge_os ep n t k)))"
      using edge_events_serve(1) [of ?k] edge_events_serve(2) [of _ ?k] unfolding w
      by (cases "edge_events ?k") auto
  qed
qed (auto simp: edge_os_def edge_ctl_def client_ctl_def Let_def split: if_splits)

text \<open>The client of descriptor 5 sends twelve bytes in one go; after two turns the first ten are read.\<close>

definition sample_edges :: "(clients \<times> bool) echo" where
  "sample_edges = \<lparr>proc = \<lparr>kern = (\<lparr>c_interest = (\<lambda>_. None), c_arrived = (\<lambda>_. []), c_pending = (\<lambda>_. []),
       c_sent = (\<lambda>_. []), c_next = [(3, [], \<lparr>ev_events = EPOLLIN, ev_fd = 3\<rparr>), (5, [1, 2, 3, 4, 5, 6, 7, 8, 9, 10, 11, 12], \<lparr>ev_events = 0, ev_fd = 0\<rparr>)]\<rparr>, False),
     trace = [Getfl 3, Setfl 3 0x802]\<rparr>, line = replicate 10 99, n_read = 77\<rparr>"

definition sample_read :: "(clients \<times> bool) echo" where
  "sample_read = \<lparr>proc = \<lparr>kern = (\<lparr>c_interest = [3 \<mapsto> EPOLLIN OR EPOLLET, 5 \<mapsto> EPOLLOUT OR EPOLLET],
       c_arrived = (\<lambda>_. [])(3 := [], 5 := [1, 2, 3, 4, 5, 6, 7, 8, 9, 10, 11, 12]),
       c_pending = (\<lambda>_. [])(3 := [], 5 := [11, 12]), c_sent = (\<lambda>_. []), c_next = []\<rparr>, True),
     trace = [Getfl 3, Setfl 3 0x802, Ctl 4 CTL_ADD 3 (EPOLLIN OR EPOLLET), Wait 4 20 500, Accept 3, Getfl 5,
       Setfl 5 (2 OR O_NONBLOCK), Print (Line ''connect from''), Ctl 4 CTL_ADD 5 (EPOLLIN OR EPOLLET),
       Wait 4 20 500, Read 5 10, Ctl 4 CTL_MOD 5 (EPOLLOUT OR EPOLLET)]\<rparr>,
     line = [1, 2, 3, 4, 5, 6, 7, 8, 9, 10], n_read = 10\<rparr>"

lemmas edge_simps = client_simps edge_os_def edge_ctl_def edge_wait_def next_arrival_def listener_events_def edge_events_def

lemma sample_edges_run: "echo_turns 2 edge_os 4 3 (echo_ready edge_os 4 3 sample_edges) = Some sample_read"
  by (simp add: numeral_2_eq_2 edge_simps sample_edges_def sample_read_def)

lemma sample_read_run:
  obtains st2 where "echo_turns 5 edge_os 4 3 sample_read = Some st2"
    and "c_arrived (fst (kern (proc st2))) 5 = [1, 2, 3, 4, 5, 6, 7, 8, 9, 10, 11, 12]"
    and "undisturbed 5 (past st2)"
  by (simp add: five_rounds edge_simps sample_read_def undisturbed_def)


end
