(* ===== verification/Whole_Programs.thy ===== *)
theory Whole_Programs
  imports Server_Streams Echo_Answers
begin

text \<open>
  The two servers from \<open>main\<close> to their end. The start-up of each is put in front of its loop, so that what
  the components show of a loop becomes a statement on the program: every way it can end, when it runs for
  ever, and what has happened to the bytes of every client by then.
\<close>

section \<open>The start-up\<close>

text \<open>What \<open>main\<close> of \<open>server.c\<close> does before the loop: it ends, or goes on with the listening socket, the
  epoll descriptor and the process.\<close>

definition server_startup ::
    "'k startup \<Rightarrow> string list \<Rightarrow> 'k proc \<Rightarrow> exit_status \<times> 'k proc + fd \<times> fd \<times> 'k proc" where
  "server_startup L argv p =
     (if length argv \<le> 2 then Inl (Return 1, say (Line ''usage: %s ip_address port_number'') p)
      else
        let address = server_address L (argv ! 1) (lib_atoi L (argv ! 2));
            (listenfd, k1) = sys_socket L (kern p);
            (bound, k2) = sys_bind L listenfd address k1;
            (listening, k3) = sys_listen L listenfd 5 k2;
            (epollfd, k4) = sys_epoll_create L 5 k3
        in if listenfd < 0 then Inl (Assertion_failed, p\<lparr>kern := k1\<rparr>)
           else if bound = -1 then Inl (Assertion_failed, p\<lparr>kern := k2\<rparr>)
           else if listening = -1 then Inl (Assertion_failed, p\<lparr>kern := k3\<rparr>)
           else if epollfd = -1 then Inl (Assertion_failed, p\<lparr>kern := k4\<rparr>)
           else Inr (listenfd, epollfd, p\<lparr>kern := k4\<rparr>))"

lemma server_main_startup:
  "server_main S L argv p =
     (case server_startup L argv p of Inl r \<Rightarrow> Some r | Inr (l, ep, p) \<Rightarrow> server_run S l ep p)"
  by (simp add: server_main_def server_startup_def Let_def case_prod_unfold not_le)

text \<open>What the system documents of the calls of the start-up: no byte of a stream is taken or lost.\<close>

definition startup_leaves :: "'k startup \<Rightarrow> 'k view \<Rightarrow> 'k view \<Rightarrow> bool" where
  "startup_leaves L arrived pending \<longleftrightarrow>
     (\<forall>k. leaves arrived pending k (snd (sys_socket L k)))
   \<and> (\<forall>f a k. leaves arrived pending k (snd (sys_bind L f a k)))
   \<and> (\<forall>f n k. leaves arrived pending k (snd (sys_listen L f n k)))
   \<and> (\<forall>n k. leaves arrived pending k (snd (sys_epoll_create L n k)))"

lemma startup_leavesD:
  assumes "startup_leaves L A P"
  shows "leaves A P k (snd (sys_socket L k))" "leaves A P k (snd (sys_bind L f a k))"
    "leaves A P k (snd (sys_listen L f n k))" "leaves A P k (snd (sys_epoll_create L n k))"
  using assms by (simp_all add: startup_leaves_def)

lemma server_startup_ends:
  assumes "server_startup L argv p = Inl (st, p')"
  shows "st = Return 1 \<and> length argv \<le> 2 \<and> trace p' = trace p @ [Print (Line ''usage: %s ip_address port_number'')]
    \<or> st = Assertion_failed \<and> 2 < length argv \<and> trace p' = trace p"
  using assms by (auto simp: server_startup_def Let_def split: if_splits prod.splits)

lemma server_startup_goes_on:
  assumes "server_startup L argv p = Inr (l, ep, q)"
  shows "0 \<le> l \<and> 2 < length argv \<and> trace q = trace p"
    and "startup_leaves L A P \<Longrightarrow> leaves A P (kern p) (kern q)"
proof -
  let ?k1 = "snd (sys_socket L (kern p))" and ?l = "fst (sys_socket L (kern p))"
  let ?k2 = "snd (sys_bind L ?l (server_address L (argv ! 1) (lib_atoi L (argv ! 2))) ?k1)"
  let ?k3 = "snd (sys_listen L ?l 5 ?k2)"
  have q: "0 \<le> l" "2 < length argv" "q = p\<lparr>kern := snd (sys_epoll_create L 5 ?k3)\<rparr>"
    using assms by (auto simp: server_startup_def Let_def case_prod_unfold split: if_splits)
  then show "0 \<le> l \<and> 2 < length argv \<and> trace q = trace p" by simp
  assume L: "startup_leaves L A P"
  note d = startup_leavesD [OF L]
  show "leaves A P (kern p) (kern q)"
    unfolding q(3) using leaves_trans [OF leaves_trans [OF leaves_trans [OF d(1) d(2)] d(3)] d(4)] by simp
qed

section \<open>The printing server\<close>

lemma server_main_None:
  "server_main S L argv p = None \<longleftrightarrow> (\<exists>l ep q. server_startup L argv p = Inr (l, ep, q) \<and> main_loop S l ep (addfd S ep l True q) = None)"
  by (auto simp: server_main_startup server_run_def server_ready_def bind_None_iff split: sum.splits)

text \<open>C32: the server runs for ever exactly when its start-up succeeds and no wait ever fails: \<open>main\<close> does not
  return if and only if it gets past its assertions and every number of rounds of the loop can be run.\<close>

theorem server_runs_forever_iff:
  "server_main S L argv p = None \<longleftrightarrow>
     (\<exists>listenfd epollfd q. server_startup L argv p = Inr (listenfd, epollfd, q)
       \<and> (\<forall>n. server_rounds n S listenfd epollfd (addfd S epollfd listenfd True q) \<noteq> None))"
proof -
  have "main_loop S l ep p = None \<longleftrightarrow> (\<forall>n. server_rounds n S l ep p \<noteq> None)" for l ep and p :: "'a proc"
  proof
    assume none: "main_loop S l ep p = None"
    show "\<forall>n. server_rounds n S l ep p \<noteq> None"
    proof
      fix n show "server_rounds n S l ep p \<noteq> None"
      proof (induction n)
        case (Suc n)
        then obtain q where q: "server_rounds n S l ep p = Some q" by blast
        then have "\<not> wait_fails S ep q" using main_loop_rounds none by fastforce
        then show ?case using q wait_fails_round [of S ep q l] by (simp add: server_rounds_Suc_last del: server_rounds.simps)
      qed simp
    qed
  next
    assume all: "\<forall>n. server_rounds n S l ep p \<noteq> None"
    show "main_loop S l ep p = None"
    proof (rule ccontr)
      assume "main_loop S l ep p \<noteq> None"
      then obtain n q where "server_rounds n S l ep p = Some q" "wait_fails S ep q"
        using main_loop_returns by blast
      then have "server_rounds (Suc n) S l ep p = None"
        using wait_fails_round [of S ep q l] by (simp add: server_rounds_Suc_last del: server_rounds.simps)
      then show False using all by blast
    qed
  qed
  then show ?thesis by (simp add: server_main_None)
qed

text \<open>C13: what the program \<open>server.c\<close> does, from \<open>main\<close> to its end. It prints its usage and returns 1, or
  dies in an assertion of the start-up without having printed anything, or returns 0: then a wait has
  failed, which is reported and followed by the close of the listening socket, and by then, for every
  connection, what was taken from it are messages of at most nine bytes; these and what is still pending are
  exactly the bytes that arrived, and what was printed are the texts of the messages, each up to its first NUL.
  Where no NUL arrived, what was printed and what is pending are exactly the bytes that arrived.\<close>

theorem server_main_prints_every_stream:
  assumes "stream_sockets S arrived pending" and "startup_leaves L arrived pending" and "trace p = []"
    and "server_main S L argv p = Some (st, p')"
  shows "st = Return 1 \<and> length argv \<le> 2 \<and> trace p' = [Print (Line ''usage: %s ip_address port_number'')]
    \<or> st = Assertion_failed \<and> 2 < length argv \<and> trace p' = []
    \<or> st = Return 0 \<and> 2 < length argv \<and> (\<exists>listenfd epollfd ts.
        trace p' = ts @ [Wait epollfd MAX_EVENT_NUMBER (-1), Print (Line ''epoll failure''), Close listenfd]
        \<and> (\<forall>f. f \<noteq> listenfd \<longrightarrow> arrived (kern p) f = pending (kern p) f \<longrightarrow>
             (\<exists>msgs. arrived (kern p') f = concat msgs @ pending (kern p') f
                \<and> printed_for f (trace p') = concat (map c_text msgs) \<and> (\<forall>m\<in>set msgs. length m \<le> BUFFER_SIZE - 1))
           \<and> (0 \<notin> set (arrived (kern p') f) \<longrightarrow>
                printed_for f (trace p') @ pending (kern p') f = arrived (kern p') f)))"
proof (cases "server_startup L argv p")
  case (Inl r)
  then have "server_startup L argv p = Inl (st, p')" using assms(4) by (simp add: server_main_startup)
  from server_startup_ends [OF this] show ?thesis using assms(3) by auto
next
  case (Inr r)
  then obtain l ep q where start: "server_startup L argv p = Inr (l, ep, q)" by (cases r) auto
  note go = server_startup_goes_on [OF start]
  from start assms(4) obtain n r where rounds: "server_rounds n S l ep (addfd S ep l True q) = Some r"
    and st: "st = Return 0" and p': "p' = do_close S l (server_stop S ep r)"
    using main_loop_returns by (fastforce simp: server_main_startup server_run_def server_ready_def bind_Some_iff)
  have trace: "trace p' = trace r @ [Wait ep MAX_EVENT_NUMBER (-1), Print (Line ''epoll failure''), Close l]"
    by (simp add: p' server_stop_def)
  have acc: "accounted arrived pending f p'" if f: "f \<noteq> l" "arrived (kern p) f = pending (kern p) f" for f
  proof -
    have "accounted arrived pending f p" by (rule accounted_start [where A = arrived and P = pending, OF assms(3) f(2)])
    then have "accounted arrived pending f q" using go accounted_leaves [OF go(2) [OF assms(2)]] by simp
    then have "accounted arrived pending f r" by (rule rounds_accounted [OF assms(1) accounted_addfd [OF assms(1)] rounds])
    then have "accounted arrived pending f (snd (do_wait S ep MAX_EVENT_NUMBER (-1) r))"
      by (rule accounted_leaves [rotated]) (simp_all add: stream_socketsD(4) [OF assms(1)] printed_for_append)
    then show ?thesis
      unfolding p' server_stop_def using f(1) by (intro accounted_close [OF assms(1)] accounted_say) simp_all
  qed
  have "\<forall>f. f \<noteq> l \<longrightarrow> arrived (kern p) f = pending (kern p) f \<longrightarrow>
             (\<exists>msgs. arrived (kern p') f = concat msgs @ pending (kern p') f
                \<and> printed_for f (trace p') = concat (map c_text msgs) \<and> (\<forall>m\<in>set msgs. length m \<le> BUFFER_SIZE - 1))
           \<and> (0 \<notin> set (arrived (kern p') f) \<longrightarrow> printed_for f (trace p') @ pending (kern p') f = arrived (kern p') f)"
    using acc accounted_full unfolding accounted_def account_def by metis
  then show ?thesis using st go(1) trace by blast
qed

text \<open>A start-up on the sample network: descriptor 3 listens, 4 is the epoll descriptor.\<close>

definition ready_startup :: "'k startup" where
  "ready_startup = \<lparr>lib_AF_INET = 2, lib_atoi = (\<lambda>_. 8080), lib_inet_pton = (\<lambda>_. Some 0x7F000001),
     lib_htons = (\<lambda>w. w), sys_socket = (\<lambda>k. (3, k)), sys_bind = (\<lambda>_ _ k. (0, k)),
     sys_listen = (\<lambda>_ _ k. (0, k)), sys_epoll_create = (\<lambda>_ k. (4, k))\<rparr>"

abbreviation sample_argv :: "string list" where
  "sample_argv \<equiv> [''server'', ''127.0.0.1'', ''8080'']"

lemma leaves_refl: "leaves A P k k"
  by (simp add: leaves_def)

lemma ready_startup_leaves: "startup_leaves ready_startup A P"
  by (simp add: startup_leaves_def ready_startup_def leaves_refl)

lemma ready_server_startup: "server_startup ready_startup sample_argv p = Inr (3, 4, p)"
  by (simp add: server_startup_def ready_startup_def Let_def)

theorem server_main_prints_every_stream_witness:
  "\<exists>p'. server_main net_os ready_startup sample_argv \<lparr>kern = sample_network, trace = []\<rparr> = Some (Return 0, p')
    \<and> printed_for 7 (trace p') @ net_pending (kern p') 7 = [1, 2, 3, 4, 5, 6, 7, 8, 9, 10, 11]"
proof -
  let ?p = "\<lparr>kern = sample_network, trace = []\<rparr>"
  obtain q where q: "server_rounds 2 net_os 3 4 (addfd net_os 4 3 True ?p) = Some q"
    and fails: "wait_fails net_os 4 q"
    and bytes: "net_arrived (kern (do_close net_os 3 (server_stop net_os 4 q))) 7 = [1, 2, 3, 4, 5, 6, 7, 8, 9, 10, 11]"
    by (simp add: numeral_2_eq_2 network_simps wait_fails_def server_stop_def)
  let ?p' = "do_close net_os 3 (server_stop net_os 4 q)"
  have run: "server_main net_os ready_startup sample_argv ?p = Some (Return 0, ?p')"
    using main_loop_rounds [OF q fails] by (simp add: server_main_startup ready_server_startup server_run_def server_ready_def)
  obtain l ep ts where "trace ?p' = ts @ [Wait ep MAX_EVENT_NUMBER (-1), Print (Line ''epoll failure''), Close l]"
    and acc: "\<And>f. f \<noteq> l \<Longrightarrow> net_arrived sample_network f = net_pending sample_network f \<Longrightarrow>
      0 \<notin> set (net_arrived (kern ?p') f) \<Longrightarrow> printed_for f (trace ?p') @ net_pending (kern ?p') f = net_arrived (kern ?p') f"
    using server_main_prints_every_stream [OF net_os_streams ready_startup_leaves _ run] by auto
  moreover have "l = 3" using calculation(1) by (simp add: server_stop_def)
  ultimately show ?thesis using run acc [of 7] bytes by (simp add: sample_network_def)
qed

section \<open>The echo server\<close>

text \<open>What \<open>main\<close> of \<open>epoll.c\<close> does before the call of \<open>setnonblocking\<close> on the listening socket.\<close>

definition echo_startup ::
    "'k startup \<Rightarrow> string list \<Rightarrow> 'k echo \<Rightarrow> exit_status \<times> 'k echo + fd \<times> 'k echo" where
  "echo_startup L argv st =
     (if length argv \<le> 2 then Inl (Return 1, on_proc (say (Line ''usage: %s ip_address port_number'')) st)
      else
        let address = server_address L (argv ! 1) (lib_atoi L (argv ! 2));
            (listenfd, k1) = sys_socket L (kern (proc st));
            (bound, k2) = sys_bind L listenfd address k1;
            (listening, k3) = sys_listen L listenfd 5 k2
        in if listenfd < 0 then Inl (Assertion_failed, on_proc (\<lambda>p. p\<lparr>kern := k1\<rparr>) st)
           else if bound = -1 then Inl (Assertion_failed, on_proc (\<lambda>p. p\<lparr>kern := k2\<rparr>) st)
           else if listening = -1 then Inl (Assertion_failed, on_proc (\<lambda>p. p\<lparr>kern := k3\<rparr>) st)
           else Inr (listenfd, on_proc (\<lambda>p. p\<lparr>kern := k3\<rparr>) st))"

lemma echo_main_startup:
  "echo_main S L argv st =
     (case echo_startup L argv st of Inl r \<Rightarrow> Some r
      | Inr (l, st) \<Rightarrow> map_option (\<lambda>(c, st). (Return c, st)) (echo_serve S L l st))"
  by (simp add: echo_main_def echo_startup_def Let_def case_prod_unfold not_le on_proc_def)

text \<open>C33: the echo server runs for ever exactly when its start-up succeeds, the listening socket can be made
  non-blocking and every number of turns of the loop can be run; and it does so whenever \<open>accept\<close> and
  \<open>fcntl\<close> succeed, whatever \<open>epoll_wait\<close>, \<open>read\<close>, \<open>write\<close> and \<open>epoll_ctl\<close> return.\<close>

theorem echo_runs_forever_iff:
  "(echo_main S L argv st = None \<longleftrightarrow>
     (\<exists>listenfd t u. echo_startup L argv st = Inr (listenfd, t) \<and> echo_setnonblocking S listenfd t = Inr u
       \<and> (\<forall>n. echo_turns n S (fst (sys_epoll_create L 256 (kern (proc u)))) listenfd
            (echo_ready S (fst (sys_epoll_create L 256 (kern (proc u)))) listenfd
              (on_proc (\<lambda>p. p\<lparr>kern := snd (sys_epoll_create L 256 (kern (proc u)))\<rparr>) u)) \<noteq> None)))
   \<and> (accepts_succeed S \<longrightarrow> (echo_main S L argv st = None \<longleftrightarrow> (\<exists>r. echo_startup L argv st = Inr r)))"
proof
  show "echo_main S L argv st = None \<longleftrightarrow>
     (\<exists>listenfd t u. echo_startup L argv st = Inr (listenfd, t) \<and> echo_setnonblocking S listenfd t = Inr u
       \<and> (\<forall>n. echo_turns n S (fst (sys_epoll_create L 256 (kern (proc u)))) listenfd
            (echo_ready S (fst (sys_epoll_create L 256 (kern (proc u)))) listenfd
              (on_proc (\<lambda>p. p\<lparr>kern := snd (sys_epoll_create L 256 (kern (proc u)))\<rparr>) u)) \<noteq> None))"
    by (auto simp: echo_main_startup echo_serve_def Let_def case_prod_unfold echo_loop_None_iff split: sum.splits)
  have "echo_serve S L l t = None" if ok: "accepts_succeed S" for l t
  proof -
    have "echo_loop S ep l x = None" for ep x
      using echo_loop_exit [of S ep l x] ok by (cases "echo_loop S ep l x") auto
    then show ?thesis
      using echo_setnonblocking_goes_on [OF ok, of l t] by (auto simp: echo_serve_def Let_def case_prod_unfold)
  qed
  then show "accepts_succeed S \<longrightarrow> (echo_main S L argv st = None \<longleftrightarrow> (\<exists>r. echo_startup L argv st = Inr r))"
    by (auto simp: echo_main_startup split: sum.splits)
qed

text \<open>The calls of the start-up, and of an accept that ends the program, are of no account to a client: they are not
  part of its protocol, write nothing, and leave the buffer and the streams alone.\<close>

fun is_setup :: "action \<Rightarrow> bool" where
  "is_setup (Accept f) = True"
| "is_setup (Getfl f) = True"
| "is_setup (Setfl f v) = True"
| "is_setup (Print m) = True"
| "is_setup _ = False"

lemma setup_protocol: "\<forall>a\<in>set ts. is_setup a \<Longrightarrow> protocol f (as @ ts) = protocol f as"
proof -
  have "\<forall>a\<in>set ts. is_setup a \<Longrightarrow> run_all (phase_step f) ts ph = Some ph" for ph
    by (induction ts) (auto elim!: is_setup.elims(2))
  then show "\<forall>a\<in>set ts. is_setup a \<Longrightarrow> ?thesis" by (simp add: protocol_append)
qed

lemma setup_asked: "\<forall>a\<in>set ts. is_setup a \<Longrightarrow> asked_to_write f ts = []"
  by (induction ts) (auto elim!: is_setup.elims(2))

definition sets_up :: "'k view \<Rightarrow> 'k view \<Rightarrow> 'k echo \<Rightarrow> 'k echo \<Rightarrow> bool" where
  "sets_up arrived pending st st' \<longleftrightarrow> leaves arrived pending (kern (proc st)) (kern (proc st'))
     \<and> line st' = line st \<and> n_read st' = n_read st
     \<and> (\<exists>ts. past st' = past st @ ts \<and> (\<forall>a\<in>set ts. is_setup a))"

lemma sets_up_asked: "sets_up A P st st' \<Longrightarrow> asked_to_write f (past st') = asked_to_write f (past st)"
  by (auto simp: sets_up_def asked_append setup_asked)

lemma sets_up_accounted:
  assumes "sets_up A P st st'" and "echo_accounted A P f st"
  shows "echo_accounted A P f st'"
proof -
  obtain ts where ts: "past st' = past st @ ts" "\<forall>a\<in>set ts. is_setup a" and l: "leaves A P (kern (proc st)) (kern (proc st'))"
    and same: "line st' = line st" "n_read st' = n_read st" using assms(1) unfolding sets_up_def by blast
  have "write_ok a \<and> a \<noteq> Read g n" if "a \<in> set ts" for a g n using ts(2) that by (cases a) auto
  then have "count_ok st'" using assms(2) by (auto simp: echo_accounted_def count_ok_def ts(1) same)
  moreover have "held f st' = held f st" "asked_to_write f (past st') = asked_to_write f (past st)"
    using setup_protocol [OF ts(2)] setup_asked [OF ts(2)] by (simp_all add: held_def asked_append ts(1) same)
  ultimately show ?thesis
    using assms(2) leaves_account [OF l] undisturbed_prefix [of f "past st" ts] by (simp add: echo_accounted_def ts(1))
qed

text \<open>The reasons the program gives when it ends.\<close>

definition exit_lines :: "string set" where
  "exit_lines = {''connfd<0'', ''fcntl(sock, GETFL)'', ''fcntl(sock,SETFL,opts)''}"

lemma setnonblocking_exits:
  assumes "stream_sockets S A P" and "echo_setnonblocking S f st = Inl (c, st')"
  shows "sets_up A P st st' \<and> c = 1 \<and> (\<exists>m\<in>exit_lines. \<exists>ts. past st' = ts @ [Print (Line m)])"
proof -
  note d = stream_socketsD(1,2) [OF assms(1)]
  show ?thesis
    using assms(2)
    by (auto simp: echo_setnonblocking_def exit_with_def Let_def case_prod_unfold sets_up_def exit_lines_def d
        intro: leaves_trans [OF d(1) d(2)] split: if_splits)
qed

lemma setnonblocking_sets_up:
  assumes "stream_sockets S A P" and "echo_setnonblocking S f st = Inr st'"
  shows "sets_up A P st st' \<and> (\<exists>v. past st' = past st @ [Getfl f, Setfl f v])"
proof -
  note d = stream_socketsD(1,2) [OF assms(1)]
  show ?thesis
    using assms(2) leaves_trans [OF d(1) d(2)]
    by (auto simp: echo_setnonblocking_def exit_with_def Let_def case_prod_unfold sets_up_def split: if_splits)
qed

lemma sets_up_trans: "sets_up A P s t \<Longrightarrow> sets_up A P t u \<Longrightarrow> sets_up A P s u"
  unfolding sets_up_def using leaves_trans by fastforce

lemma accept_exits:
  assumes "stream_sockets S A P" and "on_accept S ep l st = Inl (c, st')"
  shows "sets_up A P st st' \<and> c = 1 \<and> (\<exists>m\<in>exit_lines. \<exists>ts. past st' = ts @ [Print (Line m)])"
proof -
  let ?st = "st\<lparr>proc := snd (do_accept S l (proc st))\<rparr>" and ?c = "fst (sys_accept S l (kern (proc st)))"
  have st: "sets_up A P st ?st" by (simp add: sets_up_def stream_socketsD(5) [OF assms(1)])
  show ?thesis
  proof (cases "?c < 0")
    case True
    then show ?thesis using assms(2) st
      by (auto simp: on_accept_def exit_with_def Let_def case_prod_unfold sets_up_def exit_lines_def)
  next
    case False
    then have "echo_setnonblocking S ?c ?st = Inl (c, st')"
      using assms(2) by (auto simp: on_accept_def exit_with_def Let_def case_prod_unfold split: sum.splits)
    then show ?thesis using setnonblocking_exits [OF assms(1)] sets_up_trans [OF st] by blast
  qed
qed

lemma echo_startup_ends:
  assumes "echo_startup L argv st = Inl (status, st')"
  shows "(status = Return 1 \<and> length argv \<le> 2 \<or> status = Assertion_failed)
    \<and> (startup_leaves L A P \<longrightarrow> sets_up A P st st')"
proof -
  have "sets_up A P st st'" if "startup_leaves L A P"
  proof -
    note d = startup_leavesD [OF that]
    show ?thesis using assms leaves_trans [OF d(1) d(2)] leaves_trans [OF leaves_trans [OF d(1) d(2)] d(3)] d(1)
      by (auto simp: echo_startup_def Let_def case_prod_unfold sets_up_def leaves_refl split: if_splits)
  qed
  moreover have "status = Return 1 \<and> length argv \<le> 2 \<or> status = Assertion_failed"
    using assms by (auto simp: echo_startup_def Let_def case_prod_unfold split: if_splits)
  ultimately show ?thesis by blast
qed

text \<open>A part of the kernel state that the calls of the start-up leave alone.\<close>

definition startup_keeps :: "'k startup \<Rightarrow> ('k \<Rightarrow> 'v) \<Rightarrow> bool" where
  "startup_keeps L v \<longleftrightarrow>
     (\<forall>k. v (snd (sys_socket L k)) = v k)
   \<and> (\<forall>f a k. v (snd (sys_bind L f a k)) = v k)
   \<and> (\<forall>f n k. v (snd (sys_listen L f n k)) = v k)
   \<and> (\<forall>n k. v (snd (sys_epoll_create L n k)) = v k)"

lemma echo_startup_sends:
  "echo_startup L argv st = Inl (status, st') \<Longrightarrow> startup_keeps L v \<Longrightarrow> v (kern (proc st')) = v (kern (proc st))"
  by (auto simp: echo_startup_def startup_keeps_def Let_def case_prod_unfold split: if_splits)

lemma setnonblocking_sends:
  assumes "output_sockets S sent"
  shows "echo_setnonblocking S f st = Inl (c, st') \<Longrightarrow> sent (kern (proc st')) = sent (kern (proc st))"
    and "echo_setnonblocking S f st = Inr st' \<Longrightarrow> sent (kern (proc st')) = sent (kern (proc st))"
  by (auto simp: echo_setnonblocking_def exit_with_def Let_def case_prod_unfold output_socketsD(2,3) [OF assms] split: if_splits)

lemma accept_exit_sends:
  assumes "output_sockets S sent" and "on_accept S ep l st = Inl (c, st')"
  shows "sent (kern (proc st')) = sent (kern (proc st))"
proof (cases "fst (sys_accept S l (kern (proc st))) < 0")
  case True
  then show ?thesis using assms(2) by (auto simp: on_accept_def exit_with_def Let_def case_prod_unfold output_socketsD(6) [OF assms(1)])
next
  case False
  then have "echo_setnonblocking S (fst (sys_accept S l (kern (proc st)))) (st\<lparr>proc := snd (do_accept S l (proc st))\<rparr>) = Inl (c, st')"
    using assms(2) by (auto simp: on_accept_def exit_with_def Let_def case_prod_unfold split: sum.splits)
  from setnonblocking_sends(1) [OF assms(1) this] show ?thesis by (simp add: output_socketsD(6) [OF assms(1)])
qed

lemma echo_startup_goes_on:
  assumes "echo_startup L argv st = Inr (l, st')"
  shows "past st' = past st \<and> line st' = line st \<and> n_read st' = n_read st"
    and "startup_leaves L A P \<Longrightarrow> leaves A P (kern (proc st)) (kern (proc st'))"
    and "startup_keeps L v \<Longrightarrow> v (kern (proc st')) = v (kern (proc st))"
proof -
  let ?k1 = "snd (sys_socket L (kern (proc st)))"
  let ?k2 = "snd (sys_bind L l (server_address L (argv ! 1) (lib_atoi L (argv ! 2))) ?k1)"
  have st': "st' = on_proc (\<lambda>p. p\<lparr>kern := snd (sys_listen L l 5 ?k2)\<rparr>) st"
    using assms by (auto simp: echo_startup_def Let_def case_prod_unfold split: if_splits)
  then show "past st' = past st \<and> line st' = line st \<and> n_read st' = n_read st" by simp
  show "startup_keeps L v \<Longrightarrow> v (kern (proc st')) = v (kern (proc st))"
    by (simp add: st' startup_keeps_def)
  assume "startup_leaves L A P"
  note d = startup_leavesD [OF this]
  show "leaves A P (kern (proc st)) (kern (proc st'))"
    unfolding st' using leaves_trans [OF leaves_trans [OF d(1) d(2)] d(3)] by simp
qed

text \<open>C14: what the program \<open>epoll.c\<close> does, from \<open>main\<close> to its end, while reads succeed. It never returns 0: it
  prints its usage and returns 1, dies in an assertion of the start-up, or calls \<open>exit(1)\<close> with the reason as
  the last line. And then, for every client that no other one disturbed, what \<open>write\<close> was asked to send it,
  what has been read from it and not answered, and what is still pending there are exactly the bytes that
  arrived; and where each write to it takes all it is asked to, what it was sent is what \<open>write\<close> was asked for.\<close>

theorem echo_main_echoes_every_client:
  assumes "epoll_set S epollfd interest" and "reads_succeed S" and "stream_sockets S arrived pending"
    and "output_sockets S sent" and "startup_leaves L arrived pending" and "startup_keeps L interest" and "startup_keeps L sent"
    and "\<And>k. fst (sys_epoll_create L 256 k) = epollfd"
    and "interest (kern (proc st)) = (\<lambda>_. None)" and "past st = []" and "length (line st) = MAXLINE"
    and "echo_main S L argv st = Some (status, st')"
  shows "(status = Return 1 \<and> length argv \<le> 2 \<or> status = Assertion_failed
      \<or> status = Return 1 \<and> (\<exists>m\<in>exit_lines. \<exists>ts. past st' = ts @ [Print (Line m)]))
    \<and> (\<forall>f. arrived (kern (proc st)) f = pending (kern (proc st)) f \<longrightarrow> sent (kern (proc st)) f = [] \<longrightarrow>
         undisturbed f (past st') \<longrightarrow>
         asked_to_write f (past st') @ held f st' @ pending (kern (proc st')) f = arrived (kern (proc st')) f
         \<and> (takes_all S interest f \<longrightarrow> sent (kern (proc st')) f = asked_to_write f (past st')))"
proof -
  let ?fresh = "\<lambda>f. arrived (kern (proc st)) f = pending (kern (proc st)) f"
  let ?silent = "\<lambda>f. takes_all S interest f \<and> sent (kern (proc st)) f = []"
  have fresh: "echo_accounted arrived pending f st" if "?fresh f" for f
    using that assms(10,11) by (simp add: echo_accounted_def count_ok_def account_def held_def protocol_def)
  have ending: ?thesis if "status = Return 1 \<and> length argv \<le> 2 \<or> status = Assertion_failed
      \<or> status = Return 1 \<and> (\<exists>m\<in>exit_lines. \<exists>ts. past st' = ts @ [Print (Line m)])"
    and "\<And>f. ?fresh f \<Longrightarrow> echo_accounted arrived pending f st'"
    and "\<And>f. ?silent f \<Longrightarrow> sent (kern (proc st')) f = asked_to_write f (past st')"
    using that by (simp add: echo_accounted_def account_def)
  have quiet: "sent (kern (proc t)) f = asked_to_write f (past t)"
    if "sets_up arrived pending st t" "sent (kern (proc t)) = sent (kern (proc st))" "?silent f" for t f
    using that sets_up_asked [OF that(1), of f] assms(10) by simp
  show ?thesis
  proof (cases "echo_startup L argv st")
    case (Inl r)
    then have start: "echo_startup L argv st = Inl (status, st')" using assms(12) by (simp add: echo_main_startup)
    from echo_startup_ends [OF this] assms(5) show ?thesis
      using sets_up_accounted fresh quiet echo_startup_sends [OF start assms(7)] by (intro ending) blast+
  next
    case (Inr r)
    then obtain l t where start: "echo_startup L argv st = Inr (l, t)" by (cases r) auto
    then obtain c where serve: "echo_serve S L l t = Some (c, st')" and status: "status = Return c"
      using assms(12) by (auto simp: echo_main_startup)
    note t = echo_startup_goes_on [OF start]
    have up: "sets_up arrived pending st t" using t(1) t(2) [OF assms(5)] by (simp add: sets_up_def)
    have t_sent: "sent (kern (proc t)) = sent (kern (proc st))" by (rule t(3) [OF assms(7)])
    show ?thesis
    proof (cases "echo_setnonblocking S l t")
      case (Inl e)
      then have exits: "echo_setnonblocking S l t = Inl (c, st')" using serve by (simp add: echo_serve_def)
      from setnonblocking_exits [OF assms(3) this] show ?thesis
        using status sets_up_accounted [OF sets_up_trans [OF up]] fresh quiet [OF sets_up_trans [OF up]]
          setnonblocking_sends(1) [OF assms(4) exits] t_sent by (intro ending) (blast, blast, metis)
    next
      case (Inr u)
      note u = setnonblocking_sets_up [OF assms(3) Inr]
      let ?w = "on_proc (\<lambda>p. p\<lparr>kern := snd (sys_epoll_create L 256 (kern (proc u)))\<rparr>) u"
      have loop: "echo_loop S epollfd l (echo_ready S epollfd l ?w) = Some (c, st')"
        using serve Inr assms(8) by (simp add: echo_serve_def Let_def case_prod_unfold)
      obtain v where past: "past ?w = [Getfl l, Setfl l v]" using u t(1) assms(10) by auto
      have w: "sets_up arrived pending st ?w"
        using sets_up_trans [OF up conjunct1 [OF u]] leaves_trans startup_leavesD(4) [OF assms(5)]
        by (fastforce simp: sets_up_def)
      have line: "length (line ?w) = MAXLINE" using w assms(11) by (simp add: sets_up_def)
      have w_sent: "sent (kern (proc ?w)) = sent (kern (proc st))"
        using assms(7) setnonblocking_sends(2) [OF assms(4) Inr] t_sent by (simp add: startup_keeps_def)
      have "interest (kern (proc u)) = interest (kern (proc t))"
        using Inr by (auto simp: echo_setnonblocking_def exit_with_def Let_def case_prod_unfold epoll_setD [OF assms(1)] split: if_splits)
      then have none: "interest (kern (proc ?w)) = (\<lambda>_. None)"
        using t(3) [OF assms(6)] assms(6,9) by (simp add: startup_keeps_def)
      note phase = ready_in_phase [OF assms(1) none past]
      have "echo_accounted arrived pending f st'" if f: "?fresh f" for f
      proof -
        have "account arrived pending f [] (kern (proc st))" using f by (simp add: account_def)
        from leaves_account [OF w [unfolded sets_up_def, THEN conjunct1] this]
        have "arrived (kern (proc ?w)) f = pending (kern (proc ?w)) f" by (simp add: account_def)
        then have "echo_accounted arrived pending f (echo_ready S epollfd l ?w)"
          by (rule ready_accounted [OF assms(3) past line])
        then obtain x where "echo_accounted arrived pending f x" "on_accept S epollfd l x = Inl (c, st')"
          using echo_accounts.loop_exit_holds [OF conjI [OF assms(1) conjI [OF assms(2,3)]] phase _ loop] by blast
        then show ?thesis using accept_exits [OF assms(3)] sets_up_accounted by blast
      qed
      moreover have "sent (kern (proc st')) f = asked_to_write f (past st')" if f: "?silent f" for f
      proof -
        have ok: "epoll_set S epollfd interest \<and> reads_succeed S \<and> output_sockets S sent \<and> takes_all S interest f"
          using assms(1,2,4) f by simp
        have "sends_asked sent f (echo_ready S epollfd l ?w)"
          by (rule ready_sends [OF assms(4) past line]) (use f w_sent in simp)
        then obtain x where x: "sends_asked sent f x" "on_accept S epollfd l x = Inl (c, st')"
          using echo_sends.loop_exit_holds [OF ok phase _ loop] by blast
        then have "sets_up arrived pending x st'" using accept_exits [OF assms(3)] by blast
        then show ?thesis
          using x(1) sets_up_asked accept_exit_sends [OF assms(4) x(2)] by (metis sends_asked_def)
      qed
      moreover obtain x where "on_accept S epollfd l x = Inl (c, st')"
        using echo_phases.loop_exit_holds [OF assms(1) phase TrueI loop] by blast
      ultimately show ?thesis using accept_exits [OF assms(3)] status by (intro ending) blast+
    qed
  qed
qed

text \<open>A client connects, sends two bytes and is answered; then the listening socket is reported once more with nobody
  waiting, and the failed accept ends the program.\<close>

definition sample_service :: "(clients \<times> bool) echo" where
  "sample_service = \<lparr>proc = \<lparr>kern = (\<lparr>c_interest = (\<lambda>_. None), c_arrived = (\<lambda>_. []), c_pending = (\<lambda>_. []),
       c_sent = (\<lambda>_. []), c_next = [(3, [], \<lparr>ev_events = EPOLLIN, ev_fd = 3\<rparr>), (5, [1, 2], \<lparr>ev_events = 0, ev_fd = 0\<rparr>),
         (5, [], \<lparr>ev_events = 0, ev_fd = 0\<rparr>), (3, [], \<lparr>ev_events = EPOLLIN, ev_fd = 3\<rparr>)]\<rparr>, False),
     trace = []\<rparr>, line = replicate 10 99, n_read = 77\<rparr>"

lemma three_turns: "echo_turns 3 S ep l st = (case echo_turn S ep l st of Inl e \<Rightarrow> None | Inr st \<Rightarrow>
    (case echo_turn S ep l st of Inl e \<Rightarrow> None | Inr st \<Rightarrow> (case echo_turn S ep l st of Inl e \<Rightarrow> None | Inr st \<Rightarrow> Some st)))"
  by (simp add: numeral_3_eq_3 split: sum.split)

lemma sample_service_run:
  obtains st' where "echo_main edge_os ready_startup sample_argv sample_service = Some (Return 1, st')"
    and "c_arrived (fst (kern (proc st'))) 5 = [1, 2]" "c_pending (fst (kern (proc st'))) 5 = []"
    and "protocol 5 (past st') = Some To_read" "undisturbed 5 (past st')"
proof -
  let ?start = "sample_service\<lparr>proc := \<lparr>kern = kern (proc sample_service), trace = [Getfl 3, Setfl 3 (2 OR O_NONBLOCK)]\<rparr>\<rparr>"
  have serve: "echo_main edge_os ready_startup sample_argv sample_service
      = map_option (\<lambda>(c, st). (Return c, st)) (echo_loop edge_os 4 3 (echo_ready edge_os 4 3 ?start))"
    by (simp add: echo_main_startup echo_startup_def ready_startup_def echo_serve_def echo_setnonblocking_def
        edge_os_def sample_service_def Let_def do_getfl_def do_setfl_def log_call_def O_NONBLOCK_def word_sless_alt on_proc_def)
  obtain t where t: "echo_turns 3 edge_os 4 3 (echo_ready edge_os 4 3 ?start) = Some t"
    and e: "\<exists>r. echo_turn edge_os 4 3 t = Inl (1, r)
      \<and> c_arrived (fst (kern (proc r))) 5 = [1, 2] \<and> c_pending (fst (kern (proc r))) 5 = []
      \<and> protocol 5 (past r) = Some To_read \<and> undisturbed 5 (past r)"
    by (simp add: three_turns edge_simps sample_service_def protocol_def undisturbed_def exit_with_def)
  then obtain r where "echo_loop edge_os 4 3 (echo_ready edge_os 4 3 ?start) = Some (1, r)"
    "c_arrived (fst (kern (proc r))) 5 = [1, 2]" "c_pending (fst (kern (proc r))) 5 = []"
    "protocol 5 (past r) = Some To_read" "undisturbed 5 (past r)"
    using echo_loop_iff_turns by blast
  then show thesis using that serve by simp
qed

theorem echo_main_echoes_every_client_witness:
  "\<exists>st'. echo_main edge_os ready_startup sample_argv sample_service = Some (Return 1, st')
    \<and> asked_to_write 5 (past st') = [1, 2] \<and> c_sent (fst (kern (proc st'))) 5 = [1, 2]"
proof -
  obtain st' where run: "echo_main edge_os ready_startup sample_argv sample_service = Some (Return 1, st')"
    and st': "c_arrived (fst (kern (proc st'))) 5 = [1, 2]" "c_pending (fst (kern (proc st'))) 5 = []"
      "protocol 5 (past st') = Some To_read" "undisturbed 5 (past st')"
    by (rule sample_service_run)
  have keeps: "startup_keeps ready_startup v" for v :: "clients \<times> bool \<Rightarrow> 'v"
    by (simp add: startup_keeps_def ready_startup_def)
  have "fst (sys_epoll_create ready_startup 256 k) = 4" for k :: "clients \<times> bool"
    by (simp add: ready_startup_def)
  moreover have "c_interest (fst (kern (proc sample_service))) = (\<lambda>_. None)" "past sample_service = []"
    "length (line sample_service) = MAXLINE"
    "c_arrived (fst (kern (proc sample_service))) 5 = c_pending (fst (kern (proc sample_service))) 5"
    "c_sent (fst (kern (proc sample_service))) 5 = []"
    by (simp_all add: sample_service_def MAXLINE_def)
  ultimately have "asked_to_write 5 (past st') @ held 5 st' @ c_pending (fst (kern (proc st'))) 5 = c_arrived (fst (kern (proc st'))) 5
    \<and> (takes_all edge_os (\<lambda>s. c_interest (fst s)) 5 \<longrightarrow> c_sent (fst (kern (proc st'))) 5 = asked_to_write 5 (past st'))"
    using echo_main_echoes_every_client [OF edge_os_epoll edge_os_reads edge_os_streams edge_os_output(1) ready_startup_leaves
        keeps keeps _ _ _ _ run] st'(4) by blast
  then show ?thesis using run st' edge_os_output(2) by (simp add: held_def)
qed

theorem echo_runs_forever_iff_witness:
  "\<exists>S :: script os. accepts_succeed S \<and> echo_main S ready_startup sample_argv sample_echo = None"
proof -
  let ?S = "script_os\<lparr>sys_accept := (\<lambda>f s. (5, s)), sys_getfl := (\<lambda>f s. (2, s)), sys_setfl := (\<lambda>f v s. (0, s))\<rparr>"
  have ok: "accepts_succeed ?S" by (simp add: accepts_succeed_def word_sless_alt)
  have "\<exists>r. echo_startup ready_startup sample_argv sample_echo = Inr r"
    by (simp add: echo_startup_def ready_startup_def Let_def)
  then show ?thesis using echo_runs_forever_iff [of ?S ready_startup sample_argv sample_echo] ok by blast
qed

end
