(* ===== verification/Module_Lifecycle.thy ===== *)
theory Module_Lifecycle
  imports Prelude "HOL-Library.Multiset"
begin

text \<open>
  The contract between a kernel module and the kernel that loads it: \<open>init\<close> returns a status
  (0 for success), \<open>exit\<close> is called only after a successful \<open>init\<close>. What a module holds is a
  multiset of resources. A module honours the contract when a failed \<open>init\<close> leaves nothing
  behind and \<open>exit\<close> gives back exactly what a successful \<open>init\<close> took.
\<close>

text \<open>A call that acquires or releases resources moves a multiset; a trace of calls is folded.\<close>

fun after_calls :: "('c \<Rightarrow> 'r multiset) \<Rightarrow> ('c \<Rightarrow> 'r multiset) \<Rightarrow> 'c list \<Rightarrow> 'r multiset \<Rightarrow> 'r multiset" where
  "after_calls acq rel [] R = R"
| "after_calls acq rel (c # cs) R = after_calls acq rel cs (R + acq c - rel c)"

lemma after_calls_append:
  "after_calls acq rel (cs @ ds) R = after_calls acq rel ds (after_calls acq rel cs R)"
  by (induction cs arbitrary: R) auto

text \<open>One load: \<open>exit\<close> runs later if and only if \<open>init\<close> succeeded.\<close>

definition load_unload :: "('s \<Rightarrow> int \<times> 's) \<Rightarrow> ('s \<Rightarrow> 's) \<Rightarrow> 's \<Rightarrow> 's" where
  "load_unload init exit s = (case init s of (c, s') \<Rightarrow> if c = 0 then exit s' else s')"

locale module_lifecycle =
  fixes init :: "'s \<Rightarrow> int \<times> 's"
    and exit :: "'s \<Rightarrow> 's"
    and held :: "'s \<Rightarrow> 'r multiset"
  assumes failed_load: "init s = (c, s') \<Longrightarrow> c \<noteq> 0 \<Longrightarrow> held s' = held s"
    and unload: "init s = (0, s') \<Longrightarrow> held (exit s') = held s"
begin

lemma load_unload_balanced: "held (load_unload init exit s) = held s"
  using failed_load [of s] unload [of s] by (auto simp: load_unload_def split: prod.splits)

text \<open>Any number of loads and unloads leaves nothing behind.\<close>

lemma cycles_balanced: "held ((load_unload init exit ^^ n) s) = held s"
  by (induction n) (simp_all add: load_unload_balanced)

end

end
