(* ===== verification/Kernel_Modules.thy ===== *)
theory Kernel_Modules
  imports Module_Lifecycle
begin

text \<open>
  The small kernel modules: \<open>kmalloc.c\<close>, \<open>helloworld.c\<close>, \<open>helloworld-params.c\<close> and
  \<open>std-timer.c\<close>. Each is its static variables, the kernel it calls (a parameter), the calls
  made so far and the kernel log. A log entry is the level, the format text without its newline
  and the arguments.
\<close>

datatype level = Info | Err
datatype arg = D int | S string

type_synonym log_line = "level \<times> string \<times> arg list"

section \<open>The allocating module\<close>

datatype alloc_call = Kmalloc nat addr | Kfree addr

record 'k alloc_module =
  a_kern :: 'k
  a_ptr :: addr
  a_calls :: "alloc_call list"
  a_log :: "log_line list"

text \<open>The allocator is a parameter: \<open>kmalloc\<close> returns \<open>NULL\<close> or an address. \<open>enomem\<close> is the
  value of \<open>ENOMEM\<close>.\<close>

record 'k allocator =
  sys_kmalloc :: "nat \<Rightarrow> 'k \<Rightarrow> addr \<times> 'k"
  sys_kfree :: "addr \<Rightarrow> 'k \<Rightarrow> 'k"
  enomem :: int

definition alloc_init :: "'k allocator \<Rightarrow> 'k alloc_module \<Rightarrow> int \<times> 'k alloc_module" where
  "alloc_init K m =
     (let size = 1024;
          (p, k) = sys_kmalloc K size (a_kern m);
          m = m\<lparr>a_kern := k, a_ptr := p, a_calls := a_calls m @ [Kmalloc size p]\<rparr>
      in if p = NULL then
           (- enomem K, m\<lparr>a_log := a_log m @ [(Err, ''Memory allocation failed'', [])]\<rparr>)
         else (0, m\<lparr>a_log := a_log m @ [(Info, ''Memory allocated successfully'', [])]\<rparr>))"

definition alloc_exit :: "'k allocator \<Rightarrow> 'k alloc_module \<Rightarrow> 'k alloc_module" where
  "alloc_exit K m =
     m\<lparr>a_kern := sys_kfree K (a_ptr m) (a_kern m), a_calls := a_calls m @ [Kfree (a_ptr m)],
       a_log := a_log m @ [(Info, ''Memory freed'', [])]\<rparr>"

text \<open>What the calls mean: a successful \<open>kmalloc\<close> takes a block of that size, \<open>kfree\<close> gives the
  block at its argument back, \<open>kfree(NULL)\<close> does nothing.\<close>

fun alloc_acquires :: "alloc_call \<Rightarrow> addr multiset" where
  "alloc_acquires (Kmalloc n p) = (if p = NULL then {#} else {#p#})"
| "alloc_acquires (Kfree p) = {#}"

fun alloc_releases :: "alloc_call \<Rightarrow> addr multiset" where
  "alloc_releases (Kmalloc n p) = {#}"
| "alloc_releases (Kfree p) = (if p = NULL then {#} else {#p#})"

definition alloc_held :: "'k alloc_module \<Rightarrow> addr multiset" where
  "alloc_held m = after_calls alloc_acquires alloc_releases (a_calls m) {#}"

lemmas alloc_defs = alloc_init_def alloc_exit_def alloc_held_def after_calls_append

interpretation alloc_lifecycle: module_lifecycle "alloc_init K" "alloc_exit K" alloc_held
  for K :: "'k allocator"
proof unfold_locales
  fix m m' :: "'k alloc_module" and c
  assume i: "alloc_init K m = (c, m')" and c: "c \<noteq> 0"
  then show "alloc_held m' = alloc_held m"
    by (auto simp: alloc_defs Let_def split: prod.splits if_splits)
next
  fix m m' :: "'k alloc_module"
  assume i: "alloc_init K m = (0, m')"
  then show "alloc_held (alloc_exit K m') = alloc_held m"
    by (auto simp: alloc_defs Let_def split: prod.splits if_splits)
qed

section \<open>Hello world\<close>

definition helloworld_init :: "log_line list \<Rightarrow> int \<times> log_line list" where
  "helloworld_init log = (0, log @ [(Info, ''Start of hello world!'', [])])"

definition helloworld_exit :: "log_line list \<Rightarrow> log_line list" where
  "helloworld_exit log = log @ [(Info, ''End of the hello world'', [])]"

text \<open>The module with parameters: the values at load time are the defaults unless the loader
  was given others; the array parameter always has its three elements.\<close>

record hello_params =
  par_a :: int
  par_b :: "int list"
  par_c :: string

definition default_params :: hello_params where
  "default_params = \<lparr>par_a = 1, par_b = [0, 1, 2], par_c = ''hello world!''\<rparr>"

definition params_init :: "hello_params \<Rightarrow> log_line list \<Rightarrow> int \<times> log_line list" where
  "params_init P log = (0, log @
     [(Info, ''Start of hello world with parameters!'', []),
      (Info, ''The *a* parameter: %d'', [D (par_a P)]),
      (Info, ''The *b* parameter: %d, %d, %d'', [D (par_b P ! 0), D (par_b P ! 1), D (par_b P ! 2)]),
      (Info, ''The *c* parameter: %s'', [S (par_c P)])])"

definition params_exit :: "log_line list \<Rightarrow> log_line list" where
  "params_exit log = log @ [(Info, ''End of the hello world'', [])]"

section \<open>The timer module\<close>

text \<open>Its exit deletes a timer; \<open>del_timer\<close> is a parameter and returns whether the timer was
  active. The init function starts none.\<close>

definition std_timer_init :: "log_line list \<Rightarrow> int \<times> log_line list" where
  "std_timer_init log = (0, log @ [(Info, ''Start of hello world!'', [])])"

definition std_timer_exit :: "('k \<Rightarrow> int \<times> 'k) \<Rightarrow> 'k \<times> log_line list \<Rightarrow> 'k \<times> log_line list" where
  "std_timer_exit del_timer s =
     (let (retval, k) = del_timer (fst s);
          log = snd s;
          log = (if retval \<noteq> 0 then log @ [(Info, ''The timer is still in use...'', [])] else log)
      in (k, log @ [(Info, ''Timer module unloaded'', [])]))"

text \<open>The connector callback of the same file prints one line about its message: the data only
  when the length is not zero.\<close>

record cn_msg =
  cn_idx :: u32
  cn_val :: u32
  cn_seq :: u32
  cn_ack :: u32
  cn_len :: u16
  cn_data :: string

definition std_timer_callback :: "u64 \<Rightarrow> cn_msg \<Rightarrow> log_line list \<Rightarrow> log_line list" where
  "std_timer_callback jiffies msg log = log @
     [(Info, ''%s: %lu: idx=%x, val=%x, seq=%u, ack=%u, len=%d: %s.'',
       [S ''std_timer_callback'', D (uint jiffies), D (uint (cn_idx msg)), D (uint (cn_val msg)),
        D (uint (cn_seq msg)), D (uint (cn_ack msg)), D (uint (cn_len msg)),
        S (if cn_len msg \<noteq> 0 then cn_data msg else '''')])]"

section \<open>Properties\<close>

text \<open>The allocating module never leaks: over any number of loads and unloads, with any mix
  of successful and failed allocations, it holds afterwards exactly the blocks it held before,
  and a load fails with \<open>-ENOMEM\<close> exactly when the allocator returns \<open>NULL\<close>.\<close>

theorem kmalloc_module_never_leaks:
  "alloc_held ((load_unload (alloc_init K) (alloc_exit K) ^^ n) m) = alloc_held m
   \<and> fst (alloc_init K m) = (if fst (sys_kmalloc K 1024 (a_kern m)) = NULL then - enomem K else 0)"
  by (rule conjI, rule alloc_lifecycle.cycles_balanced)
    (simp add: alloc_init_def Let_def case_prod_unfold)

text \<open>While the allocating module is loaded it owns the one block that its exit frees: a
  successful load adds a single block, and the first release is of that block.\<close>

theorem kmalloc_module_owns_its_block:
  assumes "alloc_init K m = (0, m')" and "enomem K \<noteq> 0"
  shows "a_ptr m' \<noteq> NULL \<and> alloc_held m' = alloc_held m + {#a_ptr m'#}
    \<and> a_calls (alloc_exit K m') = a_calls m @ [Kmalloc 1024 (a_ptr m'), Kfree (a_ptr m')]"
  using assms by (auto simp: alloc_defs Let_def split: prod.splits if_splits)

definition bump_allocator :: "addr allocator" where
  "bump_allocator = \<lparr>sys_kmalloc = (\<lambda>n k. (k, k + of_nat n)), sys_kfree = (\<lambda>p k. k), enomem = 12\<rparr>"

theorem kmalloc_module_owns_its_block_witness:
  "\<exists>m'. alloc_init bump_allocator \<lparr>a_kern = 0x1000, a_ptr = 0, a_calls = [], a_log = []\<rparr> = (0, m')
    \<and> a_ptr m' \<noteq> NULL \<and> alloc_held m' = {#a_ptr m'#}"
proof -
  let ?m = "\<lparr>a_kern = 0x1000, a_ptr = 0, a_calls = [], a_log = []\<rparr>"
  obtain m' where m': "alloc_init bump_allocator ?m = (0, m')"
    by (simp add: alloc_init_def bump_allocator_def)
  show ?thesis
    using kmalloc_module_owns_its_block [OF m'] m' by (simp add: bump_allocator_def alloc_held_def)
qed

end
