(* ===== verification/Char_Dev.thy ===== *)
theory Char_Dev
  imports Dev_Num Module_Lifecycle
begin

text \<open>
  The character device driver of \<open>chardev.c\<close>: the file operations and the module's init and
  cleanup. The kernel calls are parameters. Each call the driver makes is recorded with its
  result, and what the driver holds after a sequence of calls is computed from the documented
  effect of each: regions of device numbers, classes, live character devices and device nodes.
  The variables \<open>major\<close>, \<open>dummy_class\<close> and \<open>dummy_cdev\<close>, which the file uses without declaring
  them, are fields of the state; \<open>major\<close> is an unsigned int.
\<close>

section \<open>The file operations\<close>

text \<open>Each returns its result and the line it logs. A read stores nothing in the user buffer,
  a write looks at none of it; its result is \<open>count\<close> as a \<open>ssize_t\<close>.\<close>

definition dummy_open :: "int \<times> string" where
  "dummy_open = (0, ''Someone tried to open me'')"

definition dummy_release :: "int \<times> string" where
  "dummy_release = (0, ''Someone closed me'')"

definition dummy_read :: "u64 \<Rightarrow> u8 list \<Rightarrow> int \<times> u8 list \<times> string" where
  "dummy_read n buf = (0, buf, ''Nothing to read guy'')"

definition dummy_write :: "u64 \<Rightarrow> u8 list \<Rightarrow> int \<times> string" where
  "dummy_write n buf = (sint n, ''Can't accept any data guy'')"

text \<open>The table of operations that is tied to the device: the members it sets.\<close>

datatype dummy_op = Dummy_open | Dummy_read | Dummy_write | Dummy_release

definition fo :: "string \<rightharpoonup> dummy_op" where
  "fo = [''open'' \<mapsto> Dummy_open, ''read'' \<mapsto> Dummy_read, ''write'' \<mapsto> Dummy_write, ''release'' \<mapsto> Dummy_release]"

section \<open>The driver and the kernel\<close>

datatype dev_call =
    Alloc_chrdev_region u32 u32 "int \<times> u32"
  | Unregister_chrdev_region u32 u32
  | Class_create "int + addr"
  | Class_destroy addr
  | Cdev_init
  | Cdev_add u32 u32 int
  | Cdev_del
  | Device_create addr u32 "int + addr"
  | Device_destroy addr u32

datatype resource = Region u32 u32 | Class addr | Live_cdev | Node addr u32

record 'k dev_kernel =
  k_alloc_chrdev_region :: "u32 \<Rightarrow> u32 \<Rightarrow> 'k \<Rightarrow> (int \<times> u32) \<times> 'k"
  k_class_create :: "'k \<Rightarrow> (int + addr) \<times> 'k"
  k_cdev_add :: "u32 \<Rightarrow> u32 \<Rightarrow> 'k \<Rightarrow> int \<times> 'k"
  k_device_create :: "addr \<Rightarrow> u32 \<Rightarrow> 'k \<Rightarrow> (int + addr) \<times> 'k"
  k_this_module :: addr
  k_effect :: "dev_call \<Rightarrow> 'k \<Rightarrow> 'k"

text \<open>\<open>k_effect\<close> is what a call without a result does to the kernel. A pointer result is
  \<open>Inl\<close> of the error it encodes or \<open>Inr\<close> of an address (\<open>IS_ERR\<close>, \<open>PTR_ERR\<close>).\<close>

record 'k driver =
  d_kern :: 'k
  d_calls :: "dev_call list"
  d_log :: "(string \<times> u32 list) list"
  major :: u32
  dummy_class :: addr
  cdev_owner :: addr

definition called :: "dev_call \<Rightarrow> 'k \<Rightarrow> 'k driver \<Rightarrow> 'k driver" where
  "called c k d = d\<lparr>d_kern := k, d_calls := d_calls d @ [c]\<rparr>"

definition call_void :: "'k dev_kernel \<Rightarrow> dev_call \<Rightarrow> 'k driver \<Rightarrow> 'k driver" where
  "call_void K c d = called c (k_effect K c (d_kern d)) d"

definition pr :: "string \<Rightarrow> u32 list \<Rightarrow> 'k driver \<Rightarrow> 'k driver" where
  "pr msg args d = d\<lparr>d_log := d_log d @ [(msg, args)]\<rparr>"

section \<open>Init and cleanup\<close>

text \<open>From the creation of the class on, the branches of \<open>dummy_char_init\<close> in their order.\<close>

definition create_device :: "'k dev_kernel \<Rightarrow> u32 \<Rightarrow> 'k driver \<Rightarrow> int \<times> 'k driver" where
  "create_device K devt d =
     (let d = call_void K Cdev_init d;
          d = d\<lparr>cdev_owner := k_this_module K\<rparr>;
          (ret, k) = k_cdev_add K devt 1 (d_kern d);
          d = called (Cdev_add devt 1 ret) k d;
          (dev, k) = k_device_create K (dummy_class d) devt (d_kern d);
          d = called (Device_create (dummy_class d) devt dev) k d
      in case dev of
           Inl e \<Rightarrow>
             (let d = pr ''Error creating dummy char device.'' [] d;
                  d = call_void K (Class_destroy (dummy_class d)) d;
                  d = call_void K (Unregister_chrdev_region devt 1) d
              in (-1, d))
         | Inr p \<Rightarrow> (0, pr ''dummy char module loaded'' [] d))"

definition dummy_char_init :: "'k dev_kernel \<Rightarrow> 'k driver \<Rightarrow> int \<times> 'k driver" where
  "dummy_char_init K d =
     (let ((error, devt), k) = k_alloc_chrdev_region K 0 1 (d_kern d);
          d = called (Alloc_chrdev_region 0 1 (error, devt)) k d
      in if error < 0 then (error, pr ''Can't get major number'' [] d)
         else
           (let d = pr ''dummy_char major number = %d'' [MAJOR devt] (d\<lparr>major := MAJOR devt\<rparr>);
                (cls, k) = k_class_create K (d_kern d);
                d = called (Class_create cls) k d
            in case cls of
                 Inl e \<Rightarrow>
                   (let d = pr ''Error creating dummy char class.'' [] d;
                        d = call_void K (Unregister_chrdev_region (MKDEV (major d) 0) 1) d
                    in (e, d))
               | Inr c \<Rightarrow> create_device K devt (d\<lparr>dummy_class := c\<rparr>)))"

definition dummy_char_cleanup :: "'k dev_kernel \<Rightarrow> 'k driver \<Rightarrow> 'k driver" where
  "dummy_char_cleanup K d =
     (let d = call_void K (Unregister_chrdev_region (MKDEV (major d) 0) 1) d;
          d = call_void K (Device_destroy (dummy_class d) (MKDEV (major d) 0)) d;
          d = call_void K Cdev_del d;
          d = call_void K (Class_destroy (dummy_class d)) d
      in pr ''dummy char module Unloaded'' [] d)"

section \<open>What the driver holds\<close>

fun dev_acquires :: "dev_call \<Rightarrow> resource multiset" where
  "dev_acquires (Alloc_chrdev_region first n (e, devt)) = (if e < 0 then {#} else {#Region devt n#})"
| "dev_acquires (Class_create (Inr c)) = {#Class c#}"
| "dev_acquires (Cdev_add devt n e) = (if e < 0 then {#} else {#Live_cdev#})"
| "dev_acquires (Device_create c devt (Inr p)) = {#Node c devt#}"
| "dev_acquires _ = {#}"

fun dev_releases :: "dev_call \<Rightarrow> resource multiset" where
  "dev_releases (Unregister_chrdev_region devt n) = {#Region devt n#}"
| "dev_releases (Class_destroy c) = {#Class c#}"
| "dev_releases Cdev_del = {#Live_cdev#}"
| "dev_releases (Device_destroy c devt) = {#Node c devt#}"
| "dev_releases _ = {#}"

definition dev_held :: "'k driver \<Rightarrow> resource multiset" where
  "dev_held d = after_calls dev_acquires dev_releases (d_calls d) {#}"

text \<open>The first minor number requested is 0, and the number handed out has that minor.\<close>

definition region_starts_at_0 :: "'k dev_kernel \<Rightarrow> bool" where
  "region_starts_at_0 K \<longleftrightarrow>
     (\<forall>n k. 0 \<le> fst (fst (k_alloc_chrdev_region K 0 n k)) \<longrightarrow> MINOR (snd (fst (k_alloc_chrdev_region K 0 n k))) = 0)"

lemma region_minor:
  "region_starts_at_0 K \<Longrightarrow> k_alloc_chrdev_region K 0 n k = ((e, devt), k') \<Longrightarrow> 0 \<le> e \<Longrightarrow> MINOR devt = 0"
  unfolding region_starts_at_0_def by (metis fst_conv snd_conv)

lemma called_simps [simp]:
  "d_calls (called c k d) = d_calls d @ [c]" "d_kern (called c k d) = k"
  "major (called c k d) = major d" "dummy_class (called c k d) = dummy_class d"
  by (simp_all add: called_def)

lemma pr_simps [simp]:
  "d_calls (pr m a d) = d_calls d" "d_kern (pr m a d) = d_kern d" "major (pr m a d) = major d"
  "dummy_class (pr m a d) = dummy_class d"
  by (simp_all add: pr_def)

lemma call_void_simps [simp]:
  "d_calls (call_void K c d) = d_calls d @ [c]"
  "major (call_void K c d) = major d" "dummy_class (call_void K c d) = dummy_class d"
  by (simp_all add: call_void_def)

text \<open>The calls of each path through init, in order.\<close>

lemma create_device_ok:
  "create_device K devt d = (0, d') \<Longrightarrow> \<exists>ret p. major d' = major d \<and> dummy_class d' = dummy_class d
     \<and> d_calls d' = d_calls d @ [Cdev_init, Cdev_add devt 1 ret, Device_create (dummy_class d) devt (Inr p)]"
  by (auto simp: create_device_def Let_def split: prod.splits sum.splits)

lemma create_device_fail:
  "create_device K devt d = (c, d') \<Longrightarrow> c \<noteq> 0 \<Longrightarrow> c = -1 \<and> (\<exists>ret e k.
     fst (k_device_create K (dummy_class d) devt k) = Inl e \<and> d_calls d' = d_calls d @ [Cdev_init, Cdev_add devt 1 ret, Device_create (dummy_class d) devt (Inl e),
       Class_destroy (dummy_class d), Unregister_chrdev_region devt 1])"
  by (auto simp: create_device_def Let_def split: prod.splits sum.splits) (metis fst_conv)

text \<open>Error codes are negative.\<close>

definition errors_negative :: "'k dev_kernel \<Rightarrow> bool" where
  "errors_negative K \<longleftrightarrow> (\<forall>k e. fst (k_class_create K k) = Inl e \<longrightarrow> e < 0)"

lemma init_success:
  assumes "dummy_char_init K d = (0, d')" and "errors_negative K" and "region_starts_at_0 K"
  shows "\<exists>e devt cls ret p. 0 \<le> e \<and> MKDEV (major d') 0 = devt \<and> dummy_class d' = cls
    \<and> d_calls d' = d_calls d @ [Alloc_chrdev_region 0 1 (e, devt), Class_create (Inr cls), Cdev_init,
        Cdev_add devt 1 ret, Device_create cls devt (Inr p)]"
proof -
  obtain e devt k where alloc: "k_alloc_chrdev_region K 0 1 (d_kern d) = ((e, devt), k)"
    by (metis prod.collapse)
  obtain cls k2 where cls: "k_class_create K k = (cls, k2)" by force
  have e: "0 \<le> e"
  proof (rule ccontr)
    assume "\<not> 0 \<le> e"
    then show False using assms(1) alloc by (simp add: dummy_char_init_def Let_def)
  qed
  then have "MINOR devt = 0" using region_minor [OF assms(3) alloc] by simp
  then have devt: "MKDEV (MAJOR devt) 0 = devt" by (rule MKDEV_MAJOR_0)
  have "\<exists>c. cls = Inr c"
  proof (cases cls)
    case (Inl x)
    then have "x < 0" using assms(2) cls by (metis errors_negative_def fst_conv)
    then show ?thesis using assms(1) alloc cls Inl e by (simp add: dummy_char_init_def Let_def)
  qed simp
  then obtain c where c: "cls = Inr c" ..
  then have "create_device K devt ((called (Class_create cls) k2 (pr ''dummy_char major number = %d'' [MAJOR devt]
      ((called (Alloc_chrdev_region 0 1 (e, devt)) k d)\<lparr>major := MAJOR devt\<rparr>)))\<lparr>dummy_class := c\<rparr>) = (0, d')"
    using assms(1) alloc cls e by (simp add: dummy_char_init_def Let_def called_def pr_def)
  from create_device_ok [OF this] show ?thesis
    using e devt c by (auto simp: called_def pr_def)
qed

text \<open>The part of the init that makes the device names this module as its owner.\<close>

lemma create_device_owner: "cdev_owner (snd (create_device K devt d)) = k_this_module K"
  by (simp add: create_device_def Let_def called_def call_void_def pr_def split: prod.split sum.split)

lemma init_failure:
  assumes "dummy_char_init K d = (c, d')" and "c \<noteq> 0" and "region_starts_at_0 K"
  obtains (no_region) devt where "c < 0" "d_calls d' = d_calls d @ [Alloc_chrdev_region 0 1 (c, devt)]"
  | (no_class) e devt k where "fst (k_class_create K k) = Inl c" "0 \<le> e" "d_calls d' = d_calls d @ [Alloc_chrdev_region 0 1 (e, devt),
      Class_create (Inl c), Unregister_chrdev_region devt 1]"
  | (no_device) e devt cls ret x k where "fst (k_device_create K cls devt k) = Inl x" "0 \<le> e" "c = -1"
      "d_calls d' = d_calls d @ [Alloc_chrdev_region 0 1 (e, devt), Class_create (Inr cls), Cdev_init,
        Cdev_add devt 1 ret, Device_create cls devt (Inl x), Class_destroy cls,
        Unregister_chrdev_region devt 1]" "cdev_owner d' = k_this_module K"
proof -
  obtain e devt k where alloc: "k_alloc_chrdev_region K 0 1 (d_kern d) = ((e, devt), k)"
    by (metis prod.collapse)
  obtain cls k2 where cls: "k_class_create K k = (cls, k2)" by force
  show thesis
  proof (cases "e < 0")
    case True
    then show thesis using no_region [of devt] assms(1) alloc by (auto simp: dummy_char_init_def)
  next
    case False
    then have "MINOR devt = 0" using region_minor [OF assms(3) alloc] by simp
    then have devt: "MKDEV (MAJOR devt) 0 = devt" by (rule MKDEV_MAJOR_0)
    show thesis
    proof (cases cls)
      case (Inl x)
      then show thesis using no_class [of k e devt] assms(1) alloc cls False devt
        by (auto simp: dummy_char_init_def Let_def called_def pr_def call_void_def)
    next
      case (Inr p)
      then have "create_device K devt ((called (Class_create cls) k2 (pr ''dummy_char major number = %d'' [MAJOR devt]
          ((called (Alloc_chrdev_region 0 1 (e, devt)) k d)\<lparr>major := MAJOR devt\<rparr>)))\<lparr>dummy_class := p\<rparr>) = (c, d')"
        using assms(1) alloc cls False by (simp add: dummy_char_init_def Let_def called_def pr_def)
      note made = this
      have "cdev_owner d' = k_this_module K" using create_device_owner made by (metis snd_conv)
      with create_device_fail [OF made assms(2)] show thesis
        using no_device [where e = e and devt = devt and cls = p] False Inr
        by (auto simp: called_def pr_def)
    qed
  qed
qed

lemma cleanup_calls:
  "d_calls (dummy_char_cleanup K d) = d_calls d @ [Unregister_chrdev_region (MKDEV (major d) 0) 1,
     Device_destroy (dummy_class d) (MKDEV (major d) 0), Cdev_del, Class_destroy (dummy_class d)]"
  by (simp add: dummy_char_cleanup_def Let_def)


lemma after_calls_from_empty:
  "dev_held d = {#} \<Longrightarrow> d_calls d' = d_calls d @ cs \<Longrightarrow> dev_held d' = after_calls dev_acquires dev_releases cs {#}"
  by (simp add: dev_held_def after_calls_append)

section \<open>Loading and unloading\<close>

lemma load_holds:
  assumes "dummy_char_init K d = (0, d')" and "dev_held d = {#}"
    and "errors_negative K" and "region_starts_at_0 K"
  obtains devt ret where "Cdev_add devt 1 ret \<in> set (d_calls d')"
    "dev_held d' = {#Region devt 1, Class (dummy_class d'), Node (dummy_class d') devt#}
      + (if ret < 0 then {#} else {#Live_cdev#})"
    "dev_held (dummy_char_cleanup K d') = {#}"
proof -
  obtain e devt cls ret p where e: "0 \<le> e" and devt: "MKDEV (major d') 0 = devt" and cls: "dummy_class d' = cls"
    and calls: "d_calls d' = d_calls d @ [Alloc_chrdev_region 0 1 (e, devt), Class_create (Inr cls), Cdev_init,
        Cdev_add devt 1 ret, Device_create cls devt (Inr p)]"
    using init_success [OF assms(1,3,4)] by blast
  have held: "dev_held d' = {#Region devt 1, Class cls, Node cls devt#} + (if ret < 0 then {#} else {#Live_cdev#})"
    using after_calls_from_empty [OF assms(2) calls] e by (simp add: ac_simps)
  have "dev_held (dummy_char_cleanup K d') = after_calls dev_acquires dev_releases
      [Unregister_chrdev_region devt 1, Device_destroy cls devt, Cdev_del, Class_destroy cls] (dev_held d')"
    by (simp only: dev_held_def cleanup_calls after_calls_append devt cls)
  also have "\<dots> = {#}" by (simp add: held)
  finally show thesis using that [of devt ret] held calls cls by simp
qed

lemma load_names_owner:
  assumes "dummy_char_init K d = (0, d')" and "errors_negative K"
  shows "cdev_owner d' = k_this_module K"
proof -
  have "\<exists>devt d0. create_device K devt d0 = (0, d')"
    using assms by (auto simp: dummy_char_init_def Let_def errors_negative_def split: prod.splits if_splits sum.splits)
      (metis fst_conv less_irrefl)
  then show ?thesis using create_device_owner by (metis snd_conv)
qed

text \<open>C20: A successful load of the character device driver returns 0 holding one region, one class
  and the device node of the region's number in that class, and the cdev is live if \<open>cdev_add\<close>
  succeeded, which is not looked at; the cleanup gives everything back.\<close>

theorem chardev_load_then_unload:
  assumes "dummy_char_init K d = (0, d')" and "dev_held d = {#}"
    and "errors_negative K" and "region_starts_at_0 K"
  shows "(\<exists>devt ret. Cdev_add devt 1 ret \<in> set (d_calls d') \<and> dev_held d' =
        {#Region devt 1, Class (dummy_class d'), Node (dummy_class d') devt#} + (if ret < 0 then {#} else {#Live_cdev#}))
    \<and> dev_held (dummy_char_cleanup K d') = {#}"
  using load_holds [OF assms] by blast

text \<open>C36: A failed load returns a negative status and leaves nothing behind, except that after a failed
  \<open>device_create\<close> a cdev that was made live stays live: no \<open>cdev_del\<close> is on that path, and the cleanup never
  runs. The owner it names is the module whose load has just failed, which the kernel frees.\<close>

theorem chardev_failed_load_leaves_cdev:
  assumes "dummy_char_init K d = (c, d')" and "c \<noteq> 0" and "dev_held d = {#}"
    and "errors_negative K" and "region_starts_at_0 K"
  shows "\<exists>new. d_calls d' = d_calls d @ new \<and> c < 0
    \<and> (if \<exists>devt ret. 0 \<le> ret \<and> Cdev_add devt 1 ret \<in> set new
       then c = -1 \<and> dev_held d' = {#Live_cdev#} \<and> cdev_owner d' = k_this_module K else dev_held d' = {#})"
  using assms(1,2,5)
proof (cases rule: init_failure)
  case (no_region devt)
  then show ?thesis by (simp add: after_calls_from_empty [OF assms(3)])
next
  case (no_class e devt k)
  have "c < 0" using assms(4) no_class(1) by (auto simp: errors_negative_def)
  then show ?thesis using no_class by (simp add: after_calls_from_empty [OF assms(3)])
next
  case (no_device e devt cls ret x k)
  then show ?thesis using after_calls_from_empty [OF assms(3) no_device(4)] by auto
qed

text \<open>A kernel that hands out device number 254:0, and whose \<open>cdev_add\<close> and \<open>device_create\<close>
  answer as told.\<close>

definition sample_kernel :: "int \<Rightarrow> int + addr \<Rightarrow> unit dev_kernel" where
  "sample_kernel add node = \<lparr>k_alloc_chrdev_region = (\<lambda>first n k. ((0, MKDEV 254 first), k)),
     k_class_create = (\<lambda>k. (Inr 0x1000, k)), k_cdev_add = (\<lambda>devt n k. (add, k)),
     k_device_create = (\<lambda>c devt k. (node, k)), k_this_module = 0x2000, k_effect = (\<lambda>c k. k)\<rparr>"

definition fresh_driver :: "unit driver" where
  "fresh_driver = \<lparr>d_kern = (), d_calls = [], d_log = [], major = 0, dummy_class = 0, cdev_owner = 0\<rparr>"

lemma sample_kernel_ok:
  "errors_negative (sample_kernel add node)" "region_starts_at_0 (sample_kernel add node)"
  "dev_held fresh_driver = {#}"
  by (simp_all add: errors_negative_def region_starts_at_0_def sample_kernel_def dev_held_def
      fresh_driver_def MINOR_def MKDEV_def MINORMASK_def MINORBITS_def)

lemma sample_load:
  "fst (dummy_char_init (sample_kernel add node) fresh_driver) = (case node of Inl e \<Rightarrow> -1 | Inr p \<Rightarrow> 0)"
  by (simp add: dummy_char_init_def create_device_def sample_kernel_def fresh_driver_def Let_def split: sum.splits)

theorem chardev_load_then_unload_witness:
  "dev_held (dummy_char_cleanup (sample_kernel 0 (Inr 1))
     (snd (dummy_char_init (sample_kernel 0 (Inr 1)) fresh_driver))) = {#}"
  using chardev_load_then_unload [of "sample_kernel 0 (Inr 1)" fresh_driver
      "snd (dummy_char_init (sample_kernel 0 (Inr 1)) fresh_driver)"]
    sample_load [of 0 "Inr 1"]
  by (simp add: sample_kernel_ok prod_eq_iff)

theorem chardev_failed_load_leaves_cdev_witness:
  "dev_held (snd (dummy_char_init (sample_kernel 0 (Inl (-12))) fresh_driver)) = {#Live_cdev#}
    \<and> cdev_owner (snd (dummy_char_init (sample_kernel 0 (Inl (-12))) fresh_driver)) = 0x2000"
proof -
  let ?r = "dummy_char_init (sample_kernel 0 (Inl (-12))) fresh_driver"
  have calls: "d_calls (snd ?r) = [Alloc_chrdev_region 0 1 (0, MKDEV 254 0), Class_create (Inr 0x1000),
      Cdev_init, Cdev_add (MKDEV 254 0) 1 0, Device_create 0x1000 (MKDEV 254 0) (Inl (-12)),
      Class_destroy 0x1000, Unregister_chrdev_region (MKDEV 254 0) 1]"
    by (simp add: dummy_char_init_def create_device_def sample_kernel_def fresh_driver_def Let_def)
  have live: "Cdev_add (MKDEV 254 0) 1 0 \<in> set (d_calls (snd ?r))" by (simp add: calls)
  have none: "d_calls fresh_driver = []" by (simp add: fresh_driver_def)
  have "?r = (-1, snd ?r)" using sample_load [of 0 "Inl (-12)"] by (simp add: prod_eq_iff)
  from chardev_failed_load_leaves_cdev [OF this _ sample_kernel_ok(3,1,2)] show ?thesis
    using live by (auto simp: none sample_kernel_def split: if_splits)
qed

end
