(* ===== verification/Step_Systems.thy ===== *)
theory Step_Systems
  imports Prelude
begin

text \<open>
  The contract of a system of interleaved steps that always finishes: an invariant every step
  keeps, a rank every step lowers, and a step in every state that is not final. The modules
  whose work runs beside their own code are instances. Below it, systems whose steps are labelled
  by events, and what holds along every sequence of events.
\<close>

locale finishing_system =
  fixes step :: "'s \<Rightarrow> 's \<Rightarrow> bool"
    and inv :: "'s \<Rightarrow> bool"
    and rank :: "'s \<Rightarrow> nat"
    and final :: "'s \<Rightarrow> bool"
  assumes inv_step: "inv s \<Longrightarrow> step s s' \<Longrightarrow> inv s'"
    and rank_step: "inv s \<Longrightarrow> step s s' \<Longrightarrow> rank s' < rank s"
    and progress: "inv s \<Longrightarrow> \<not> final s \<Longrightarrow> \<exists>s'. step s s'"
begin

lemma inv_reachable: "step\<^sup>*\<^sup>* s s' \<Longrightarrow> inv s \<Longrightarrow> inv s'"
  by (induction rule: rtranclp_induct) (auto dest: inv_step)

lemma run_bounded: "(step ^^ n) s s' \<Longrightarrow> inv s \<Longrightarrow> n + rank s' \<le> rank s"
proof (induction n arbitrary: s')
  case (Suc n)
  then obtain t where t: "(step ^^ n) s t" "step t s'" by auto
  then have "inv t" using inv_reachable [OF relpowp_imp_rtranclp] Suc.prems(2) by blast
  with rank_step [OF this t(2)] Suc.IH [OF t(1) Suc.prems(2)] show ?case by simp
qed simp

lemma stuck_is_final: "inv s \<Longrightarrow> step\<^sup>*\<^sup>* s s' \<Longrightarrow> \<nexists>t. step s' t \<Longrightarrow> final s'"
  using inv_reachable progress by blast

lemma reaches_final: "inv s \<Longrightarrow> \<exists>s'. step\<^sup>*\<^sup>* s s' \<and> final s'"
proof (induction "rank s" arbitrary: s rule: less_induct)
  case less
  show ?case
  proof (cases "final s")
    case False
    then obtain t where t: "step s t" using progress less.prems by blast
    then obtain s' where "step\<^sup>*\<^sup>* t s'" "final s'"
      using less.hyps [OF rank_step [OF less.prems t] inv_step [OF less.prems t]] by blast
    then show ?thesis using t by (blast intro: converse_rtranclp_into_rtranclp)
  qed auto
qed

end

section \<open>Sequences of events\<close>

inductive runs :: "('s \<Rightarrow> 'e \<Rightarrow> 's \<Rightarrow> bool) \<Rightarrow> 's \<Rightarrow> 'e list \<Rightarrow> 's \<Rightarrow> bool" for step where
  stop: "runs step s [] s"
| go: "step s e t \<Longrightarrow> runs step t es u \<Longrightarrow> runs step s (e # es) u"

inductive_simps runs_Nil [simp]: "runs step s [] u"
inductive_simps runs_Cons [simp]: "runs step s (e # es) u"

lemma runs_append: "runs step s (es @ fs) u \<longleftrightarrow> (\<exists>t. runs step s es t \<and> runs step t fs u)"
  by (induction es arbitrary: s) auto

text \<open>A system with an invariant, and an observation of the state that each event extends.\<close>

locale event_system =
  fixes step :: "'s \<Rightarrow> 'e \<Rightarrow> 's \<Rightarrow> bool"
    and inv :: "'s \<Rightarrow> bool"
    and seen :: "'s \<Rightarrow> 'o list"
    and shows_event :: "'e \<Rightarrow> 'o list"
  assumes inv_step: "inv s \<Longrightarrow> step s e t \<Longrightarrow> inv t"
    and seen_step: "step s e t \<Longrightarrow> seen t = seen s @ shows_event e"
begin

lemma inv_runs: "runs step s es t \<Longrightarrow> inv s \<Longrightarrow> inv t"
  by (induction rule: runs.induct) (auto dest: inv_step)

lemma seen_runs: "runs step s es t \<Longrightarrow> seen t = seen s @ concat (map shows_event es)"
  by (induction rule: runs.induct) (auto dest: seen_step)

end

end
