(* ===== verification/Char_Files.thy ===== *)
theory Char_Files
  imports Char_Dev Step_Systems
begin

text \<open>
  The character device driver of \<open>chardev.c\<close> in use: programs open the device, read, write and
  close it while the module is loaded and unloaded. Around the driver's own functions stands the kernel: an
  open needs a live character device and a reference on the module that the cdev names as its owner,
  the last step of a close gives the reference back, and a module that is loaded can be asked to go. Whether
  a reference is given and whether a module goes is the kernel's answer, a parameter. Each call of a file
  operation is recorded, with whether the driver's code was still there when it was made.
\<close>

section \<open>The calls of a program\<close>

datatype file_call = Vfs_open | Vfs_read u64 "u8 list" | Vfs_write u64 "u8 list" | Vfs_release

fun fops_member :: "file_call \<Rightarrow> string" where
  "fops_member Vfs_open = ''open''"
| "fops_member (Vfs_read n buf) = ''read''"
| "fops_member (Vfs_write n buf) = ''write''"
| "fops_member Vfs_release = ''release''"

fun user_buf :: "file_call \<Rightarrow> u8 list" where
  "user_buf (Vfs_read n buf) = buf"
| "user_buf (Vfs_write n buf) = buf"
| "user_buf _ = []"

fun user_count :: "file_call \<Rightarrow> u64" where
  "user_count (Vfs_read n buf) = n"
| "user_count (Vfs_write n buf) = n"
| "user_count _ = 0"

text \<open>The result of a call whose member the table does not set: \<open>-EINVAL\<close> for a read or write.\<close>

fun without_member :: "file_call \<Rightarrow> int" where
  "without_member (Vfs_read n buf) = -22"
| "without_member (Vfs_write n buf) = -22"
| "without_member _ = 0"

text \<open>One function of the driver, called with the arguments of the call: its result, the user's
  buffer afterwards and the line it logs.\<close>

fun run_op :: "dummy_op \<Rightarrow> file_call \<Rightarrow> int \<times> u8 list \<times> string" where
  "run_op Dummy_open c = (let (r, msg) = dummy_open in (r, user_buf c, msg))"
| "run_op Dummy_release c = (let (r, msg) = dummy_release in (r, user_buf c, msg))"
| "run_op Dummy_read c = dummy_read (user_count c) (user_buf c)"
| "run_op Dummy_write c = (let (r, msg) = dummy_write (user_count c) (user_buf c) in (r, user_buf c, msg))"

record 'k session =
  s_drv :: "'k driver"
  s_loaded :: bool
  s_refs :: nat
  s_open :: "nat list"
  s_ran :: "(dummy_op \<times> bool) list"

definition vfs_call :: "file_call \<Rightarrow> 'k session \<Rightarrow> (int \<times> u8 list) \<times> 'k session" where
  "vfs_call c s =
     (case fo (fops_member c) of
        None \<Rightarrow> ((without_member c, user_buf c), s)
      | Some f \<Rightarrow>
          (let (r, buf, msg) = run_op f c
           in ((r, buf), s\<lparr>s_drv := pr msg [] (s_drv s), s_ran := s_ran s @ [(f, s_loaded s)]\<rparr>)))"

section \<open>Loading, using and unloading\<close>

text \<open>The reference an open file holds: on this module if it is the owner the cdev names.\<close>

definition pins :: "'k dev_kernel \<Rightarrow> 'k session \<Rightarrow> nat" where
  "pins K s = (if cdev_owner (s_drv s) = k_this_module K then 1 else 0)"

text \<open>What the module loader answers: whether it gives a reference on the module, which is loaded or not and has
  so many references already, and whether it lets go a module with so many references.\<close>

record module_loader =
  try_get :: "bool \<Rightarrow> nat \<Rightarrow> bool"
  may_unload :: "nat \<Rightarrow> bool"

text \<open>What it documents: a reference on a module that is loaded is given, and a module goes exactly when
  nothing refers to it. Nothing is said of a module that is gone.\<close>

definition documented_loader :: "module_loader \<Rightarrow> bool" where
  "documented_loader L \<longleftrightarrow> (\<forall>n. try_get L True n) \<and> (\<forall>n. may_unload L n \<longleftrightarrow> n = 0)"

text \<open>An open file is refused when the owner's reference is; a device that names no owner needs none.\<close>

definition may_open :: "module_loader \<Rightarrow> 'k dev_kernel \<Rightarrow> 'k session \<Rightarrow> bool" where
  "may_open L K s \<longleftrightarrow> Live_cdev \<in># dev_held (s_drv s)
     \<and> (cdev_owner (s_drv s) = k_this_module K \<longrightarrow> try_get L (s_loaded s) (s_refs s))"

text \<open>An event is labelled with what the caller sees: the status of a load, the result and the
  buffer of a call.\<close>

datatype file_event = Load int | Unload | Call nat file_call int "u8 list"

fun is_transfer :: "file_call \<Rightarrow> bool" where
  "is_transfer (Vfs_read n buf) = True"
| "is_transfer (Vfs_write n buf) = True"
| "is_transfer _ = False"

inductive file_step :: "module_loader \<Rightarrow> 'k dev_kernel \<Rightarrow> 'k session \<Rightarrow> file_event \<Rightarrow> 'k session \<Rightarrow> bool" for L K where
  load: "\<not> s_loaded s \<Longrightarrow> dummy_char_init K (s_drv s) = (c, d) \<Longrightarrow>
    file_step L K s (Load c) (s\<lparr>s_drv := d, s_loaded := c = 0, s_refs := 0\<rparr>)"
| opens: "may_open L K s \<Longrightarrow> f \<notin> set (s_open s) \<Longrightarrow> vfs_call Vfs_open s = ((r, b), t) \<Longrightarrow>
    file_step L K s (Call f Vfs_open r b)
      (if r = 0 then t\<lparr>s_open := f # s_open s, s_refs := s_refs s + pins K s\<rparr> else t)"
| transfers: "f \<in> set (s_open s) \<Longrightarrow> is_transfer c \<Longrightarrow> vfs_call c s = ((r, b), t) \<Longrightarrow>
    file_step L K s (Call f c r b) t"
| closes: "f \<in> set (s_open s) \<Longrightarrow> vfs_call Vfs_release s = ((r, b), t) \<Longrightarrow>
    file_step L K s (Call f Vfs_release r b) (t\<lparr>s_open := remove1 f (s_open s), s_refs := s_refs s - pins K s\<rparr>)"
| unload: "s_loaded s \<Longrightarrow> may_unload L (s_refs s) \<Longrightarrow>
    file_step L K s Unload (s\<lparr>s_drv := dummy_char_cleanup K (s_drv s), s_loaded := False\<rparr>)"

inductive_cases file_stepE: "file_step L K s e t"
inductive_simps file_step_load_iff: "file_step L K s (Load c) t"
inductive_simps file_step_unload_iff: "file_step L K s Unload t"
inductive_simps file_step_open_iff: "file_step L K s (Call f Vfs_open r b) t"
inductive_simps file_step_release_iff: "file_step L K s (Call f Vfs_release r b) t"

abbreviation file_runs ::
    "module_loader \<Rightarrow> 'k dev_kernel \<Rightarrow> 'k session \<Rightarrow> file_event list \<Rightarrow> 'k session \<Rightarrow> bool" where
  "file_runs L K \<equiv> runs (file_step L K)"

text \<open>The first state: nothing loaded, nothing held.\<close>

definition before_load :: "'k driver \<Rightarrow> 'k session" where
  "before_load d = \<lparr>s_drv = d, s_loaded = False, s_refs = 0, s_open = [], s_ran = []\<rparr>"

section \<open>What a call does to the state\<close>

text \<open>The function of the driver that serves a call, and its result and buffer.\<close>

fun served_by :: "file_call \<Rightarrow> dummy_op" where
  "served_by Vfs_open = Dummy_open"
| "served_by (Vfs_read n buf) = Dummy_read"
| "served_by (Vfs_write n buf) = Dummy_write"
| "served_by Vfs_release = Dummy_release"

fun null_result :: "file_call \<Rightarrow> int" where
  "null_result (Vfs_write n buf) = sint n"
| "null_result _ = 0"

lemma vfs_call_cases:
  assumes "vfs_call c s = ((r, b), t)"
  shows "r = null_result c \<and> b = user_buf c \<and> s_ran t = s_ran s @ [(served_by c, s_loaded s)]
    \<and> s_loaded t = s_loaded s \<and> s_refs t = s_refs s \<and> s_open t = s_open s
    \<and> (\<exists>msg. s_drv t = pr msg [] (s_drv s))"
  using assms
  by (cases c) (auto simp: vfs_call_def fo_def dummy_open_def dummy_read_def dummy_write_def dummy_release_def)

lemma pr_keeps: "cdev_owner (pr m a d) = cdev_owner d" "dev_held (pr m a d) = dev_held d"
  "dev_held (dummy_char_cleanup K (pr m a d)) = dev_held (dummy_char_cleanup K d)"
  by (simp_all add: pr_def dev_held_def cleanup_calls)

section \<open>The module is there while its files are open\<close>

text \<open>What the kernel documents of the calls the driver makes.\<close>

definition driver_kernel :: "'k dev_kernel \<Rightarrow> bool" where
  "driver_kernel K \<longleftrightarrow> errors_negative K \<and> region_starts_at_0 K"

text \<open>A load whose \<open>device_create\<close> fails returns -1; it is the one that leaves the cdev behind.\<close>

definition lost_device :: "file_event \<Rightarrow> bool" where
  "lost_device e \<longleftrightarrow> e = Load (-1)"

definition session_inv :: "'k dev_kernel \<Rightarrow> 'k session \<Rightarrow> bool" where
  "session_inv K s \<longleftrightarrow> (\<forall>x \<in> set (s_ran s). snd x)
     \<and> (if s_loaded s then cdev_owner (s_drv s) = k_this_module K \<and> s_refs s = length (s_open s)
          \<and> dev_held (dummy_char_cleanup K (s_drv s)) = {#}
        else s_open s = [] \<and> dev_held (s_drv s) = {#})"

lemma session_inv_before_load: "dev_held d = {#} \<Longrightarrow> session_inv K (before_load d)"
  by (simp add: session_inv_def before_load_def)

lemma failed_load_holds_nothing:
  assumes "dummy_char_init K d = (c, d')" and "c \<noteq> 0" and "dev_held d = {#}" and "driver_kernel K" and "c \<noteq> -1"
  shows "dev_held d' = {#}"
  using assms(1,2) assms(4) [unfolded driver_kernel_def, THEN conjunct2]
  by (cases rule: init_failure) (use assms(5) in \<open>simp_all add: after_calls_from_empty [OF assms(3)]\<close>)

lemma load_inv:
  assumes "driver_kernel K" and "session_inv K s" and "\<not> s_loaded s" and "dummy_char_init K (s_drv s) = (c, d)"
    and "c \<noteq> -1"
  shows "session_inv K (s\<lparr>s_drv := d, s_loaded := c = 0, s_refs := 0\<rparr>)"
proof (cases "c = 0")
  case True
  have K: "errors_negative K" "region_starts_at_0 K" and init: "dummy_char_init K (s_drv s) = (0, d)"
    and held: "dev_held (s_drv s) = {#}"
    using assms True by (simp_all add: driver_kernel_def session_inv_def)
  have "dev_held (dummy_char_cleanup K d) = {#}" using load_holds [OF init held K] by blast
  then show ?thesis using assms(2,3) True load_names_owner [OF init K(1)] by (simp add: session_inv_def)
next
  case False
  then have "dev_held d = {#}"
    using failed_load_holds_nothing [OF assms(4) _ _ assms(1,5)] assms(2,3) by (simp add: session_inv_def)
  then show ?thesis using assms(2,3) False by (simp add: session_inv_def)
qed

lemma call_inv:
  assumes "session_inv K s" and "s_loaded s" and "vfs_call c s = ((r, b), t)"
  shows "session_inv K t"
  using vfs_call_cases [OF assms(3)] assms(1,2) by (auto simp: session_inv_def pr_keeps)

lemma file_step_inv:
  "driver_kernel K \<Longrightarrow> documented_loader L \<Longrightarrow> session_inv K s \<Longrightarrow> \<not> lost_device e \<Longrightarrow> file_step L K s e t \<Longrightarrow> session_inv K t"
proof (erule file_stepE, goal_cases)
  case (1 c d)
  then show ?case using load_inv by (metis lost_device_def)
next
  case (2 f r b u)
  then have loaded: "s_loaded s" by (auto simp: session_inv_def may_open_def split: if_splits)
  from call_inv [OF 2(3) loaded 2(9)] vfs_call_cases [OF 2(9)] 2 loaded show ?case
    by (auto simp: session_inv_def pins_def)
next
  case (3 f c r b)
  then have "s_loaded s" by (auto simp: session_inv_def split: if_splits)
  then show ?case using 3 call_inv by metis
next
  case (4 f r b u)
  then have loaded: "s_loaded s" by (auto simp: session_inv_def split: if_splits)
  from call_inv [OF 4(3) loaded 4(8)] vfs_call_cases [OF 4(8)] 4 loaded show ?case
    by (auto simp: session_inv_def pins_def length_remove1)
next
  case 5
  then show ?case by (simp add: session_inv_def documented_loader_def)
qed

text \<open>Which functions the calls of a sequence of events run.\<close>

fun event_ops :: "file_event \<Rightarrow> dummy_op list" where
  "event_ops (Call f c r b) = [served_by c]"
| "event_ops _ = []"

lemma file_step_ran: "file_step L K s e t \<Longrightarrow> map fst (s_ran t) = map fst (s_ran s) @ event_ops e"
  by (erule file_stepE) (auto dest!: vfs_call_cases)

text \<open>Two systems of events: all of them, and those without a load that loses its device.\<close>

interpretation dev_files: event_system "file_step L K" "\<lambda>_. True" "\<lambda>s. map fst (s_ran s)" event_ops
  by unfold_locales (simp_all add: file_step_ran)

interpretation kept_devices: event_system "\<lambda>s e t. file_step L K s e t \<and> \<not> lost_device e"
  "\<lambda>s. driver_kernel K \<and> documented_loader L \<and> session_inv K s" "\<lambda>s. map fst (s_ran s)" event_ops
  by unfold_locales (auto intro: file_step_inv file_step_ran)

lemma kept_devices_runs:
  "file_runs L K s es t \<Longrightarrow> Load (-1) \<notin> set es \<Longrightarrow> runs (\<lambda>s e t. file_step L K s e t \<and> \<not> lost_device e) s es t"
  by (induction rule: runs.induct) (auto simp: lost_device_def)

lemma session_inv_runs:
  assumes "file_runs L K s es t" and "session_inv K s" and "driver_kernel K" and "documented_loader L" and "Load (-1) \<notin> set es"
  shows "session_inv K t"
  using kept_devices.inv_runs [OF kept_devices_runs [OF assms(1,5)]] assms(2-4) by blast

text \<open>C21: Whatever the order in which the module is loaded and unloaded and the device opened, used and closed, as
  long as no load returns -1, the status after a failed \<open>device_create\<close>: the functions of the driver only ever
  run while the module is loaded; while a file is open the module cannot be unloaded; and whenever it is not
  loaded, nothing of what it took from the kernel is left.\<close>

theorem open_files_keep_the_module:
  assumes "file_runs L K (before_load d) es s" and "Load (-1) \<notin> set es"
    and "driver_kernel K" and "documented_loader L" and "dev_held d = {#}"
  shows "(\<forall>x \<in> set (s_ran s). snd x)
    \<and> (s_open s \<noteq> [] \<longrightarrow> s_loaded s \<and> (\<nexists>t. file_step L K s Unload t))
    \<and> (\<not> s_loaded s \<longrightarrow> dev_held (s_drv s) = {#})"
  using session_inv_runs [OF assms(1) session_inv_before_load [OF assms(5)] assms(3,4,2)] assms(4)
  by (auto simp: session_inv_def file_step_unload_iff documented_loader_def split: if_splits)

lemma call_result_step: "file_step L K s e t \<Longrightarrow> e = Call f c r b \<Longrightarrow> r = null_result c \<and> b = user_buf c"
  by (erule file_stepE) (auto dest: vfs_call_cases)

lemma call_results: "file_runs L K s es t \<Longrightarrow> Call f c r b \<in> set es \<Longrightarrow> r = null_result c \<and> b = user_buf c"
  by (induction rule: runs.induct) (auto dest: call_result_step)

text \<open>C22: The device is a null device. Whatever happens to the module, each call of a program runs one
  function of the driver, in the order of the calls; an open and a close return 0, a read returns 0, the
  end of the file, and leaves the user's buffer as it was; a write returns the count it was given.\<close>

theorem device_is_a_null_device:
  assumes "file_runs L K s es t"
  shows "map fst (s_ran t) = map fst (s_ran s) @ concat (map event_ops es)
    \<and> (\<forall>f c r b. Call f c r b \<in> set es \<longrightarrow> r = null_result c \<and> b = user_buf c)"
  using dev_files.seen_runs [OF assms] call_results [OF assms] by blast

section \<open>Closing and unloading\<close>

text \<open>Closing the open files one after the other.\<close>

definition close_all :: "nat list \<Rightarrow> file_event list" where
  "close_all fs = map (\<lambda>f. Call f Vfs_release 0 []) fs"

lemma close_step:
  assumes "s_open s = f # fs"
  shows "\<exists>t. file_step L K s (Call f Vfs_release 0 []) t \<and> s_open t = fs \<and> s_loaded t = s_loaded s"
proof -
  obtain r b t where t: "vfs_call Vfs_release s = ((r, b), t)" by (metis prod.collapse)
  have "r = 0" "b = []" "s_loaded t = s_loaded s" using vfs_call_cases [OF t] by simp_all
  then show ?thesis using file_step.closes [of f s r b t L K] t assms by (intro exI) auto
qed

lemma close_all_runs: "\<exists>t. file_runs L K s (close_all (s_open s)) t \<and> s_open t = [] \<and> s_loaded t = s_loaded s"
proof (induction "s_open s" arbitrary: s)
  case (Cons f fs)
  then obtain u where u: "file_step L K s (Call f Vfs_release 0 []) u" "s_open u = fs" "s_loaded u = s_loaded s"
    using close_step [of s f fs L K] by metis
  from Cons(1) [of u] u obtain t where "file_runs L K u (close_all fs) t" "s_open t = []" "s_loaded t = s_loaded s"
    by auto
  moreover have "close_all (s_open s) = Call f Vfs_release 0 [] # close_all fs"
    by (simp add: close_all_def flip: Cons(2))
  ultimately show ?case using u(1) by (intro exI [of _ t]) auto
qed (auto simp: close_all_def)

text \<open>C23: The module can always be got rid of: from every state with the module loaded that any run reaches in which
  no load returned -1, the status after a failed \<open>device_create\<close>, closing the open files and unloading leads to a
  state with nothing loaded, no file open, and nothing of what the driver took from the kernel left.\<close>

theorem module_can_be_unloaded:
  assumes "file_runs L K (before_load d) es s" and "Load (-1) \<notin> set es"
    and "driver_kernel K" and "documented_loader L" and "dev_held d = {#}" and "s_loaded s"
  shows "\<exists>t. file_runs L K s (close_all (s_open s) @ [Unload]) t \<and> \<not> s_loaded t \<and> s_open t = [] \<and> dev_held (s_drv t) = {#}"
proof -
  obtain u where u: "file_runs L K s (close_all (s_open s)) u" "s_open u = []" "s_loaded u"
    using close_all_runs assms(6) by metis
  note s = session_inv_runs [OF assms(1) session_inv_before_load [OF assms(5)] assms(3,4,2)]
  have "session_inv K u" by (rule session_inv_runs [OF u(1) s assms(3,4)]) (auto simp: close_all_def)
  then have "s_refs u = 0" "dev_held (dummy_char_cleanup K (s_drv u)) = {#}"
    using u by (simp_all add: session_inv_def)
  then show ?thesis using file_step.unload [of u L K] u assms(4) by (auto simp: runs_append documented_loader_def)
qed

section \<open>A session\<close>

text \<open>A loader that does what it documents.\<close>

definition sample_loader :: module_loader where
  "sample_loader = \<lparr>try_get = (\<lambda>loaded n. loaded), may_unload = (\<lambda>n. n = 0)\<rparr>"

lemma sample_loader_documented: "documented_loader sample_loader"
  by (simp add: documented_loader_def sample_loader_def)

lemma open_step:
  assumes "may_open L K s" and "f \<notin> set (s_open s)"
  shows "\<exists>t. file_step L K s (Call f Vfs_open 0 []) t \<and> s_ran t = s_ran s @ [(Dummy_open, s_loaded s)]
    \<and> f \<in> set (s_open t)"
proof -
  obtain r b t where t: "vfs_call Vfs_open s = ((r, b), t)" by (metis prod.collapse)
  have r: "r = 0" "b = []" "s_ran t = s_ran s @ [(Dummy_open, s_loaded s)]" using vfs_call_cases [OF t] by simp_all
  then show ?thesis using file_step.opens [OF assms t] by (intro exI) auto
qed

text \<open>A load, an open, a write of a full page, a read and a close, in a kernel where all of it succeeds.\<close>

definition sample_session :: "unit session" where
  "sample_session = before_load (snd (dummy_char_init (sample_kernel 0 (Inr 1)) fresh_driver))\<lparr>s_loaded := True\<rparr>"

definition sample_calls :: "file_event list" where
  "sample_calls = [Call 3 Vfs_open 0 [], Call 3 (Vfs_write 4096 [1, 2]) 4096 [1, 2],
     Call 3 (Vfs_read 2 [7, 8]) 0 [7, 8]]"

lemma sample_driver_kernel: "driver_kernel (sample_kernel add node)"
  using sample_kernel_ok(1,2) by (simp add: driver_kernel_def)

lemma sample_load_step: "file_step sample_loader (sample_kernel 0 (Inr 1)) (before_load fresh_driver) (Load 0) sample_session"
proof -
  have "dummy_char_init (sample_kernel 0 (Inr 1)) fresh_driver
      = (0, snd (dummy_char_init (sample_kernel 0 (Inr 1)) fresh_driver))"
    using sample_load [of 0 "Inr 1"] by (simp add: prod_eq_iff)
  then show ?thesis
    using file_step.load [of "before_load fresh_driver" "sample_kernel 0 (Inr 1)" _ _ sample_loader]
    by (fastforce simp: before_load_def sample_session_def)
qed

lemma transfer_step:
  assumes "f \<in> set (s_open s)" and "is_transfer c"
  shows "\<exists>t. file_step L K s (Call f c (null_result c) (user_buf c)) t \<and> s_open t = s_open s \<and> s_loaded t = s_loaded s"
proof -
  obtain r b t where t: "vfs_call c s = ((r, b), t)" by (metis prod.collapse)
  then have "r = null_result c" "b = user_buf c" using vfs_call_cases by blast+
  then show ?thesis using file_step.transfers [OF assms t] vfs_call_cases [OF t] by blast
qed

lemma sample_calls_run: "\<exists>t. file_runs sample_loader (sample_kernel 0 (Inr 1)) sample_session sample_calls t
    \<and> s_open t = [3] \<and> s_loaded t"
proof -
  let ?K = "sample_kernel 0 (Inr 1)"
  have "may_open sample_loader ?K sample_session"
    by (simp add: may_open_def sample_session_def before_load_def dev_held_def dummy_char_init_def create_device_def
        sample_kernel_def fresh_driver_def sample_loader_def Let_def)
  moreover have closed: "s_open sample_session = []" "s_loaded sample_session"
    by (simp_all add: sample_session_def before_load_def)
  ultimately obtain t1 where t1: "file_step sample_loader ?K sample_session (Call 3 Vfs_open 0 []) t1" "3 \<in> set (s_open t1)"
    using open_step [of sample_loader ?K sample_session 3] by auto
  have open1: "s_open t1 = [3]" "s_loaded t1"
    using t1 closed by (auto simp: file_step_open_iff dest!: vfs_call_cases split: if_splits)
  obtain t2 where t2: "file_step sample_loader ?K t1 (Call 3 (Vfs_write 4096 [1, 2]) 4096 [1, 2]) t2"
    "s_open t2 = [3]" "s_loaded t2" using transfer_step [OF t1(2), of "Vfs_write 4096 [1, 2]" sample_loader ?K] open1 by auto
  obtain t3 where t3: "file_step sample_loader ?K t2 (Call 3 (Vfs_read 2 [7, 8]) 0 [7, 8]) t3"
    "s_open t3 = [3]" "s_loaded t3" using transfer_step [of 3 t2 "Vfs_read 2 [7, 8]" sample_loader ?K] t2 by auto
  have "file_runs sample_loader ?K sample_session sample_calls t3" using t1 t2 t3 by (auto simp: sample_calls_def)
  then show ?thesis using t3(2,3) by blast
qed

theorem open_files_keep_the_module_witness:
  "\<exists>t. file_runs sample_loader (sample_kernel 0 (Inr 1)) (before_load fresh_driver) (Load 0 # sample_calls) t
    \<and> s_open t = [3] \<and> (\<forall>x \<in> set (s_ran t). snd x) \<and> (\<nexists>u. file_step sample_loader (sample_kernel 0 (Inr 1)) t Unload u)"
proof -
  obtain t where t: "file_runs sample_loader (sample_kernel 0 (Inr 1)) sample_session sample_calls t" "s_open t = [3]"
    using sample_calls_run by blast
  then have run: "file_runs sample_loader (sample_kernel 0 (Inr 1)) (before_load fresh_driver) (Load 0 # sample_calls) t"
    using sample_load_step by auto
  have "Load (-1) \<notin> set (Load 0 # sample_calls)" by (simp add: sample_calls_def)
  from open_files_keep_the_module [OF run this sample_driver_kernel sample_loader_documented sample_kernel_ok(3)]
  show ?thesis using run t(2) by (intro exI [of _ t]) simp
qed

theorem device_is_a_null_device_witness:
  "\<exists>t. file_runs sample_loader (sample_kernel 0 (Inr 1)) sample_session sample_calls t
    \<and> map fst (s_ran t) = [Dummy_open, Dummy_write, Dummy_read]"
proof -
  obtain t where t: "file_runs sample_loader (sample_kernel 0 (Inr 1)) sample_session sample_calls t"
    using sample_calls_run by blast
  have "map fst (s_ran t) = [Dummy_open, Dummy_write, Dummy_read]"
    using device_is_a_null_device [OF t] by (simp add: sample_calls_def sample_session_def before_load_def)
  then show ?thesis using t by (intro exI [of _ t] conjI)
qed

theorem module_can_be_unloaded_witness:
  "\<exists>s t. file_runs sample_loader (sample_kernel 0 (Inr 1)) (before_load fresh_driver) (Load 0 # sample_calls) s \<and> s_open s = [3]
    \<and> file_runs sample_loader (sample_kernel 0 (Inr 1)) s [Call 3 Vfs_release 0 [], Unload] t \<and> dev_held (s_drv t) = {#}"
proof -
  obtain s where s: "file_runs sample_loader (sample_kernel 0 (Inr 1)) sample_session sample_calls s" "s_open s = [3]" "s_loaded s"
    using sample_calls_run by blast
  then have run: "file_runs sample_loader (sample_kernel 0 (Inr 1)) (before_load fresh_driver) (Load 0 # sample_calls) s"
    using sample_load_step by auto
  show ?thesis
    using module_can_be_unloaded [OF run _ sample_driver_kernel sample_loader_documented sample_kernel_ok(3) s(3)] run s(2)
    by (auto simp: close_all_def sample_calls_def)
qed

end
