(* ===== verification/Bma150.thy ===== *)
theory Bma150
  imports Module_Lifecycle
begin

text \<open>
  The accelerometer driver of \<open>bma150.c\<close> with the constants and the configuration of
  \<open>bma150.h\<close>: the default configuration, the decoding and reporting of a sample, the set-up of
  the input device and the two registrations with their error paths. The input core, the i2c
  read and \<open>sign_extend32\<close> are parameters. The structures the driver writes live in three heaps
  by address; every call to the input core that the driver makes is recorded.
\<close>

section \<open>Constants and configuration\<close>

definition BMA150_DRIVER :: string where "BMA150_DRIVER = ''bma150''"

definition BMA150_RANGE_2G :: u8 where "BMA150_RANGE_2G = 0"
definition BMA150_RANGE_4G :: u8 where "BMA150_RANGE_4G = 1"
definition BMA150_RANGE_8G :: u8 where "BMA150_RANGE_8G = 2"

definition BMA150_BW_25HZ :: u8 where "BMA150_BW_25HZ = 0"
definition BMA150_BW_50HZ :: u8 where "BMA150_BW_50HZ = 1"
definition BMA150_BW_100HZ :: u8 where "BMA150_BW_100HZ = 2"
definition BMA150_BW_190HZ :: u8 where "BMA150_BW_190HZ = 3"
definition BMA150_BW_375HZ :: u8 where "BMA150_BW_375HZ = 4"
definition BMA150_BW_750HZ :: u8 where "BMA150_BW_750HZ = 5"
definition BMA150_BW_1500HZ :: u8 where "BMA150_BW_1500HZ = 6"

record bma150_cfg =
  any_motion_int :: bool
  hg_int :: bool
  lg_int :: bool
  any_motion_dur :: u8
  any_motion_thres :: u8
  hg_hyst :: u8
  hg_dur :: u8
  hg_thres :: u8
  lg_hyst :: u8
  lg_dur :: u8
  lg_thres :: u8
  range_sel :: u8
  bandwidth :: u8

definition default_cfg :: bma150_cfg where
  "default_cfg = \<lparr>any_motion_int = True, hg_int = True, lg_int = True, any_motion_dur = 0,
     any_motion_thres = 0, hg_hyst = 0, hg_dur = 150, hg_thres = 160, lg_hyst = 0, lg_dur = 150,
     lg_thres = 20, range_sel = BMA150_RANGE_2G, bandwidth = BMA150_BW_50HZ\<rparr>"

section \<open>The driver's structures\<close>

record bma150_data =
  client :: addr
  input_polled :: addr
  input :: addr
  mode :: u8

text \<open>Of \<open>input_dev\<close>, the fields the driver writes; of \<open>input_polled_dev\<close>, all but the private
  tail. Function pointers name the function they point to.\<close>

datatype fn = Irq_open | Irq_close | Poll_open | Poll_close | Poll | No_fn

record idev_fields =
  id_name :: string
  id_phys :: string
  id_bustype :: u16
  id_parent :: addr
  id_evbit0 :: u64
  id_open :: fn
  id_close :: fn

record input_polled_dev =
  ip_private :: addr
  ip_open :: fn
  ip_close :: fn
  ip_poll :: fn
  ip_interval :: u32
  ip_interval_max :: u32
  ip_interval_min :: u32
  ip_input :: addr

datatype input_call =
    Allocate_device addr | Free_device addr | Register_device addr int
  | Allocate_polled addr | Free_polled addr | Register_polled addr int
  | Set_drvdata addr addr
  | Set_abs_params addr nat int int int int
  | Report_abs addr nat int | Sync addr

record 'k bma_state =
  b_kern :: 'k
  b_calls :: "input_call list"
  b_data :: "addr \<Rightarrow> bma150_data"
  b_idev :: "addr \<Rightarrow> idev_fields"
  b_ipoll :: "addr \<Rightarrow> input_polled_dev"

text \<open>The system: the i2c block read gives its result and the contents of the six-byte array after it;
  an allocation of a polled device gives the address of it and of the input device it embeds a
  pointer to. The constants of headers that are not in the repository are fields too.\<close>

record 'k bma_system =
  sys_i2c_read :: "addr \<Rightarrow> u8 \<Rightarrow> nat \<Rightarrow> 'k \<Rightarrow> (int \<times> u8 list) \<times> 'k"
  sys_alloc_device :: "'k \<Rightarrow> addr \<times> 'k"
  sys_alloc_polled :: "'k \<Rightarrow> (addr \<times> addr) \<times> 'k"
  sys_register_device :: "addr \<Rightarrow> 'k \<Rightarrow> int \<times> 'k"
  sys_register_polled :: "addr \<Rightarrow> 'k \<Rightarrow> int \<times> 'k"
  sys_input_effect :: "input_call \<Rightarrow> 'k \<Rightarrow> 'k"
  sign_extend32 :: "u32 \<Rightarrow> nat \<Rightarrow> u32"
  client_dev :: "addr \<Rightarrow> addr"
  ACC_X_LSB_REG :: u8
  ABSMIN_ACC_VAL :: int
  ABSMAX_ACC_VAL :: int
  POLL_INTERVAL :: u32
  POLL_MIN :: u32
  POLL_MAX :: u32
  ENOMEM :: int

definition BMA150_XYZ_DATA_SIZE :: nat where "BMA150_XYZ_DATA_SIZE = 6"
definition ABS_X :: nat where "ABS_X = 0"
definition ABS_Y :: nat where "ABS_Y = 1"
definition ABS_Z :: nat where "ABS_Z = 2"
definition EV_ABS :: nat where "EV_ABS = 3"
definition BUS_I2C :: u16 where "BUS_I2C = 0x18"
definition IRQ_HANDLED :: int where "IRQ_HANDLED = 1"

definition input_call :: "'k bma_system \<Rightarrow> input_call \<Rightarrow> 'k bma_state \<Rightarrow> 'k bma_state" where
  "input_call S c s = s\<lparr>b_kern := sys_input_effect S c (b_kern s), b_calls := b_calls s @ [c]\<rparr>"

section \<open>A sample\<close>

text \<open>One axis: the two high bits of the first byte below the second byte, in \<open>int\<close>, stored in
  16 bits, sign extended from bit 9 and stored in 16 bits again.\<close>

definition axis_raw :: "u8 \<Rightarrow> u8 \<Rightarrow> u16" where
  "axis_raw lo hi = ucast (drop_bit 6 (0xC0 AND (ucast lo :: u32)) OR push_bit 2 (ucast hi :: u32))"

definition axis :: "'k bma_system \<Rightarrow> u8 \<Rightarrow> u8 \<Rightarrow> u16" where
  "axis S lo hi = ucast (sign_extend32 S (scast (axis_raw lo hi)) 9)"

definition bma150_report_xyz :: "'k bma_system \<Rightarrow> addr \<Rightarrow> 'k bma_state \<Rightarrow> 'k bma_state" where
  "bma150_report_xyz S b s =
     (let ((ret, buf), k) = sys_i2c_read S (client (b_data s b)) (ACC_X_LSB_REG S) BMA150_XYZ_DATA_SIZE (b_kern s);
          s = s\<lparr>b_kern := k\<rparr>
      in if ret \<noteq> int BMA150_XYZ_DATA_SIZE then s
         else
           (let x = axis S (buf ! 0) (buf ! 1);
                y = axis S (buf ! 2) (buf ! 3);
                z = axis S (buf ! 4) (buf ! 5);
                idev = input (b_data s b);
                s = input_call S (Report_abs idev ABS_X (sint x)) s;
                s = input_call S (Report_abs idev ABS_Y (sint y)) s;
                s = input_call S (Report_abs idev ABS_Z (sint z)) s
            in input_call S (Sync idev) s))"

definition bma150_irq_thread :: "'k bma_system \<Rightarrow> int \<Rightarrow> addr \<Rightarrow> 'k bma_state \<Rightarrow> int \<times> 'k bma_state" where
  "bma150_irq_thread S irq dev s = (IRQ_HANDLED, bma150_report_xyz S dev s)"

definition bma150_poll :: "'k bma_system \<Rightarrow> addr \<Rightarrow> 'k bma_state \<Rightarrow> 'k bma_state" where
  "bma150_poll S dev s = bma150_report_xyz S (ip_private (b_ipoll s dev)) s"

section \<open>Set-up and registration\<close>

definition bma150_init_input_device :: "'k bma_system \<Rightarrow> addr \<Rightarrow> addr \<Rightarrow> 'k bma_state \<Rightarrow> 'k bma_state" where
  "bma150_init_input_device S b idev s =
     (let i = (b_idev s idev)\<lparr>id_name := BMA150_DRIVER, id_phys := BMA150_DRIVER @ ''/input0'',
                id_bustype := BUS_I2C, id_parent := client_dev S (client (b_data s b)),
                id_evbit0 := push_bit EV_ABS 1\<rparr>;
          s = s\<lparr>b_idev := (b_idev s)(idev := i)\<rparr>;
          s = input_call S (Set_abs_params idev ABS_X (ABSMIN_ACC_VAL S) (ABSMAX_ACC_VAL S) 0 0) s;
          s = input_call S (Set_abs_params idev ABS_Y (ABSMIN_ACC_VAL S) (ABSMAX_ACC_VAL S) 0 0) s
      in input_call S (Set_abs_params idev ABS_Z (ABSMIN_ACC_VAL S) (ABSMAX_ACC_VAL S) 0 0) s)"

definition bma150_register_input_device :: "'k bma_system \<Rightarrow> addr \<Rightarrow> 'k bma_state \<Rightarrow> int \<times> 'k bma_state" where
  "bma150_register_input_device S b s =
     (let (idev, k) = sys_alloc_device S (b_kern s);
          s = s\<lparr>b_kern := k, b_calls := b_calls s @ [Allocate_device idev]\<rparr>
      in if idev = NULL then (- ENOMEM S, s)
         else
           (let s = bma150_init_input_device S b idev s;
                s = s\<lparr>b_idev := (b_idev s)(idev := (b_idev s idev)\<lparr>id_open := Irq_open, id_close := Irq_close\<rparr>)\<rparr>;
                s = input_call S (Set_drvdata idev b) s;
                (error, k) = sys_register_device S idev (b_kern s);
                s = s\<lparr>b_kern := k, b_calls := b_calls s @ [Register_device idev error]\<rparr>
            in if error \<noteq> 0 then (error, input_call S (Free_device idev) s)
               else (0, s\<lparr>b_data := (b_data s)(b := (b_data s b)\<lparr>input := idev\<rparr>)\<rparr>)))"

definition bma150_register_polled_device :: "'k bma_system \<Rightarrow> addr \<Rightarrow> 'k bma_state \<Rightarrow> int \<times> 'k bma_state" where
  "bma150_register_polled_device S b s =
     (let ((ipoll, idev), k) = sys_alloc_polled S (b_kern s);
          s = s\<lparr>b_kern := k, b_calls := b_calls s @ [Allocate_polled ipoll]\<rparr>
      in if ipoll = NULL then (- ENOMEM S, s)
         else
           (let dev = (b_ipoll s ipoll)\<lparr>ip_input := idev, ip_private := b, ip_open := Poll_open,
                  ip_close := Poll_close, ip_poll := Poll, ip_interval := POLL_INTERVAL S,
                  ip_interval_min := POLL_MIN S, ip_interval_max := POLL_MAX S\<rparr>;
                s = s\<lparr>b_ipoll := (b_ipoll s)(ipoll := dev)\<rparr>;
                s = bma150_init_input_device S b (ip_input dev) s;
                (error, k) = sys_register_polled S ipoll (b_kern s);
                s = s\<lparr>b_kern := k, b_calls := b_calls s @ [Register_polled ipoll error]\<rparr>
            in if error \<noteq> 0 then (error, input_call S (Free_polled ipoll) s)
               else (0, s\<lparr>b_data := (b_data s)(b := (b_data s b)\<lparr>input_polled := ipoll,
                                                                input := ip_input dev\<rparr>)\<rparr>)))"

lemma input_call_simps [simp]:
  "b_kern (input_call S c s) = sys_input_effect S c (b_kern s)"
  "b_calls (input_call S c s) = b_calls s @ [c]" "b_data (input_call S c s) = b_data s"
  "b_idev (input_call S c s) = b_idev s" "b_ipoll (input_call S c s) = b_ipoll s"
  by (simp_all add: input_call_def)

section \<open>Decoding a sample\<close>

text \<open>The documentation of \<open>sign_extend32\<close>: it extends a 32-bit value from the given sign bit.\<close>

definition documented_sign_extend :: "'k bma_system \<Rightarrow> bool" where
  "documented_sign_extend S \<longleftrightarrow> (\<forall>v i. i < 32 \<longrightarrow> sign_extend32 S v i = signed_take_bit i v)"

lemma bit_axis_raw:
  "bit (axis_raw lo hi) n \<longleftrightarrow> (if n < 2 then bit lo (n + 6) else n < 10 \<and> bit hi (n - 2))"
proof -
  have c3: "bit (3 :: u32) m \<longleftrightarrow> m < 2" for m
    by (auto simp: bit_numeral_rec bit_1_iff less_Suc_eq numeral_2_eq_2 split: nat.splits)
  have c0: "bit (0xC0 :: u32) (m + 6) \<longleftrightarrow> m < 2" for m
    by (auto simp: bit_numeral_rec bit_1_iff less_Suc_eq numeral_2_eq_2 split: nat.splits)
  show ?thesis
    using c0 [of n] by (auto simp: axis_raw_def bit_simps c3 add.commute dest: bit_imp_le_length)
qed

lemma bit_axis:
  "documented_sign_extend S \<Longrightarrow> bit (axis S lo hi) n \<longleftrightarrow> n < 16 \<and> bit (axis_raw lo hi) (min n 9)"
  by (auto simp: axis_def documented_sign_extend_def bit_simps bit_axis_raw min_def)

lemma axis_as_int:
  assumes "documented_sign_extend S"
  shows "sint (axis S lo hi) = signed_take_bit 9 (uint (axis_raw lo hi))"
  using assms by (intro bit_eqI) (auto simp: bit_simps bit_axis min_def)

lemma sint_axis_range:
  assumes "documented_sign_extend S"
  shows "-512 \<le> sint (axis S lo hi) \<and> sint (axis S lo hi) \<le> 511"
  using signed_take_bit_int_greater_eq_minus_exp [of 9 "uint (axis_raw lo hi)"]
    signed_take_bit_int_less_exp [of 9 "uint (axis_raw lo hi)"]
  by (simp add: axis_as_int [OF assms])

text \<open>The registers of an axis: a ten-bit two's complement value, its two low bits on top of six
  other bits.\<close>

definition encode_axis :: "u8 \<Rightarrow> int \<Rightarrow> u8 \<times> u8" where
  "encode_axis st v = (push_bit 6 (word_of_int v) OR take_bit 6 st, word_of_int (drop_bit 2 v))"

lemma bit_encode_axis:
  "n < 2 \<Longrightarrow> bit (fst (encode_axis st v)) (n + 6) = bit v n"
  "bit (snd (encode_axis st v)) n \<longleftrightarrow> n < 8 \<and> bit v (n + 2)"
  by (auto simp: encode_axis_def bit_or_iff bit_take_bit_iff bit_push_bit_iff bit_word_of_int_iff bit_drop_bit_eq add.commute
      simp del: push_bit_numeral)

lemma axis_of_encoded:
  assumes "documented_sign_extend S" and "-512 \<le> v" and "v \<le> 511"
  shows "sint (axis S (fst (encode_axis st v)) (snd (encode_axis st v))) = v"
proof -
  have "signed_take_bit 9 v = v" using assms(2,3) by (simp add: signed_take_bit_int_eq_self)
  moreover have "signed_take_bit 9 (uint (axis_raw (fst (encode_axis st v)) (snd (encode_axis st v)))) = signed_take_bit 9 v"
  proof (rule bit_eqI)
    fix n
    have "\<not> m < 2 \<Longrightarrow> Suc (Suc (m - 2)) = m" for m :: nat by simp
    then show "bit (signed_take_bit 9 (uint (axis_raw (fst (encode_axis st v)) (snd (encode_axis st v))))) n
        = bit (signed_take_bit 9 v) n"
      by (auto simp: bit_signed_take_bit_iff bit_uint_iff bit_axis_raw bit_encode_axis min_def)
  qed
  ultimately show ?thesis by (simp add: axis_as_int [OF assms(1)])
qed

section \<open>What the driver reports\<close>

text \<open>The two bytes of each axis, one after the other.\<close>

definition sample_bytes :: "(u8 \<times> int) list \<Rightarrow> u8 list" where
  "sample_bytes axes = concat (map (\<lambda>(st, v). [fst (encode_axis st v), snd (encode_axis st v)]) axes)"

lemma report_sample:
  assumes "documented_sign_extend S"
    and "-512 \<le> x" "x \<le> 511" "-512 \<le> y" "y \<le> 511" "-512 \<le> z" "z \<le> 511"
    and "fst (sys_i2c_read S (client (b_data s b)) (ACC_X_LSB_REG S) 6 (b_kern s)) = (6, sample_bytes [(p, x), (q, y), (r, z)])"
  shows "bma150_report_xyz S b s = fold (input_call S)
      [Report_abs (input (b_data s b)) ABS_X x, Report_abs (input (b_data s b)) ABS_Y y,
       Report_abs (input (b_data s b)) ABS_Z z, Sync (input (b_data s b))]
      (s\<lparr>b_kern := snd (sys_i2c_read S (client (b_data s b)) (ACC_X_LSB_REG S) 6 (b_kern s))\<rparr>)"
  using assms(8) axis_of_encoded [OF assms(1-3)] axis_of_encoded [OF assms(1,4,5)] axis_of_encoded [OF assms(1,6,7)]
  by (simp add: bma150_report_xyz_def BMA150_XYZ_DATA_SIZE_def sample_bytes_def case_prod_unfold Let_def)

lemma fold_input_call_simps [simp]:
  "b_calls (fold (input_call S) cs s) = b_calls s @ cs" "b_data (fold (input_call S) cs s) = b_data s"
  "b_ipoll (fold (input_call S) cs s) = b_ipoll s"
  by (induction cs arbitrary: s) simp_all

text \<open>C17: a complete read of six bytes that hold three ten-bit values, in two's complement and with
  any other bits below them, is reported as exactly those values on the axes X, Y and Z in
  order, followed by one sync, all to the driver's input device.\<close>

theorem bma150_report_roundtrip:
  assumes "documented_sign_extend S"
    and "-512 \<le> x" "x \<le> 511" "-512 \<le> y" "y \<le> 511" "-512 \<le> z" "z \<le> 511"
    and "fst (sys_i2c_read S (client (b_data s b)) (ACC_X_LSB_REG S) 6 (b_kern s)) =
      (6, concat (map (\<lambda>(st, v). [fst (encode_axis st v), snd (encode_axis st v)]) [(p, x), (q, y), (r, z)]))"
  shows "b_calls (snd (bma150_irq_thread S irq b s)) = b_calls s @
      [Report_abs (input (b_data s b)) ABS_X x, Report_abs (input (b_data s b)) ABS_Y y,
       Report_abs (input (b_data s b)) ABS_Z z, Sync (input (b_data s b))]"
  using report_sample [OF assms(1-7), where b = b and s = s and p = p and q = q and r = r] assms(8)
  by (simp add: bma150_irq_thread_def sample_bytes_def del: fold.simps)

text \<open>Whatever the bus delivers, a report is either nothing at all (the read did not return six)
  or three values between -512 and 511 and a sync; nothing else of the driver changes.\<close>

theorem bma150_reports_in_range:
  assumes "documented_sign_extend S"
  shows "\<exists>x y z. set [x, y, z] \<subseteq> {-512 .. 511} \<and>
      b_calls (bma150_report_xyz S b s) = b_calls s @
        (if fst (fst (sys_i2c_read S (client (b_data s b)) (ACC_X_LSB_REG S) 6 (b_kern s))) = 6
         then [Report_abs (input (b_data s b)) ABS_X x, Report_abs (input (b_data s b)) ABS_Y y,
               Report_abs (input (b_data s b)) ABS_Z z, Sync (input (b_data s b))] else [])
      \<and> b_data (bma150_report_xyz S b s) = b_data s"
proof -
  let ?buf = "snd (fst (sys_i2c_read S (client (b_data s b)) (ACC_X_LSB_REG S) 6 (b_kern s)))"
  show ?thesis
    by (rule exI [of _ "sint (axis S (?buf ! 0) (?buf ! 1))"], rule exI [of _ "sint (axis S (?buf ! 2) (?buf ! 3))"],
        rule exI [of _ "sint (axis S (?buf ! 4) (?buf ! 5))"])
      (simp add: sint_axis_range [OF assms] bma150_report_xyz_def BMA150_XYZ_DATA_SIZE_def case_prod_unfold Let_def)
qed

section \<open>Registration\<close>

text \<open>The devices the driver has allocated and not freed.\<close>

fun input_acquires :: "input_call \<Rightarrow> addr multiset" where
  "input_acquires (Allocate_device p) = (if p = NULL then {#} else {#p#})"
| "input_acquires (Allocate_polled p) = (if p = NULL then {#} else {#p#})"
| "input_acquires _ = {#}"

fun input_releases :: "input_call \<Rightarrow> addr multiset" where
  "input_releases (Free_device p) = {#p#}"
| "input_releases (Free_polled p) = {#p#}"
| "input_releases _ = {#}"

definition devices_held :: "'k bma_state \<Rightarrow> addr multiset" where
  "devices_held s = after_calls input_acquires input_releases (b_calls s) {#}"

lemma init_input_device_simps [simp]:
  "b_data (bma150_init_input_device S b p s) = b_data s"
  "b_ipoll (bma150_init_input_device S b p s) = b_ipoll s"
  "b_calls (bma150_init_input_device S b p s) = b_calls s @
     map (\<lambda>ax. Set_abs_params p ax (ABSMIN_ACC_VAL S) (ABSMAX_ACC_VAL S) 0 0) [ABS_X, ABS_Y, ABS_Z]"
  by (simp_all add: bma150_init_input_device_def Let_def)

lemma init_input_device_fields:
  "b_idev (bma150_init_input_device S b p s) = (b_idev s)(p := (b_idev s p)\<lparr>id_name := ''bma150'',
     id_phys := ''bma150/input0'', id_bustype := BUS_I2C, id_parent := client_dev S (client (b_data s b)),
     id_evbit0 := 8\<rparr>)"
  by (simp add: bma150_init_input_device_def Let_def BMA150_DRIVER_def EV_ABS_def)

text \<open>Registering the input device either succeeds, and then the driver holds one more device, its
  input, set up for the i2c bus and the three axes and opened through the interrupt handlers; or
  it fails with the error of the allocation or of the registration, and then it holds what it
  held and its data is unchanged.\<close>

theorem register_input_device_outcomes:
  assumes "bma150_register_input_device S b s = (e, s')" and "ENOMEM S \<noteq> 0"
  shows "if e = 0
    then input (b_data s' b) \<noteq> NULL \<and> devices_held s' = devices_held s + {#input (b_data s' b)#}
      \<and> id_open (b_idev s' (input (b_data s' b))) = Irq_open
      \<and> id_phys (b_idev s' (input (b_data s' b))) = ''bma150/input0''
      \<and> id_evbit0 (b_idev s' (input (b_data s' b))) = 8
    else devices_held s' = devices_held s \<and> b_data s' = b_data s"
proof -
  obtain p k where alloc: "sys_alloc_device S (b_kern s) = (p, k)" by force
  show ?thesis
  proof (cases "p = NULL")
    case True
    then show ?thesis using assms alloc
      by (auto simp: bma150_register_input_device_def devices_held_def after_calls_append)
  next
    case False
    then show ?thesis using assms alloc
      by (auto simp: bma150_register_input_device_def devices_held_def after_calls_append Let_def
          init_input_device_fields split: prod.splits if_splits)
  qed
qed

text \<open>Registering the polled device has the same contract; on success the polled device polls the
  driver it was registered for at the configured intervals.\<close>

theorem register_polled_device_outcomes:
  assumes "bma150_register_polled_device S b s = (e, s')" and "ENOMEM S \<noteq> 0"
  shows "if e = 0
    then input_polled (b_data s' b) \<noteq> NULL \<and> devices_held s' = devices_held s + {#input_polled (b_data s' b)#}
      \<and> b_ipoll s' (input_polled (b_data s' b)) = \<lparr>ip_private = b, ip_open = Poll_open, ip_close = Poll_close,
          ip_poll = Poll, ip_interval = POLL_INTERVAL S, ip_interval_max = POLL_MAX S, ip_interval_min = POLL_MIN S,
          ip_input = input (b_data s' b)\<rparr>
      \<and> bma150_poll S (input_polled (b_data s' b)) s' = bma150_report_xyz S b s'
    else devices_held s' = devices_held s \<and> b_data s' = b_data s"
proof -
  obtain p i k where alloc: "sys_alloc_polled S (b_kern s) = ((p, i), k)" by (metis prod.collapse)
  show ?thesis
  proof (cases "p = NULL")
    case True
    then show ?thesis using assms alloc
      by (auto simp: bma150_register_polled_device_def devices_held_def after_calls_append)
  next
    case False
    then show ?thesis using assms alloc
      by (auto simp: bma150_register_polled_device_def devices_held_def after_calls_append Let_def bma150_poll_def
          split: prod.splits if_splits)
  qed
qed


section \<open>Witnesses\<close>

text \<open>A system whose sensor always answers with the given bytes and whose registrations answer as
  told.\<close>

definition sample_system :: "u8 list \<Rightarrow> int \<Rightarrow> unit bma_system" where
  "sample_system bytes err = \<lparr>sys_i2c_read = (\<lambda>c r n k. ((int (length bytes), bytes), k)),
     sys_alloc_device = (\<lambda>k. (0x100, k)), sys_alloc_polled = (\<lambda>k. ((0x200, 0x300), k)),
     sys_register_device = (\<lambda>p k. (err, k)), sys_register_polled = (\<lambda>p k. (err, k)),
     sys_input_effect = (\<lambda>c k. k), sign_extend32 = (\<lambda>v i. signed_take_bit i v), client_dev = (\<lambda>c. c + 0x20),
     ACC_X_LSB_REG = 2, ABSMIN_ACC_VAL = -511, ABSMAX_ACC_VAL = 511, POLL_INTERVAL = 50, POLL_MIN = 1,
     POLL_MAX = 200, ENOMEM = 12\<rparr>"

definition sample_state :: "unit bma_state" where
  "sample_state = \<lparr>b_kern = (), b_calls = [], b_data = (\<lambda>_. \<lparr>client = 0x50, input_polled = 0, input = 0x60, mode = 0\<rparr>),
     b_idev = (\<lambda>_. \<lparr>id_name = [], id_phys = [], id_bustype = 0, id_parent = 0, id_evbit0 = 0, id_open = No_fn,
       id_close = No_fn\<rparr>),
     b_ipoll = (\<lambda>_. \<lparr>ip_private = 0, ip_open = No_fn, ip_close = No_fn, ip_poll = No_fn, ip_interval = 0,
       ip_interval_max = 0, ip_interval_min = 0, ip_input = 0\<rparr>)\<rparr>"

lemma sample_system_documented: "documented_sign_extend (sample_system bytes err)"
  by (simp add: documented_sign_extend_def sample_system_def)

theorem bma150_report_roundtrip_witness:
  "b_calls (snd (bma150_irq_thread (sample_system [0xC0, 0x7F, 0x3F, 0x80, 0x40, 0xFF] 0) 5 0 sample_state)) =
     [Report_abs 0x60 ABS_X 511, Report_abs 0x60 ABS_Y (-512), Report_abs 0x60 ABS_Z (-3), Sync 0x60]"
proof -
  let ?S = "sample_system [0xC0, 0x7F, 0x3F, 0x80, 0x40, 0xFF] 0"
  have "fst (sys_i2c_read ?S (client (b_data sample_state 0)) (ACC_X_LSB_REG ?S) 6 (b_kern sample_state)) =
      (6, concat (map (\<lambda>(st, v). [fst (encode_axis st v), snd (encode_axis st v)]) [(0, 511), (0x3F, -512), (0, -3)]))"
    by (simp add: sample_system_def encode_axis_def drop_bit_eq_div take_bit_eq_mod)
  from bma150_report_roundtrip [OF sample_system_documented _ _ _ _ _ _ this] show ?thesis
    by (simp add: sample_state_def)
qed

theorem bma150_reports_in_range_witness:
  "length (b_calls (bma150_report_xyz (sample_system [1, 2, 3, 4, 5, 6] 0) 0 sample_state)) = 4
   \<and> b_calls (bma150_report_xyz (sample_system [1, 2, 3] 0) 0 sample_state) = []"
  using bma150_reports_in_range [OF sample_system_documented, of "[1, 2, 3, 4, 5, 6]" 0 0 sample_state]
    bma150_reports_in_range [OF sample_system_documented, of "[1, 2, 3]" 0 0 sample_state]
  by (auto simp: sample_system_def sample_state_def)

theorem register_input_device_outcomes_witness:
  "devices_held (snd (bma150_register_input_device (sample_system [] 0) 0 sample_state)) = {#0x100#}
   \<and> devices_held (snd (bma150_register_input_device (sample_system [] (-16)) 0 sample_state)) = {#}"
proof -
  have no: "devices_held sample_state = {#}" by (simp add: devices_held_def sample_state_def)
  have e: "ENOMEM (sample_system [] err) \<noteq> 0" for err by (simp add: sample_system_def)
  have r: "fst (bma150_register_input_device (sample_system [] err) 0 sample_state) = err"
    "input (b_data (snd (bma150_register_input_device (sample_system [] 0) 0 sample_state)) 0) = 0x100" for err
    by (simp_all add: bma150_register_input_device_def sample_system_def Let_def)
  show ?thesis
    using register_input_device_outcomes [OF surjective_pairing e, of 0 0 sample_state]
      register_input_device_outcomes [OF surjective_pairing e, of "-16" 0 sample_state]
    by (simp add: r no)
qed

theorem register_polled_device_outcomes_witness:
  "devices_held (snd (bma150_register_polled_device (sample_system [] 0) 0 sample_state)) = {#0x200#}
   \<and> devices_held (snd (bma150_register_polled_device (sample_system [] (-16)) 0 sample_state)) = {#}"
proof -
  have no: "devices_held sample_state = {#}" by (simp add: devices_held_def sample_state_def)
  have e: "ENOMEM (sample_system [] err) \<noteq> 0" for err by (simp add: sample_system_def)
  have r: "fst (bma150_register_polled_device (sample_system [] err) 0 sample_state) = err"
    "input_polled (b_data (snd (bma150_register_polled_device (sample_system [] 0) 0 sample_state)) 0) = 0x200" for err
    by (simp_all add: bma150_register_polled_device_def sample_system_def Let_def)
  show ?thesis
    using register_polled_device_outcomes [OF surjective_pairing e, of 0 0 sample_state]
      register_polled_device_outcomes [OF surjective_pairing e, of "-16" 0 sample_state]
    by (simp add: r no)
qed

end
