(* ===== verification/Sensor_Sessions.thy ===== *)
theory Sensor_Sessions
  imports Bma150 Step_Systems
begin

text \<open>
  The accelerometer driver of \<open>bma150.c\<close> from its registration on: the input device is registered, driven by
  interrupts or by polling, and each interrupt or poll takes a sample. Over any number of them the samples of the
  sensor arrive at the input device that was registered, each once and in order, and a read that fails on the bus
  only loses its own sample.
\<close>

section \<open>The samples of the sensor\<close>

text \<open>What the sensor answers to one block read: three ten-bit values, each with six further bits below it, or
  a result other than six.\<close>

datatype frame =
    Sample "u8 \<times> int" "u8 \<times> int" "u8 \<times> int"
  | Bad_read int "u8 list"

fun frame_ok :: "frame \<Rightarrow> bool" where
  "frame_ok (Sample (p, x) (q, y) (r, z)) \<longleftrightarrow> {x, y, z} \<subseteq> {-512 .. 511}"
| "frame_ok (Bad_read ret buf) \<longleftrightarrow> ret \<noteq> 6"

fun frame_result :: "frame \<Rightarrow> int \<times> u8 list" where
  "frame_result (Sample a b c) = (6, sample_bytes [a, b, c])"
| "frame_result (Bad_read ret buf) = (ret, buf)"

text \<open>The bus: \<open>frames k\<close> are the answers that are still to come from the client \<open>c\<close>. A block read of the
  acceleration registers takes the first; the calls of the input subsystem take none.\<close>

definition sensor_bus :: "'k bma_system \<Rightarrow> addr \<Rightarrow> ('k \<Rightarrow> frame list) \<Rightarrow> bool" where
  "sensor_bus S c frames \<longleftrightarrow>
     (\<forall>k. frames k \<noteq> [] \<longrightarrow> fst (sys_i2c_read S c (ACC_X_LSB_REG S) 6 k) = frame_result (hd (frames k))
        \<and> frames (snd (sys_i2c_read S c (ACC_X_LSB_REG S) 6 k)) = tl (frames k))
   \<and> (\<forall>cl k. frames (sys_input_effect S cl k) = frames k)"

fun frame_reports :: "addr \<Rightarrow> frame \<Rightarrow> input_call list" where
  "frame_reports idev (Sample (p, x) (q, y) (r, z)) =
     [Report_abs idev ABS_X x, Report_abs idev ABS_Y y, Report_abs idev ABS_Z z, Sync idev]"
| "frame_reports idev (Bad_read ret buf) = []"

section \<open>Interrupts and polls\<close>

text \<open>The device is registered in one of two ways. A registration is a call of the input subsystem; the device that it
  made known is the registered input device itself, or the one that a registered polled device points to.\<close>

datatype registration = By_interrupt | By_polling

fun register_device :: "'k bma_system \<Rightarrow> addr \<Rightarrow> registration \<Rightarrow> 'k bma_state \<Rightarrow> int \<times> 'k bma_state" where
  "register_device S b By_interrupt s = bma150_register_input_device S b s"
| "register_device S b By_polling s = bma150_register_polled_device S b s"

fun registered_input :: "'k bma_state \<Rightarrow> input_call \<Rightarrow> addr option" where
  "registered_input s (Register_device d e) = (if e = 0 then Some d else None)"
| "registered_input s (Register_polled p e) = (if e = 0 then Some (ip_input (b_ipoll s p)) else None)"
| "registered_input s _ = None"

text \<open>After it, samples are triggered by interrupts, for which the driver's data is the argument of the handler, or
  by the input subsystem, which calls the poll function of the polled device that was registered.\<close>

datatype trigger = Interrupt int | Poll_of addr

fun take_sample :: "'k bma_system \<Rightarrow> addr \<Rightarrow> trigger \<Rightarrow> 'k bma_state \<Rightarrow> 'k bma_state" where
  "take_sample S b (Interrupt irq) s = snd (bma150_irq_thread S irq b s)"
| "take_sample S b (Poll_of p) s = (if ip_poll (b_ipoll s p) = Poll then bma150_poll S p s else s)"

fun may_trigger :: "input_call \<Rightarrow> trigger \<Rightarrow> bool" where
  "may_trigger call (Interrupt irq) \<longleftrightarrow> (\<exists>d. call = Register_device d 0)"
| "may_trigger call (Poll_of p) \<longleftrightarrow> call = Register_polled p 0"

text \<open>What a registration leaves: the driver reports to the registered device, and a polled device is polled by this
  driver and belongs to it.\<close>

definition registered :: "input_call \<Rightarrow> addr \<Rightarrow> addr \<Rightarrow> 'k bma_state \<Rightarrow> bool" where
  "registered call b c s \<longleftrightarrow> client (b_data s b) = c \<and> registered_input s call = Some (input (b_data s b))
     \<and> (\<forall>p. call = Register_polled p 0 \<longrightarrow> ip_poll (b_ipoll s p) = Poll \<and> ip_private (b_ipoll s p) = b)"

lemma register_device_registered:
  assumes "register_device S b how s = (0, s')" and "ENOMEM S \<noteq> 0"
  shows "registered (last (b_calls s')) b (client (b_data s b)) s'"
  using assms
  by (cases how) (auto simp: registered_def bma150_register_input_device_def bma150_register_polled_device_def Let_def
      split: prod.splits if_splits)

lemma kern_input_calls:
  "sensor_bus S c frames \<Longrightarrow> frames (b_kern (fold (input_call S) cs s)) = frames (b_kern s)"
  by (induction cs arbitrary: s) (simp_all add: sensor_bus_def)

lemma report_frame:
  assumes "documented_sign_extend S" and "sensor_bus S (client (b_data s b)) frames"
    and "frames (b_kern s) = fr # frs" and "frame_ok fr"
  shows "b_calls (bma150_report_xyz S b s) = b_calls s @ frame_reports (input (b_data s b)) fr
    \<and> frames (b_kern (bma150_report_xyz S b s)) = frs
    \<and> b_data (bma150_report_xyz S b s) = b_data s \<and> b_ipoll (bma150_report_xyz S b s) = b_ipoll s"
proof -
  let ?rd = "sys_i2c_read S (client (b_data s b)) (ACC_X_LSB_REG S) 6 (b_kern s)"
  have rd: "fst ?rd = frame_result fr" "frames (snd ?rd) = frs"
    using assms(2,3) unfolding sensor_bus_def by auto
  show ?thesis
  proof (cases fr)
    case (Sample a1 a2 a3)
    obtain p x q y r z where axes: "a1 = (p, x)" "a2 = (q, y)" "a3 = (r, z)" by (metis surj_pair)
    have "bma150_report_xyz S b s = fold (input_call S) (frame_reports (input (b_data s b)) fr) (s\<lparr>b_kern := snd ?rd\<rparr>)"
      using report_sample [OF assms(1), of x y z s b p q r] rd(1) assms(4) by (simp add: Sample axes)
    then show ?thesis using kern_input_calls [OF assms(2)] rd(2) by simp
  next
    case (Bad_read ret buf)
    then show ?thesis using rd assms(4)
      by (simp add: bma150_report_xyz_def BMA150_XYZ_DATA_SIZE_def case_prod_unfold Let_def)
  qed
qed

text \<open>Every trigger is a report of the driver.\<close>

lemma take_sample_reports:
  "registered call b c s \<Longrightarrow> may_trigger call t \<Longrightarrow> take_sample S b t s = bma150_report_xyz S b s"
  by (cases t) (auto simp: bma150_irq_thread_def bma150_poll_def registered_def)

lemma registered_unchanged:
  assumes "registered call b c s" and "b_data s' = b_data s" and "b_ipoll s' = b_ipoll s"
  shows "registered call b c s'"
proof -
  have "registered_input s' call = registered_input s call" by (cases call) (simp_all add: assms(3))
  then show ?thesis using assms by (simp add: registered_def)
qed

lemma samples_reported:
  assumes "documented_sign_extend S" and "sensor_bus S c frames"
  shows "registered call b c s \<Longrightarrow> \<forall>t \<in> set ts. may_trigger call t \<Longrightarrow> frames (b_kern s) = frs @ rest \<Longrightarrow>
    length frs = length ts \<Longrightarrow> \<forall>fr \<in> set frs. frame_ok fr \<Longrightarrow>
    b_calls (fold (take_sample S b) ts s) = b_calls s @ concat (map (frame_reports (input (b_data s b))) frs)
    \<and> frames (b_kern (fold (take_sample S b) ts s)) = rest"
proof (induction ts arbitrary: s frs)
  case (Cons t ts)
  then obtain fr frs' where frs: "frs = fr # frs'" by (cases frs) auto
  let ?s = "bma150_report_xyz S b s"
  have c: "client (b_data s b) = c" and step: "take_sample S b t s = ?s"
    using Cons.prems(1,2) take_sample_reports [of call b c s t S] by (simp_all add: registered_def)
  have first: "b_calls ?s = b_calls s @ frame_reports (input (b_data s b)) fr" "frames (b_kern ?s) = frs' @ rest"
    "b_data ?s = b_data s" "b_ipoll ?s = b_ipoll s"
    using report_frame [OF assms(1), of s b frames fr "frs' @ rest"] assms(2) Cons.prems(3,5) c frs by simp_all
  from Cons.IH [OF registered_unchanged [OF Cons.prems(1) first(3,4)] _ first(2)] Cons.prems frs
  show ?case by (simp add: step first)
qed simp

section \<open>Properties\<close>

text \<open>C18: the driver delivers the samples of its sensor. Once its input device is registered, by interrupt or by
  polling, any number of interrupts, or of polls of the registered polled device, reports to the input device that
  was registered the values of as many samples, each as three axes and a sync, in the order of the sensor; a
  read that fails loses its own sample and no other.\<close>

theorem registered_sensor_delivers_samples:
  assumes "register_device S b how s = (0, s0)" and "ENOMEM S \<noteq> 0"
    and "documented_sign_extend S" and "sensor_bus S (client (b_data s b)) frames"
    and "\<forall>t \<in> set ts. may_trigger (last (b_calls s0)) t" and "frames (b_kern s0) = frs @ rest"
    and "length frs = length ts" and "\<forall>fr \<in> set frs. frame_ok fr"
  shows "\<exists>idev. registered_input s0 (last (b_calls s0)) = Some idev
    \<and> b_calls (fold (take_sample S b) ts s0) = b_calls s0 @ concat (map (frame_reports idev) frs)
    \<and> frames (b_kern (fold (take_sample S b) ts s0)) = rest"
proof -
  note reg = register_device_registered [OF assms(1,2)]
  then have "registered_input s0 (last (b_calls s0)) = Some (input (b_data s0 b))" by (simp add: registered_def)
  with samples_reported [OF assms(3,4) reg assms(5-8)] show ?thesis by blast
qed

section \<open>A session\<close>

text \<open>A sensor that answers with the frames in its state.\<close>

definition framed_system :: "frame list bma_system" where
  "framed_system = \<lparr>sys_i2c_read = (\<lambda>c r n k. case k of [] \<Rightarrow> ((-5, []), []) | fr # frs \<Rightarrow> (frame_result fr, frs)),
     sys_alloc_device = (\<lambda>k. (0x100, k)), sys_alloc_polled = (\<lambda>k. ((0x200, 0x300), k)),
     sys_register_device = (\<lambda>p k. (0, k)), sys_register_polled = (\<lambda>p k. (0, k)),
     sys_input_effect = (\<lambda>c k. k), sign_extend32 = (\<lambda>v i. signed_take_bit i v), client_dev = (\<lambda>c. c + 0x20),
     ACC_X_LSB_REG = 2, ABSMIN_ACC_VAL = -511, ABSMAX_ACC_VAL = 511, POLL_INTERVAL = 50, POLL_MIN = 1,
     POLL_MAX = 200, ENOMEM = 12\<rparr>"

definition sample_frames :: "frame list" where
  "sample_frames = [Sample (0, 511) (0x3F, -512) (0, -3), Bad_read (-5) [], Sample (1, 0) (2, 1) (3, -1)]"

definition framed_state :: "frame list bma_state" where
  "framed_state = \<lparr>b_kern = sample_frames, b_calls = [],
     b_data = (\<lambda>_. \<lparr>client = 0x50, input_polled = 0, input = 0, mode = 0\<rparr>),
     b_idev = (\<lambda>_. \<lparr>id_name = [], id_phys = [], id_bustype = 0, id_parent = 0, id_evbit0 = 0, id_open = No_fn,
       id_close = No_fn\<rparr>),
     b_ipoll = (\<lambda>_. \<lparr>ip_private = 0, ip_open = No_fn, ip_close = No_fn, ip_poll = No_fn, ip_interval = 0,
       ip_interval_max = 0, ip_interval_min = 0, ip_input = 0\<rparr>)\<rparr>"

lemma framed_system_bus: "sensor_bus framed_system c (\<lambda>k. k)"
  by (auto simp: sensor_bus_def framed_system_def split: list.splits)

text \<open>Three samples by polling the device 0x200, which points to the input device 0x300, and three by interrupt, where
  the input device is 0x100.\<close>

definition sample_reports :: "addr \<Rightarrow> input_call list" where
  "sample_reports d = [Report_abs d ABS_X 511, Report_abs d ABS_Y (-512), Report_abs d ABS_Z (-3), Sync d,
     Report_abs d ABS_X 0, Report_abs d ABS_Y 1, Report_abs d ABS_Z (-1), Sync d]"

theorem registered_sensor_delivers_samples_witness:
  "(\<exists>s0. bma150_register_polled_device framed_system 0 framed_state = (0, s0)
    \<and> b_calls (fold (take_sample framed_system 0) (replicate 3 (Poll_of 0x200)) s0) = b_calls s0 @ sample_reports 0x300)
   \<and> (\<exists>s0. bma150_register_input_device framed_system 0 framed_state = (0, s0)
    \<and> b_calls (fold (take_sample framed_system 0) [Interrupt 7, Interrupt 7, Interrupt 7] s0) = b_calls s0 @ sample_reports 0x100)"
proof
  have doc: "documented_sign_extend framed_system" "ENOMEM framed_system \<noteq> 0"
    by (simp_all add: documented_sign_extend_def framed_system_def)
  note samples = registered_sensor_delivers_samples [OF _ doc(2,1) framed_system_bus, where s = framed_state and b = 0
      and frs = sample_frames and rest = "[]"]
  have frames: "length sample_frames = 3" "\<forall>fr \<in> set sample_frames. frame_ok fr"
    "concat (map (frame_reports d) sample_frames) = sample_reports d" for d
    by (simp_all add: sample_frames_def sample_reports_def)
  obtain s0 where reg: "bma150_register_polled_device framed_system 0 framed_state = (0, s0)"
    and s0: "b_kern s0 = sample_frames" "last (b_calls s0) = Register_polled 0x200 0" "ip_input (b_ipoll s0 0x200) = 0x300"
    by (auto simp: bma150_register_polled_device_def bma150_init_input_device_def framed_system_def framed_state_def
        input_call_def Let_def)
  have "\<forall>t \<in> set (replicate 3 (Poll_of 0x200)). may_trigger (last (b_calls s0)) t" by (simp add: s0(2))
  from samples [of By_polling s0, OF _ this] reg s0 frames
  show "\<exists>s0. bma150_register_polled_device framed_system 0 framed_state = (0, s0)
    \<and> b_calls (fold (take_sample framed_system 0) (replicate 3 (Poll_of 0x200)) s0) = b_calls s0 @ sample_reports 0x300"
    by simp
  obtain s1 where reg: "bma150_register_input_device framed_system 0 framed_state = (0, s1)"
    and s1: "b_kern s1 = sample_frames" "last (b_calls s1) = Register_device 0x100 0"
    by (auto simp: bma150_register_input_device_def bma150_init_input_device_def framed_system_def framed_state_def
        input_call_def Let_def)
  have "\<forall>t \<in> set [Interrupt 7, Interrupt 7, Interrupt 7]. may_trigger (last (b_calls s1)) t" by (simp add: s1(2))
  from samples [of By_interrupt s1, OF _ this] reg s1 frames
  show "\<exists>s0. bma150_register_input_device framed_system 0 framed_state = (0, s0)
    \<and> b_calls (fold (take_sample framed_system 0) [Interrupt 7, Interrupt 7, Interrupt 7] s0) = b_calls s0 @ sample_reports 0x100"
    by simp
qed

end
