(* ===== verification/Wait_Queue.thy ===== *)
theory Wait_Queue
  imports Kernel_Modules Step_Systems
begin

text \<open>
  The wait queue module of \<open>waitqueue.c\<close>: its init function sleeps on a wait queue until the work
  it has scheduled sets the condition. The two run beside each other, so the module is a step
  relation on the positions of both, the variable \<open>condition\<close>, the wait queue and the kernel log.
  \<open>wait_event_interruptible\<close> is its documentation: the condition is checked on entry and each
  time the queue is woken, and the call returns when the condition holds or a signal arrives.
\<close>

section \<open>State and steps\<close>

datatype init_pc = I_start | I_schedule | I_announce | I_check | I_asleep | I_print | I_returned int | I_unloaded

datatype work_pc = W_idle | W_pending | W_sleep | W_announce | W_set | W_wake | W_done

record wq_state =
  i_pc :: init_pc
  w_pc :: work_pc
  condition :: int
  wq_log :: "log_line list"
  slept :: nat

definition wq_start :: wq_state where
  "wq_start = \<lparr>i_pc = I_start, w_pc = W_idle, condition = 0, wq_log = [], slept = 0\<rparr>"

definition wq_print :: "string \<Rightarrow> arg list \<Rightarrow> wq_state \<Rightarrow> wq_state" where
  "wq_print msg args s = s\<lparr>wq_log := wq_log s @ [(Info, msg, args)]\<rparr>"

text \<open>The steps of \<open>waitqueue_init\<close> and, after it returned, of \<open>waitqueue_exit\<close>. The check in the
  wait goes to sleep or returns 0; the value returned by the wait is dropped.\<close>

inductive init_step :: "wq_state \<Rightarrow> wq_state \<Rightarrow> bool" where
  start: "i_pc s = I_start \<Longrightarrow> init_step s ((wq_print ''Wait queue init'' [] s)\<lparr>i_pc := I_schedule\<rparr>)"
| schedule: "i_pc s = I_schedule \<Longrightarrow> init_step s (s\<lparr>i_pc := I_announce, w_pc := W_pending\<rparr>)"
| announce: "i_pc s = I_announce \<Longrightarrow>
    init_step s ((wq_print ''Going to sleep %s'' [S ''waitqueue_init''] s)\<lparr>i_pc := I_check\<rparr>)"
| check_true: "i_pc s = I_check \<Longrightarrow> condition s \<noteq> 0 \<Longrightarrow> init_step s (s\<lparr>i_pc := I_print\<rparr>)"
| check_false: "i_pc s = I_check \<Longrightarrow> condition s = 0 \<Longrightarrow> init_step s (s\<lparr>i_pc := I_asleep\<rparr>)"
| returns: "i_pc s = I_print \<Longrightarrow> init_step s ((wq_print ''woken up by the work job'' [] s)\<lparr>i_pc := I_returned 0\<rparr>)"
| unload: "i_pc s = I_returned 0 \<Longrightarrow> init_step s ((wq_print ''waitq ueue cleanup'' [] s)\<lparr>i_pc := I_unloaded\<rparr>)"

text \<open>The steps of \<open>work_handler\<close>, from the moment the work is pending. The wake-up makes a sleeping
  init check again.\<close>

inductive work_step :: "wq_state \<Rightarrow> wq_state \<Rightarrow> bool" where
  run: "w_pc s = W_pending \<Longrightarrow>
    work_step s ((wq_print ''Waitqueue module handler %s'' [S ''work_handler''] s)\<lparr>w_pc := W_sleep\<rparr>)"
| msleep: "w_pc s = W_sleep \<Longrightarrow> work_step s (s\<lparr>slept := slept s + 3000, w_pc := W_announce\<rparr>)"
| announce: "w_pc s = W_announce \<Longrightarrow> work_step s ((wq_print ''Wake up the sleeping process'' [] s)\<lparr>w_pc := W_set\<rparr>)"
| set_condition: "w_pc s = W_set \<Longrightarrow> work_step s (s\<lparr>condition := 1, w_pc := W_wake\<rparr>)"
| wake_up: "w_pc s = W_wake \<Longrightarrow>
    work_step s (s\<lparr>w_pc := W_done, i_pc := if i_pc s = I_asleep then I_check else i_pc s\<rparr>)"

text \<open>A signal ends the wait; it is the only thing outside the module that can.\<close>

inductive signal_step :: "wq_state \<Rightarrow> wq_state \<Rightarrow> bool" where
  "i_pc s = I_asleep \<Longrightarrow> signal_step s (s\<lparr>i_pc := I_print\<rparr>)"

definition wq_step :: "wq_state \<Rightarrow> wq_state \<Rightarrow> bool" where
  "wq_step s s' \<longleftrightarrow> init_step s s' \<or> work_step s s'"

definition wq_step_signals :: "wq_state \<Rightarrow> wq_state \<Rightarrow> bool" where
  "wq_step_signals s s' \<longleftrightarrow> wq_step s s' \<or> signal_step s s'"

inductive_cases init_stepE: "init_step s s'"
inductive_cases work_stepE: "work_step s s'"
inductive_cases signal_stepE: "signal_step s s'"
inductive_simps init_step_iff: "init_step s s'"
inductive_simps work_step_iff: "work_step s s'"

section \<open>The order of the work's positions\<close>

text \<open>How many steps the work has left; the positions are ordered by it, so that a later position is
  a larger one.\<close>

fun work_rank :: "work_pc \<Rightarrow> nat" where
  "work_rank W_idle = 6" | "work_rank W_pending = 5" | "work_rank W_sleep = 4" | "work_rank W_announce = 3"
| "work_rank W_set = 2" | "work_rank W_wake = 1" | "work_rank W_done = 0"

lemma work_rank_inject: "work_rank v = work_rank w \<longleftrightarrow> v = w"
  by (cases v; cases w) auto

instantiation work_pc :: linorder
begin

definition less_eq_work_pc :: "work_pc \<Rightarrow> work_pc \<Rightarrow> bool" where
  "less_eq_work_pc v w \<longleftrightarrow> work_rank w \<le> work_rank v"

definition less_work_pc :: "work_pc \<Rightarrow> work_pc \<Rightarrow> bool" where
  "less_work_pc v w \<longleftrightarrow> work_rank w < work_rank v"

instance
  by standard (auto simp: less_eq_work_pc_def less_work_pc_def work_rank_inject)

end

section \<open>The invariant without signals\<close>

definition wq_line :: "string \<Rightarrow> wq_state \<Rightarrow> bool" where
  "wq_line msg s \<longleftrightarrow> (Info, msg, []) \<in> set (wq_log s)"

definition woke :: "work_pc \<Rightarrow> bool" where
  "woke w \<longleftrightarrow> W_wake \<le> w"

text \<open>The condition is set exactly when the work is past setting it; the init is past the wait
  only then, and asleep only before the wake-up.\<close>

definition wq_inv :: "wq_state \<Rightarrow> bool" where
  "wq_inv s \<longleftrightarrow>
     (w_pc s = W_idle \<longleftrightarrow> i_pc s = I_start \<or> i_pc s = I_schedule)
     \<and> condition s = (if woke (w_pc s) then 1 else 0)
     \<and> (i_pc s \<in> {I_print, I_returned 0, I_unloaded} \<longrightarrow> woke (w_pc s))
     \<and> (i_pc s = I_asleep \<longrightarrow> w_pc s \<noteq> W_done)
     \<and> (\<forall>c. i_pc s = I_returned c \<longrightarrow> c = 0)
     \<and> (slept s = (if W_announce \<le> w_pc s then 3000 else 0))
     \<and> (wq_line ''Wake up the sleeping process'' s \<longleftrightarrow> W_set \<le> w_pc s)
     \<and> (wq_line ''woken up by the work job'' s \<longleftrightarrow> i_pc s \<in> {I_returned 0, I_unloaded})"

fun init_rank :: "init_pc \<Rightarrow> nat" where
  "init_rank I_start = 7" | "init_rank I_schedule = 6" | "init_rank I_announce = 5" | "init_rank I_check = 4"
| "init_rank I_asleep = 3" | "init_rank I_print = 2" | "init_rank (I_returned c) = 1" | "init_rank I_unloaded = 0"

text \<open>A wake-up can send the init back one position, so a step of the work weighs two.\<close>

definition wq_rank :: "wq_state \<Rightarrow> nat" where
  "wq_rank s = init_rank (i_pc s) + 2 * work_rank (w_pc s)"

definition wq_final :: "wq_state \<Rightarrow> bool" where
  "wq_final s \<longleftrightarrow> i_pc s = I_unloaded \<and> w_pc s = W_done"

lemma wq_inv_start: "wq_inv wq_start"
  by (simp add: wq_inv_def wq_start_def woke_def wq_line_def less_eq_work_pc_def)

lemma init_step_inv: "init_step s s' \<Longrightarrow> wq_inv s \<Longrightarrow> wq_inv s'"
  by (erule init_stepE) (auto simp: wq_inv_def wq_print_def woke_def wq_line_def less_eq_work_pc_def split: if_splits)

lemma work_step_inv: "work_step s s' \<Longrightarrow> wq_inv s \<Longrightarrow> wq_inv s'"
  by (erule work_stepE) (auto simp: wq_inv_def wq_print_def woke_def wq_line_def less_eq_work_pc_def)

lemma wq_step_rank: "wq_step s s' \<Longrightarrow> wq_inv s \<Longrightarrow> wq_rank s' < wq_rank s"
  unfolding wq_step_def
  by (elim disjE init_stepE work_stepE) (auto simp: wq_inv_def wq_rank_def wq_print_def)

lemma wq_progress: "wq_inv s \<Longrightarrow> \<not> wq_final s \<Longrightarrow> \<exists>s'. wq_step s s'"
  by (cases "i_pc s"; cases "w_pc s")
    (auto simp: wq_step_def wq_final_def wq_inv_def init_step_iff work_step_iff)

interpretation wq: finishing_system wq_step wq_inv wq_rank wq_final
proof unfold_locales
  fix s s' assume "wq_inv s" "wq_step s s'"
  then show "wq_inv s'" by (auto simp: wq_step_def intro: init_step_inv work_step_inv)
qed (simp_all add: wq_step_rank wq_progress)


section \<open>The same steps as a scheduler\<close>

text \<open>Each thread has at most one next step; a schedule names the thread that moves.\<close>

datatype actor = The_init | The_work | A_signal

fun wq_next :: "actor \<Rightarrow> wq_state \<Rightarrow> wq_state option" where
  "wq_next The_init s = (case i_pc s of
     I_start \<Rightarrow> Some ((wq_print ''Wait queue init'' [] s)\<lparr>i_pc := I_schedule\<rparr>)
   | I_schedule \<Rightarrow> Some (s\<lparr>i_pc := I_announce, w_pc := W_pending\<rparr>)
   | I_announce \<Rightarrow> Some ((wq_print ''Going to sleep %s'' [S ''waitqueue_init''] s)\<lparr>i_pc := I_check\<rparr>)
   | I_check \<Rightarrow> Some (s\<lparr>i_pc := if condition s \<noteq> 0 then I_print else I_asleep\<rparr>)
   | I_print \<Rightarrow> Some ((wq_print ''woken up by the work job'' [] s)\<lparr>i_pc := I_returned 0\<rparr>)
   | I_returned c \<Rightarrow> (if c = 0 then Some ((wq_print ''waitq ueue cleanup'' [] s)\<lparr>i_pc := I_unloaded\<rparr>) else None)
   | _ \<Rightarrow> None)"
| "wq_next The_work s = (case w_pc s of
     W_pending \<Rightarrow> Some ((wq_print ''Waitqueue module handler %s'' [S ''work_handler''] s)\<lparr>w_pc := W_sleep\<rparr>)
   | W_sleep \<Rightarrow> Some (s\<lparr>slept := slept s + 3000, w_pc := W_announce\<rparr>)
   | W_announce \<Rightarrow> Some ((wq_print ''Wake up the sleeping process'' [] s)\<lparr>w_pc := W_set\<rparr>)
   | W_set \<Rightarrow> Some (s\<lparr>condition := 1, w_pc := W_wake\<rparr>)
   | W_wake \<Rightarrow> Some (s\<lparr>w_pc := W_done, i_pc := if i_pc s = I_asleep then I_check else i_pc s\<rparr>)
   | _ \<Rightarrow> None)"
| "wq_next A_signal s = (if i_pc s = I_asleep then Some (s\<lparr>i_pc := I_print\<rparr>) else None)"

abbreviation wq_run :: "actor list \<Rightarrow> wq_state \<Rightarrow> wq_state option" where
  "wq_run \<equiv> run_all wq_next"

lemma wq_next_init: "wq_next The_init s = Some s' \<longleftrightarrow> init_step s s'"
  by (cases "i_pc s") (auto simp: init_step_iff)

lemma wq_next_work: "wq_next The_work s = Some s' \<longleftrightarrow> work_step s s'"
  by (cases "w_pc s") (auto simp: work_step_iff)

lemma wq_next_step: "wq_next a s = Some s' \<Longrightarrow> wq_step_signals s s' \<and> (a \<noteq> A_signal \<longrightarrow> wq_step s s')"
  by (cases a) (auto simp: wq_next_init wq_next_work wq_step_def wq_step_signals_def
      intro: signal_step.intros split: if_splits simp del: wq_next.simps(1,2))

lemma wq_run_relpow: "wq_run as s = Some s' \<Longrightarrow> A_signal \<notin> set as \<Longrightarrow> (wq_step ^^ length as) s s'"
proof (induction as arbitrary: s)
  case (Cons a as)
  then obtain t where t: "wq_next a s = Some t" "wq_run as t = Some s'" by (auto simp: bind_Some_iff)
  then show ?case using Cons wq_next_step [OF t(1)] by (auto intro: relpowp_Suc_I2 simp del: relpowp.simps)
qed simp

lemma wq_run_steps: "wq_run as s = Some s' \<Longrightarrow> A_signal \<notin> set as \<Longrightarrow> wq_step\<^sup>*\<^sup>* s s'"
  using wq_run_relpow relpowp_imp_rtranclp by metis

lemma wq_run_steps_signals: "wq_run as s = Some s' \<Longrightarrow> wq_step_signals\<^sup>*\<^sup>* s s'"
proof (induction as arbitrary: s)
  case (Cons a as)
  then obtain t where t: "wq_next a s = Some t" "wq_run as t = Some s'" by (auto simp: bind_Some_iff)
  then show ?case using Cons wq_next_step [OF t(1)] by (auto intro: converse_rtranclp_into_rtranclp)
qed simp

text \<open>The schedule in which the init is asleep when the work wakes it.\<close>

definition orderly :: "actor list" where
  "orderly = replicate 4 The_init @ replicate 5 The_work @ replicate 3 The_init"

lemma orderly_run: "\<exists>s. wq_run orderly wq_start = Some s \<and> i_pc s = I_unloaded
    \<and> (Info, ''woken up by the work job'', []) \<in> set (wq_log s)"
  by (simp add: orderly_def wq_start_def wq_print_def numeral_eq_Suc)

lemma orderly_steps: "wq_run orderly wq_start = Some s \<Longrightarrow> (wq_step ^^ 12) wq_start s"
  using wq_run_relpow [of orderly wq_start s] by (simp add: orderly_def del: relpowp.simps)

section \<open>Properties\<close>

text \<open>C19: without signals every interleaving of the init and the work ends, after at most 19 steps,
  and it can only end with the work done, the condition set and the module loaded and unloaded
  again: no wake-up is lost.\<close>

theorem wait_queue_no_lost_wakeup:
  assumes "(wq_step ^^ n) wq_start s"
  shows "n \<le> 19 \<and> ((\<exists>t. wq_step s t) \<or> (i_pc s = I_unloaded \<and> w_pc s = W_done \<and> condition s = 1))"
proof -
  have "wq_inv s" using assms wq.inv_reachable [OF relpowp_imp_rtranclp wq_inv_start] by blast
  then show ?thesis
    using wq.run_bounded [OF assms wq_inv_start] wq_progress [of s]
    by (auto simp: wq_rank_def wq_start_def wq_final_def wq_inv_def woke_def)
qed

text \<open>Without signals the init reports that it was woken only after the work has slept its three
  seconds, announced the wake-up and set the condition.\<close>

theorem woken_up_means_condition_set:
  assumes "wq_step\<^sup>*\<^sup>* wq_start s" and "(Info, ''woken up by the work job'', []) \<in> set (wq_log s)"
  shows "condition s = 1 \<and> slept s = 3000 \<and> (Info, ''Wake up the sleeping process'', []) \<in> set (wq_log s)"
proof -
  have "wq_inv s" using wq.inv_reachable [OF assms(1) wq_inv_start] .
  then show ?thesis using assms(2) by (auto simp: wq_inv_def wq_line_def woke_def less_eq_work_pc_def split: if_splits)
qed

text \<open>C39: the result of the wait is not looked at: with a signal the module reports that the work job woke
  it and is unloaded while the condition is 0 and the handler still sleeps; and even without one
  it can be unloaded while the handler is yet to wake its queue.\<close>

theorem wait_queue_unload_races:
  "(\<exists>s. wq_step_signals\<^sup>*\<^sup>* wq_start s \<and> i_pc s = I_unloaded \<and> w_pc s = W_sleep \<and> condition s = 0
      \<and> (Info, ''woken up by the work job'', []) \<in> set (wq_log s))
   \<and> (\<exists>s. wq_step\<^sup>*\<^sup>* wq_start s \<and> i_pc s = I_unloaded \<and> w_pc s = W_wake)"
proof -
  have 1: "\<exists>s. wq_run [The_init, The_init, The_init, The_work, The_init, A_signal, The_init, The_init] wq_start = Some s
      \<and> i_pc s = I_unloaded \<and> w_pc s = W_sleep \<and> condition s = 0
      \<and> (Info, ''woken up by the work job'', []) \<in> set (wq_log s)"
    by (simp add: wq_start_def wq_print_def)
  have 2: "\<exists>s. wq_run [The_init, The_init, The_init, The_work, The_work, The_work, The_work, The_init, The_init,
      The_init] wq_start = Some s \<and> i_pc s = I_unloaded \<and> w_pc s = W_wake"
    by (simp add: wq_start_def wq_print_def)
  show ?thesis
  proof
    show "\<exists>s. wq_step_signals\<^sup>*\<^sup>* wq_start s \<and> i_pc s = I_unloaded \<and> w_pc s = W_sleep \<and> condition s = 0
        \<and> (Info, ''woken up by the work job'', []) \<in> set (wq_log s)"
      using 1 wq_run_steps_signals by blast
    show "\<exists>s. wq_step\<^sup>*\<^sup>* wq_start s \<and> i_pc s = I_unloaded \<and> w_pc s = W_wake"
    proof -
      from 2 obtain s where s: "wq_run [The_init, The_init, The_init, The_work, The_work, The_work, The_work,
          The_init, The_init, The_init] wq_start = Some s" and pos: "i_pc s = I_unloaded" "w_pc s = W_wake"
        by blast
      from wq_run_steps [OF s] pos show ?thesis by auto
    qed
  qed
qed

theorem wait_queue_no_lost_wakeup_witness:
  "\<exists>s. (wq_step ^^ 12) wq_start s \<and> ((\<exists>t. wq_step s t) \<or> (i_pc s = I_unloaded \<and> w_pc s = W_done \<and> condition s = 1))"
  using orderly_run orderly_steps wait_queue_no_lost_wakeup by blast

theorem woken_up_means_condition_set_witness:
  "\<exists>s. wq_run orderly wq_start = Some s \<and> condition s = 1 \<and> slept s = 3000"
proof -
  obtain s where s: "wq_run orderly wq_start = Some s" "(Info, ''woken up by the work job'', []) \<in> set (wq_log s)"
    using orderly_run by blast
  have "wq_step\<^sup>*\<^sup>* wq_start s" using wq_run_steps [OF s(1)] by (simp add: orderly_def)
  from woken_up_means_condition_set [OF this s(2)] s(1) show ?thesis by blast
qed

end
