(* ===== verification/User_Invoke.thy ===== *)
theory User_Invoke
  imports Step_Systems "HOL-Library.Multiset"
begin

text \<open>
  The module of \<open>user-invoke.c\<close>, which shuts the machine down 200 ms after it is loaded. The
  delayed work, the clock and the module run beside each other, so the module is a step
  relation; it can be loaded again after it has been unloaded. The work is a static variable of the
  module, so that each load has a work of its own; the memory of a module that is gone is taken not to be used
  again. Each call to the user-mode helper is recorded with its arguments, the load it belongs to, and
  whether the module of that load was still there. The file passes a variable \<open>path\<close> that it does not
  declare (it declares \<open>pathd\<close>, a single \<open>char\<close>): its value is a parameter, as is \<open>msecs_to_jiffies\<close>.
\<close>

record shutdown_call =
  h_path :: string
  h_argv :: "string list"
  h_envp :: "string list"
  h_wait :: int

text \<open>The loads are numbered from 0; \<open>load_times\<close> holds the jiffy of each.\<close>

record delayed_work =
  w_load :: nat
  w_expires :: nat

record helper_run =
  r_load :: nat
  r_time :: nat
  r_there :: bool
  r_call :: shutdown_call

record ui_state =
  loaded :: bool
  load_times :: "nat list"
  jiffies :: nat
  pending :: "delayed_work list"
  helpers :: "helper_run list"

definition ui_start :: ui_state where
  "ui_start = \<lparr>loaded = False, load_times = [], jiffies = 0, pending = [], helpers = []\<rparr>"

text \<open>Whether the module of a load is still there.\<close>

definition there :: "ui_state \<Rightarrow> nat \<Rightarrow> bool" where
  "there s m \<longleftrightarrow> loaded s \<and> Suc m = length (load_times s)"

text \<open>The handler of the work of the load \<open>m\<close>. The arrays end with a null pointer, which is not one of their
  strings.\<close>

definition delayed_shutdown :: "string \<Rightarrow> nat \<Rightarrow> ui_state \<Rightarrow> ui_state" where
  "delayed_shutdown path m s = s\<lparr>helpers := helpers s @ [\<lparr>r_load = m, r_time = jiffies s, r_there = there s m,
     r_call = \<lparr>h_path = path, h_argv = [path, ''-h'', ''now''],
       h_envp = [''HOME=/'', ''PATH=/sbin:/bin:/usr/sbin:/usr/bin''], h_wait = 0\<rparr>\<rparr>]\<rparr>"

text \<open>The init schedules the work of its own load, the number of which is that of the loads before.\<close>

definition delayed_shutdown_init :: "(nat \<Rightarrow> nat) \<Rightarrow> ui_state \<Rightarrow> int \<times> ui_state" where
  "delayed_shutdown_init msecs_to_jiffies s =
     (0, s\<lparr>pending := pending s @ [\<lparr>w_load = length (load_times s), w_expires = jiffies s + msecs_to_jiffies 200\<rparr>]\<rparr>)"

definition delayed_shutdown_exit :: "ui_state \<Rightarrow> ui_state" where
  "delayed_shutdown_exit s = s"

text \<open>A work is run when its timer has expired, and not before; the clock may run past that.\<close>

inductive ui_step :: "(nat \<Rightarrow> nat) \<Rightarrow> string \<Rightarrow> ui_state \<Rightarrow> ui_state \<Rightarrow> bool"
  for msecs_to_jiffies path where
  load: "\<not> loaded s \<Longrightarrow> delayed_shutdown_init msecs_to_jiffies s = (0, s') \<Longrightarrow>
    ui_step msecs_to_jiffies path s (s'\<lparr>loaded := True, load_times := load_times s @ [jiffies s]\<rparr>)"
| tick: "ui_step msecs_to_jiffies path s (s\<lparr>jiffies := Suc (jiffies s)\<rparr>)"
| fire: "w \<in> set (pending s) \<Longrightarrow> w_expires w \<le> jiffies s \<Longrightarrow>
    ui_step msecs_to_jiffies path s (delayed_shutdown path (w_load w) (s\<lparr>pending := remove1 w (pending s)\<rparr>))"
| unload: "loaded s \<Longrightarrow>
    ui_step msecs_to_jiffies path s ((delayed_shutdown_exit s)\<lparr>loaded := False\<rparr>)"

inductive_cases ui_stepE: "ui_step mj path s s'"

section \<open>One call for each load\<close>

text \<open>The work of each load is pending or has been run, once, and not before its time.\<close>

definition one_each :: "ui_state \<Rightarrow> bool" where
  "one_each s \<longleftrightarrow> mset (map w_load (pending s) @ map r_load (helpers s)) = mset [0..<length (load_times s)]"

definition on_time :: "(nat \<Rightarrow> nat) \<Rightarrow> ui_state \<Rightarrow> bool" where
  "on_time mj s \<longleftrightarrow>
     (\<forall>w \<in> set (pending s). load_times s ! w_load w + mj 200 \<le> w_expires w)
   \<and> (\<forall>h \<in> set (helpers s). load_times s ! r_load h + mj 200 \<le> r_time h)"

lemma one_each_bounds:
  assumes "one_each s"
  shows "w \<in> set (pending s) \<Longrightarrow> w_load w < length (load_times s)"
    and "h \<in> set (helpers s) \<Longrightarrow> r_load h < length (load_times s)"
proof -
  have "set (map w_load (pending s) @ map r_load (helpers s)) = {0..<length (load_times s)}"
    using assms unfolding one_each_def by (metis set_mset_mset set_upt)
  then show "w \<in> set (pending s) \<Longrightarrow> w_load w < length (load_times s)"
    "h \<in> set (helpers s) \<Longrightarrow> r_load h < length (load_times s)" by auto
qed

lemma fire_one_each:
  assumes "one_each s" and "w \<in> set (pending s)"
  shows "one_each (delayed_shutdown path (w_load w) (s\<lparr>pending := remove1 w (pending s)\<rparr>))"
proof -
  have "mset (pending s) = add_mset w (mset (remove1 w (pending s)))" using assms(2) by simp
  then have "image_mset w_load (mset (pending s)) = add_mset (w_load w) (image_mset w_load (mset (remove1 w (pending s))))"
    by (metis image_mset_add_mset)
  then show ?thesis using assms(1) by (simp add: one_each_def delayed_shutdown_def)
qed

lemma ui_step_one_each: "ui_step mj path s s' \<Longrightarrow> one_each s \<Longrightarrow> one_each s'"
proof (erule ui_stepE, goal_cases)
  case (3 w)
  then show ?case using fire_one_each by blast
qed (auto simp: one_each_def delayed_shutdown_init_def delayed_shutdown_exit_def)

lemma ui_step_on_time: "ui_step mj path s s' \<Longrightarrow> one_each s \<Longrightarrow> on_time mj s \<Longrightarrow> on_time mj s'"
proof (erule ui_stepE, goal_cases)
  case (1 t)
  then show ?case
    using one_each_bounds [of s] by (auto simp: on_time_def delayed_shutdown_init_def nth_append)
next
  case (3 w)
  then show ?case using set_remove1_subset [of w "pending s"] by (fastforce simp: on_time_def delayed_shutdown_def)
qed (auto simp: on_time_def delayed_shutdown_exit_def)

lemma ui_reachable: "(ui_step mj path)\<^sup>*\<^sup>* ui_start s \<Longrightarrow> one_each s \<and> on_time mj s"
proof (induction rule: rtranclp_induct)
  case base
  then show ?case by (simp add: one_each_def on_time_def ui_start_def)
qed (blast intro: ui_step_one_each ui_step_on_time)

section \<open>A pending call comes\<close>

lemma ui_ticks: "(ui_step mj path)\<^sup>*\<^sup>* s (s\<lparr>jiffies := jiffies s + n\<rparr>)"
proof (induction n)
  case (Suc n)
  from tick [of mj path "s\<lparr>jiffies := jiffies s + n\<rparr>"] Suc show ?case
    by (auto intro: rtranclp.rtrancl_into_rtrancl)
qed simp

lemma pending_comes:
  assumes "w \<in> set (pending s)"
  shows "\<exists>s' h. (ui_step mj path)\<^sup>*\<^sup>* s s' \<and> helpers s' = helpers s @ [h]
    \<and> r_load h = w_load w \<and> h_path (r_call h) = path \<and> r_there h = there s (w_load w)"
proof -
  let ?s = "s\<lparr>jiffies := jiffies s + w_expires w\<rparr>"
  let ?t = "delayed_shutdown path (w_load w) (?s\<lparr>pending := remove1 w (pending ?s)\<rparr>)"
  have "ui_step mj path ?s ?t" by (rule fire) (simp_all add: assms)
  then have "(ui_step mj path)\<^sup>*\<^sup>* s ?t"
    using ui_ticks [of mj path s "w_expires w"] by (rule rtranclp.rtrancl_into_rtrancl [rotated])
  then show ?thesis by (intro exI conjI) (assumption, simp add: delayed_shutdown_def, simp_all add: there_def)
qed

text \<open>C40: however often the module is loaded and unloaded, the work of each load is pending or has been run exactly
  once, so that the helper is called at most once for each load; never before the 200 ms after that load
  have passed; and unloading does not cancel it: a pending work of a module that is gone can still be
  run, in code that is not there any more.\<close>

theorem shutdown_once_and_never_cancelled:
  assumes "(ui_step mj path)\<^sup>*\<^sup>* ui_start s"
  shows "mset (map w_load (pending s) @ map r_load (helpers s)) = mset [0..<length (load_times s)]
    \<and> (\<forall>h \<in> set (helpers s). load_times s ! r_load h + mj 200 \<le> r_time h)
    \<and> (\<forall>w \<in> set (pending s). \<not> loaded s \<longrightarrow> (\<exists>s' h. (ui_step mj path)\<^sup>*\<^sup>* s s' \<and> helpers s' = helpers s @ [h]
         \<and> r_load h = w_load w \<and> h_path (r_call h) = path \<and> \<not> r_there h))"
proof -
  have "\<exists>s' h. (ui_step mj path)\<^sup>*\<^sup>* s s' \<and> helpers s' = helpers s @ [h]
      \<and> r_load h = w_load w \<and> h_path (r_call h) = path \<and> \<not> r_there h"
    if "w \<in> set (pending s)" "\<not> loaded s" for w
    using pending_comes [OF that(1), of mj path] that(2) unfolding there_def by fast
  then show ?thesis using ui_reachable [OF assms] unfolding one_each_def on_time_def by blast
qed

text \<open>Two loads, at jiffy 0 and at jiffy 1, each followed by an unload.\<close>

definition sample_ui :: ui_state where
  "sample_ui = \<lparr>loaded = False, load_times = [0, 1], jiffies = 1,
     pending = [\<lparr>w_load = 0, w_expires = 50\<rparr>, \<lparr>w_load = 1, w_expires = 51\<rparr>], helpers = []\<rparr>"

lemma load_and_unload:
  assumes "\<not> loaded s"
  shows "(ui_step mj path)\<^sup>*\<^sup>* s ((snd (delayed_shutdown_init mj s))\<lparr>load_times := load_times s @ [jiffies s], loaded := False\<rparr>)"
proof -
  let ?t = "(snd (delayed_shutdown_init mj s))\<lparr>loaded := True, load_times := load_times s @ [jiffies s]\<rparr>"
  have "ui_step mj path s ?t" using load [OF assms, of mj _ path] by (simp add: delayed_shutdown_init_def)
  moreover have "ui_step mj path ?t ((snd (delayed_shutdown_init mj s))\<lparr>load_times := load_times s @ [jiffies s], loaded := False\<rparr>)"
    using unload [of ?t mj path] by (simp add: delayed_shutdown_exit_def)
  ultimately show ?thesis by (meson r_into_rtranclp rtranclp.rtrancl_into_rtrancl)
qed

lemma sample_ui_reachable: "(ui_step (\<lambda>ms. ms div 4) path)\<^sup>*\<^sup>* ui_start sample_ui"
proof -
  let ?mj = "\<lambda>ms::nat. ms div 4"
  let ?s = "(snd (delayed_shutdown_init ?mj ui_start))\<lparr>load_times := [0], loaded := False\<rparr>"
  have one: "(ui_step ?mj path)\<^sup>*\<^sup>* ui_start ?s"
    using load_and_unload [of ui_start ?mj path] by (simp add: ui_start_def)
  note rtranclp_trans [OF one ui_ticks [of ?mj path ?s 1]]
  also have "(ui_step ?mj path)\<^sup>*\<^sup>* (?s\<lparr>jiffies := jiffies ?s + 1\<rparr>) sample_ui"
    using load_and_unload [of "?s\<lparr>jiffies := jiffies ?s + 1\<rparr>" ?mj path]
    by (simp add: ui_start_def delayed_shutdown_init_def sample_ui_def)
  finally show ?thesis .
qed

theorem shutdown_once_and_never_cancelled_witness:
  "\<exists>s' h. (ui_step (\<lambda>ms. ms div 4) ''/sbin/shutdown'')\<^sup>*\<^sup>* sample_ui s' \<and> helpers s' = [h]
    \<and> r_load h = 1 \<and> h_path (r_call h) = ''/sbin/shutdown'' \<and> \<not> r_there h"
  using shutdown_once_and_never_cancelled [OF sample_ui_reachable [of "''/sbin/shutdown''"]]
  by (auto simp: sample_ui_def)

end
