(* ===== verification/C_Layout.thy ===== *)
theory C_Layout
  imports Prelude "HOL-Library.Multiset"
begin

text \<open>
  How the C compiler lays out the structures the repository declares: sizes, alignments and
  offsets by the System V ABI for x86-64, bit-fields included, and the kernel's
  \<open>container_of\<close>. A declaration is a value of \<open>ctype\<close>: members in their order, with the
  preprocessor conditionals they stand under. What a declaration takes from elsewhere is an
  environment: which configuration macros are defined, the size and alignment of the types
  other headers declare, the values of their constants, and the order into which the structure
  randomisation plugin shuffles the members it may shuffle. Everything about a structure is
  proved for every environment.
\<close>

section \<open>Declarations\<close>

datatype prim = Char_t | Uchar_t | Short_t | Ushort_t | Int_t | Uint_t | Long_t | Ulong_t | Ullong_t | Bool_t
  | U8_t | U16_t | U32_t | U64_t | S32_t

datatype cexpr = Num nat | Const string | Plus cexpr cexpr | Bits_to_longs cexpr

datatype cond = Defined string | Not_defined string | Either cond cond

text \<open>\<open>Ptr\<close> and \<open>Fn\<close> are pointers to objects and to functions, \<open>Ext\<close> is a type declared in another
  header, \<open>Shuffled\<close> a structure marked \<open>__randomize_layout\<close>. A member without a name is an
  anonymous structure or union, whose members are accessed as those of the structure around it,
  or an unnamed bit-field. \<open>Region\<close> is the part of a structure between
  \<open>randomized_struct_fields_start\<close> and \<open>randomized_struct_fields_end\<close>.\<close>

datatype ctype =
    Prim prim
  | Enum string
  | Ptr string
  | Fn
  | Ext string
  | Arr ctype cexpr
  | Struct "member list"
  | Shuffled "member list"
  | Union "member list"
  | Aligned cexpr ctype
and member =
    Field string ctype
  | Bits string prim nat
  | When cond "member list"
  | Region "member list"

section \<open>Layout\<close>

text \<open>The names that can be accessed in a type: each with its offset and length in bits.\<close>

type_synonym names = "(string \<times> nat \<times> nat) list"

text \<open>What is placed one after the other in a structure: whole objects (the names they bring, size
  and alignment in bytes) and bit-fields (size of the declared type, width).\<close>

datatype slot = Whole names nat nat | Bitslot string nat nat

record env =
  macro_defined :: "string \<Rightarrow> bool"
  ext_size :: "string \<Rightarrow> nat"
  ext_align :: "string \<Rightarrow> nat"
  const_value :: "string \<Rightarrow> nat"
  randomize :: bool
  shuffle :: "slot list \<Rightarrow> slot list"

fun prim_size :: "prim \<Rightarrow> nat" where
  "prim_size Char_t = 1" | "prim_size Uchar_t = 1" | "prim_size Bool_t = 1" | "prim_size U8_t = 1"
| "prim_size Short_t = 2" | "prim_size Ushort_t = 2" | "prim_size U16_t = 2"
| "prim_size Int_t = 4" | "prim_size Uint_t = 4" | "prim_size U32_t = 4" | "prim_size S32_t = 4"
| "prim_size Long_t = 8" | "prim_size Ulong_t = 8" | "prim_size Ullong_t = 8" | "prim_size U64_t = 8"

fun value_of :: "env \<Rightarrow> cexpr \<Rightarrow> nat" where
  "value_of E (Num n) = n"
| "value_of E (Const c) = const_value E c"
| "value_of E (Plus a b) = value_of E a + value_of E b"
| "value_of E (Bits_to_longs a) = (value_of E a + 63) div 64"

fun holds :: "env \<Rightarrow> cond \<Rightarrow> bool" where
  "holds E (Defined c) = macro_defined E c"
| "holds E (Not_defined c) = (\<not> macro_defined E c)"
| "holds E (Either a b) = (holds E a \<or> holds E b)"

definition align_up :: "nat \<Rightarrow> nat \<Rightarrow> nat" where
  "align_up a x = (x + a - 1) div a * a"

text \<open>Where a slot starts and ends, in bits, when the position reached is \<open>pos\<close>. A bit-field starts
  where the last member ended unless it would then cross a boundary of its declared type; a
  bit-field of width 0 moves to the next boundary.\<close>

fun slot_place :: "nat \<Rightarrow> slot \<Rightarrow> nat \<times> nat" where
  "slot_place pos (Whole ns s a) = (let b = align_up (8 * a) pos in (b, b + 8 * s))"
| "slot_place pos (Bitslot n s w) =
     (if w = 0 then (align_up (8 * s) pos, align_up (8 * s) pos)
      else if pos div (8 * s) = (pos + w - 1) div (8 * s) then (pos, pos + w)
      else (align_up (8 * s) pos, align_up (8 * s) pos + w))"

fun place :: "nat \<Rightarrow> slot list \<Rightarrow> (nat \<times> nat \<times> slot) list" where
  "place pos [] = []"
| "place pos (x # xs) = (let (b, e) = slot_place pos x in (b, e, x) # place e xs)"

fun place_end :: "nat \<Rightarrow> slot list \<Rightarrow> nat" where
  "place_end pos [] = pos"
| "place_end pos (x # xs) = place_end (snd (slot_place pos x)) xs"

fun slot_align :: "slot \<Rightarrow> nat" where
  "slot_align (Whole ns s a) = a"
| "slot_align (Bitslot n s w) = (if n = [] then 1 else s)"

fun slot_names :: "slot \<Rightarrow> names" where
  "slot_names (Whole ns s a) = ns"
| "slot_names (Bitslot n s w) = (if n = [] then [] else [(n, 0, w)])"

definition shift :: "nat \<Rightarrow> names \<Rightarrow> names" where
  "shift b ns = map (\<lambda>(n, off, len). (n, b + off, len)) ns"

definition max_align :: "slot list \<Rightarrow> nat" where
  "max_align xs = foldr (\<lambda>x m. max (slot_align x) m) xs 1"

definition struct_layout :: "slot list \<Rightarrow> nat \<times> nat \<times> names" where
  "struct_layout xs =
     (align_up (max_align xs) ((place_end 0 xs + 7) div 8), max_align xs,
      concat (map (\<lambda>(b, e, x). shift b (slot_names x)) (place 0 xs)))"

definition union_layout :: "slot list \<Rightarrow> nat \<times> nat \<times> names" where
  "union_layout xs =
     (align_up (max_align xs) (foldr (\<lambda>x m. max ((snd (slot_place 0 x) + 7) div 8) m) xs 0), max_align xs,
      concat (map slot_names xs))"

text \<open>The layout of a type is its size and alignment in bytes and its names. With randomisation off
  the shuffled parts keep their order, and a region is not a structure of its own.\<close>

fun layout :: "env \<Rightarrow> ctype \<Rightarrow> nat \<times> nat \<times> names"
and slots :: "env \<Rightarrow> member \<Rightarrow> slot list" where
  "layout E (Prim p) = (prim_size p, prim_size p, [])"
| "layout E (Enum n) = (4, 4, [])"
| "layout E (Ptr n) = (8, 8, [])"
| "layout E Fn = (8, 8, [])"
| "layout E (Ext n) = (ext_size E n, ext_align E n, [])"
| "layout E (Arr T k) = (case layout E T of (s, a, ns) \<Rightarrow> (value_of E k * s, a, []))"
| "layout E (Struct ms) = struct_layout (concat (map (slots E) ms))"
| "layout E (Shuffled ms) =
     (let xs = concat (map (slots E) ms) in struct_layout (if randomize E then shuffle E xs else xs))"
| "layout E (Union ms) = union_layout (concat (map (slots E) ms))"
| "layout E (Aligned k T) = (case layout E T of (s, a, ns) \<Rightarrow>
     (align_up (max a (value_of E k)) s, max a (value_of E k), ns))"
| "slots E (Field n T) = (case layout E T of (s, a, ns) \<Rightarrow> [Whole (if n = [] then ns else [(n, 0, 8 * s)]) s a])"
| "slots E (Bits n p w) = [Bitslot n (prim_size p) w]"
| "slots E (When c ms) = (if holds E c then concat (map (slots E) ms) else [])"
| "slots E (Region ms) =
     (let xs = concat (map (slots E) ms)
      in if randomize E then (case struct_layout (shuffle E xs) of (s, a, ns) \<Rightarrow> [Whole ns s a]) else xs)"

definition size_of :: "env \<Rightarrow> ctype \<Rightarrow> nat" where
  "size_of E T = fst (layout E T)"

definition align_of :: "env \<Rightarrow> ctype \<Rightarrow> nat" where
  "align_of E T = fst (snd (layout E T))"

definition names_of :: "env \<Rightarrow> ctype \<Rightarrow> names" where
  "names_of E T = snd (snd (layout E T))"

text \<open>\<open>offsetof\<close> and \<open>container_of\<close>. A name the type does not have does not compile.\<close>

definition offset_of :: "env \<Rightarrow> ctype \<Rightarrow> string \<Rightarrow> nat option" where
  "offset_of E T m = map_option (\<lambda>(off, len). off div 8) (map_of (names_of E T) m)"

definition container_of :: "env \<Rightarrow> addr \<Rightarrow> ctype \<Rightarrow> string \<Rightarrow> addr option" where
  "container_of E ptr T m = map_option (\<lambda>off. ptr - of_nat off) (offset_of E T m)"

text \<open>The address of a member of the structure at \<open>p\<close>.\<close>

definition member_at :: "env \<Rightarrow> addr \<Rightarrow> ctype \<Rightarrow> string \<Rightarrow> addr option" where
  "member_at E p T m = map_option (\<lambda>off. p + of_nat off) (offset_of E T m)"

text \<open>What every compiler and configuration gives: alignments are positive, the size of a type is a
  multiple of its alignment, and randomisation only reorders.\<close>

definition env_ok :: "env \<Rightarrow> bool" where
  "env_ok E \<longleftrightarrow> (\<forall>n. 0 < ext_align E n \<and> ext_align E n dvd ext_size E n) \<and> (\<forall>xs. mset (shuffle E xs) = mset xs)"

section \<open>Alignment\<close>

lemma align_up_ge: "0 < a \<Longrightarrow> x \<le> align_up a x"
proof -
  assume "0 < a"
  moreover have "(x + a - 1) div a * a + (x + a - 1) mod a = x + a - 1" by simp
  moreover have "(x + a - 1) mod a < a" using \<open>0 < a\<close> by simp
  ultimately show ?thesis unfolding align_up_def by linarith
qed

lemma align_up_dvd [simp]: "a dvd align_up a x"
  by (simp add: align_up_def)

lemma align_up_same: "0 < a \<Longrightarrow> a dvd x \<Longrightarrow> align_up a x = x"
proof -
  assume a: "0 < a" and "a dvd x"
  then obtain k where x: "x = k * a" by (metis dvdE mult.commute)
  have "(k * a + (a - 1)) div a = k + (a - 1) div a" using a by (intro div_mult_self3) simp
  moreover have "(a - 1) div a = 0" using a by simp
  moreover have "k * a + a - 1 = k * a + (a - 1)" using a by simp
  ultimately show ?thesis by (simp add: align_up_def x)
qed

lemma align_up_0 [simp]: "align_up a 0 = 0"
  by (cases a) (simp_all add: align_up_def)

section \<open>Where members lie\<close>

text \<open>A slot that can be placed: its alignment is positive.\<close>

fun slot_ok :: "slot \<Rightarrow> bool" where
  "slot_ok (Whole ns s a) \<longleftrightarrow> 0 < a \<and> (\<forall>(n, off, len) \<in> set ns. off + len \<le> 8 * s)"
| "slot_ok (Bitslot n s w) \<longleftrightarrow> 0 < s"

lemma slot_place_forward:
  "slot_ok x \<Longrightarrow> pos \<le> fst (slot_place pos x) \<and> fst (slot_place pos x) \<le> snd (slot_place pos x)"
  by (cases x) (auto simp: Let_def align_up_ge)

lemma slot_names_inside:
  "slot_ok x \<Longrightarrow> (n, off, len) \<in> set (slot_names x) \<Longrightarrow>
    fst (slot_place pos x) + off + len \<le> snd (slot_place pos x)"
  by (cases x) (auto simp: Let_def split: if_splits)

lemma place_end_ge: "list_all slot_ok xs \<Longrightarrow> pos \<le> place_end pos xs"
proof (induction xs arbitrary: pos)
  case (Cons x xs)
  then have "pos \<le> snd (slot_place pos x)" using slot_place_forward [of x pos] by auto
  also have "\<dots> \<le> place_end (snd (slot_place pos x)) xs" using Cons by (simp add: Cons.IH)
  finally show ?case by simp
qed simp

lemma place_bounds:
  "(b, e, x) \<in> set (place pos xs) \<Longrightarrow> list_all slot_ok xs \<Longrightarrow>
    pos \<le> b \<and> b \<le> e \<and> e \<le> place_end pos xs \<and> x \<in> set xs"
proof (induction xs arbitrary: pos)
  case (Cons y ys)
  then show ?case
    using slot_place_forward [of y pos] place_end_ge [of ys "snd (slot_place pos y)"]
    by (fastforce simp: case_prod_unfold Let_def)
qed simp

text \<open>The slots of a structure follow each other without overlapping.\<close>

lemma place_disjoint:
  "list_all slot_ok xs \<Longrightarrow> sorted_wrt (\<lambda>(b, e, x) (b', e', x'). e \<le> b') (place pos xs)"
proof (induction xs arbitrary: pos)
  case (Cons y ys)
  then show ?case using place_bounds [of _ _ _ "snd (slot_place pos y)" ys]
    by (fastforce simp: case_prod_unfold Let_def)
qed simp

lemma place_append: "place pos (xs @ ys) = place pos xs @ place (place_end pos xs) ys"
  by (induction xs arbitrary: pos) (auto simp: case_prod_unfold Let_def)

lemma place_end_append: "place_end pos (xs @ ys) = place_end (place_end pos xs) ys"
  by (induction xs arbitrary: pos) auto

lemma place_in_slot: "(b, e, x) \<in> set (place pos xs) \<Longrightarrow> \<exists>q. (b, e) = slot_place q x"
  by (induction xs arbitrary: pos) (auto simp: case_prod_unfold Let_def intro: prod.collapse [symmetric])

lemma max_align_pos [simp]: "0 < max_align xs"
  unfolding max_align_def by (induction xs) auto

lemma in_shift [simp]: "(n, off, len) \<in> set (shift b ns) \<longleftrightarrow> (\<exists>o'. off = b + o' \<and> (n, o', len) \<in> set ns)"
  by (force simp: shift_def)

lemma bits_in_bytes: "x \<le> 8 * ((x + 7) div 8)" for x :: nat
  by presburger

lemma struct_names_inside:
  assumes "list_all slot_ok xs" and "(n, off, len) \<in> set (snd (snd (struct_layout xs)))"
  shows "off + len \<le> 8 * fst (struct_layout xs)"
proof -
  obtain b e x o' where p: "(b, e, x) \<in> set (place 0 xs)" and o': "off = b + o'" "(n, o', len) \<in> set (slot_names x)"
    using assms(2) by (auto simp: struct_layout_def)
  have x: "slot_ok x" using place_bounds [OF p assms(1)] assms(1) by (auto simp: list_all_iff)
  obtain q where q: "(b, e) = slot_place q x" using place_in_slot [OF p] by blast
  have "off + len \<le> e" using slot_names_inside [OF x o'(2), of q] o'(1) by (simp add: q [symmetric])
  also have "e \<le> place_end 0 xs" using place_bounds [OF p assms(1)] by simp
  also have "\<dots> \<le> 8 * ((place_end 0 xs + 7) div 8)" by (rule bits_in_bytes)
  also have "\<dots> \<le> 8 * fst (struct_layout xs)" by (simp add: struct_layout_def align_up_ge)
  finally show ?thesis .
qed

lemma foldr_max_ge: "x \<in> set xs \<Longrightarrow> f x \<le> foldr (\<lambda>x m. max (f x) m) xs (0::nat)"
  by (induction xs) auto

lemma union_names_inside:
  assumes "list_all slot_ok xs" and "(n, off, len) \<in> set (snd (snd (union_layout xs)))"
  shows "off + len \<le> 8 * fst (union_layout xs)"
proof -
  let ?f = "\<lambda>x. (snd (slot_place 0 x) + 7) div 8"
  obtain x where x: "x \<in> set xs" "(n, off, len) \<in> set (slot_names x)"
    using assms(2) by (auto simp: union_layout_def)
  have ok: "slot_ok x" using x(1) assms(1) by (auto simp: list_all_iff)
  have "off + len \<le> snd (slot_place 0 x)" using slot_names_inside [OF ok x(2), of 0] by simp
  also have "\<dots> \<le> 8 * ?f x" by (rule bits_in_bytes)
  also have "?f x \<le> foldr (\<lambda>x m. max (?f x) m) xs 0" by (rule foldr_max_ge [OF x(1)])
  finally have "off + len \<le> 8 * foldr (\<lambda>x m. max (?f x) m) xs 0" by simp
  also have "\<dots> \<le> 8 * fst (union_layout xs)" by (simp add: union_layout_def align_up_ge)
  finally show ?thesis .
qed

text \<open>In every type every name lies inside, and the size is a multiple of the alignment.\<close>

definition layout_ok :: "nat \<times> nat \<times> names \<Rightarrow> bool" where
  "layout_ok l \<longleftrightarrow> 0 < fst (snd l) \<and> fst (snd l) dvd fst l
     \<and> (\<forall>(n, off, len) \<in> set (snd (snd l)). off + len \<le> 8 * fst l)"

lemma struct_size_align:
  "0 < fst (snd (struct_layout xs))" "fst (snd (struct_layout xs)) dvd fst (struct_layout xs)"
  by (simp_all add: struct_layout_def)

lemma union_size_align:
  "0 < fst (snd (union_layout xs))" "fst (snd (union_layout xs)) dvd fst (union_layout xs)"
  by (simp_all add: union_layout_def)

lemma struct_layout_ok: "list_all slot_ok xs \<Longrightarrow> layout_ok (struct_layout xs)"
  unfolding layout_ok_def
  by (intro conjI ballI) (auto simp del: in_shift simp: struct_size_align dest: struct_names_inside)

lemma union_layout_ok: "list_all slot_ok xs \<Longrightarrow> layout_ok (union_layout xs)"
  unfolding layout_ok_def
  by (intro conjI ballI) (auto simp: union_size_align dest: union_names_inside)

lemma prim_size_pos [simp]: "0 < prim_size p"
  by (cases p) auto

lemma set_shuffle: "env_ok E \<Longrightarrow> set (shuffle E xs) = set xs"
  by (metis env_ok_def mset_eq_setD)

lemma layout_slots_ok:
  assumes E: "env_ok E"
  shows "layout_ok (layout E T)" and "list_all slot_ok (slots E m)"
proof (induction E\<equiv>E T and E\<equiv>E m rule: layout_slots.induct)
  case (8 ms)
  then show ?case using set_shuffle [OF E] by (auto simp: Let_def list_all_iff intro!: struct_layout_ok)
next
  case (14 ms)
  let ?xs = "concat (map (slots E) ms)"
  obtain s a ns where l: "struct_layout (shuffle E ?xs) = (s, a, ns)" using prod_cases3 by blast
  have "list_all slot_ok ?xs" using 14 by (auto simp: list_all_iff)
  then have "list_all slot_ok (shuffle E ?xs)" using set_shuffle [OF E] by (auto simp: list_all_iff)
  from struct_layout_ok [OF this] \<open>list_all slot_ok ?xs\<close> show ?case
    by (auto simp: Let_def l layout_ok_def list_all_iff split: if_splits)
next
  case (7 ms)
  then show ?case by (auto simp: list_all_iff intro!: struct_layout_ok)
next
  case (9 ms)
  then show ?case by (auto simp: list_all_iff intro!: union_layout_ok)
next
  case (10 k T)
  obtain s a ns where l: "layout E T = (s, a, ns)" using prod_cases3 by blast
  have "s \<le> align_up (max a (value_of E k)) s" using 10 by (intro align_up_ge) (auto simp: l layout_ok_def)
  then show ?case using 10 by (fastforce simp: l layout_ok_def)
next
  case (11 n T)
  obtain s a ns where l: "layout E T = (s, a, ns)" using prod_cases3 by blast
  then show ?case using 11 by (auto simp: l layout_ok_def)
qed (use E in \<open>auto simp: layout_ok_def env_ok_def list_all_iff split: prod.splits\<close>)

lemma members_ok: "env_ok E \<Longrightarrow> list_all slot_ok (concat (map (slots E) ms))"
  using layout_slots_ok(2) by (fastforce simp: list_all_iff)

lemma align_pos: "env_ok E \<Longrightarrow> 0 < align_of E T"
  using layout_slots_ok(1) by (simp add: layout_ok_def align_of_def)

lemma align_dvd_size: "env_ok E \<Longrightarrow> align_of E T dvd size_of E T"
  using layout_slots_ok(1) by (simp add: layout_ok_def align_of_def size_of_def)

lemma names_inside: "env_ok E \<Longrightarrow> (n, off, len) \<in> set (names_of E T) \<Longrightarrow> off + len \<le> 8 * size_of E T"
  using layout_slots_ok(1) [of E T] by (auto simp: layout_ok_def names_of_def size_of_def)

lemma offset_inside:
  assumes "env_ok E" and "offset_of E T m = Some o'"
  shows "o' \<le> size_of E T"
proof -
  obtain off len where n: "(m, off, len) \<in> set (names_of E T)" and o': "o' = off div 8"
    using assms(2) by (auto simp: offset_of_def dest: map_of_SomeD)
  from names_inside [OF assms(1) n] show ?thesis by (simp add: o')
qed

lemma container_of_member: "member_at E p T m = Some q \<Longrightarrow> container_of E q T m = Some p"
  by (auto simp: member_at_def container_of_def)

section \<open>First, last and neighbouring members\<close>

lemma shift_0 [simp]: "shift 0 ns = ns"
  by (simp add: shift_def case_prod_unfold)

lemma shift_simps [simp]: "shift b [] = []" "shift b ((n, off, len) # ns) = (n, b + off, len) # shift b ns"
  by (simp_all add: shift_def)

lemma slots_named: "n \<noteq> [] \<Longrightarrow> slots E (Field n T) = [Whole [(n, 0, 8 * size_of E T)] (size_of E T) (align_of E T)]"
  by (simp add: size_of_def align_of_def case_prod_unfold)

lemma slots_anonymous: "slots E (Field [] T) = [Whole (names_of E T) (size_of E T) (align_of E T)]"
  by (simp add: size_of_def align_of_def names_of_def case_prod_unfold)

definition placed_names :: "nat \<Rightarrow> slot list \<Rightarrow> names" where
  "placed_names pos xs = concat (map (\<lambda>(b, e, x). shift b (slot_names x)) (place pos xs))"

lemma placed_names_simps [simp]:
  "placed_names pos [] = []"
  "placed_names pos (x # xs) =
     shift (fst (slot_place pos x)) (slot_names x) @ placed_names (snd (slot_place pos x)) xs"
  by (simp_all add: placed_names_def case_prod_unfold Let_def)

lemma placed_names_append:
  "placed_names pos (xs @ ys) = placed_names pos xs @ placed_names (place_end pos xs) ys"
  by (simp add: placed_names_def place_append)

lemma names_of_struct: "names_of E (Struct ms) = placed_names 0 (concat (map (slots E) ms))"
  by (simp add: names_of_def struct_layout_def placed_names_def)

lemma placed_names_bounds:
  assumes "list_all slot_ok xs" and "(n, off, len) \<in> set (placed_names pos xs)"
  shows "pos \<le> off \<and> off + len \<le> place_end pos xs"
proof -
  obtain b e x o' where p: "(b, e, x) \<in> set (place pos xs)" and o': "off = b + o'" "(n, o', len) \<in> set (slot_names x)"
    using assms(2) by (auto simp: placed_names_def)
  have x: "slot_ok x" using place_bounds [OF p assms(1)] assms(1) by (auto simp: list_all_iff)
  obtain q where q: "(b, e) = slot_place q x" using place_in_slot [OF p] by blast
  show ?thesis
    using slot_names_inside [OF x o'(2), of q] o'(1) place_bounds [OF p assms(1)] by (simp add: q [symmetric])
qed

text \<open>The first member of a structure is at offset 0.\<close>

lemma first_member_offset: "n \<noteq> [] \<Longrightarrow> offset_of E (Struct (Field n T # ms)) n = Some 0"
  by (simp add: offset_of_def names_of_struct slots_named del: slots.simps)

lemma offset_in_first:
  "map_of (names_of E T) m = Some (off, len) \<Longrightarrow> offset_of E (Struct (Field [] T # ms)) m = Some (off div 8)"
  by (simp add: offset_of_def names_of_struct slots_anonymous del: slots.simps)

text \<open>Every name of the members before a point lies before every name of the members after it.\<close>

lemma names_in_order:
  assumes "env_ok E" and "(m, off, len) \<in> set (placed_names pos (concat (map (slots E) ms)))"
    and "(n, off', len') \<in> set (placed_names (place_end pos (concat (map (slots E) ms))) (concat (map (slots E) ns)))"
  shows "off + len \<le> off'"
  using placed_names_bounds [OF members_ok [OF assms(1)] assms(2)]
    placed_names_bounds [OF members_ok [OF assms(1)] assms(3)] by simp

lemma last_member:
  assumes "env_ok E" and "n \<noteq> []"
  obtains before o' where "names_of E (Struct (ms @ [Field n T])) = before @ [(n, o', 8 * size_of E T)]"
    and "\<And>m off len. (m, off, len) \<in> set before \<Longrightarrow> off + len \<le> o'"
proof -
  let ?xs = "concat (map (slots E) ms)"
  let ?o = "fst (slot_place (place_end 0 ?xs) (Whole [(n, 0, 8 * size_of E T)] (size_of E T) (align_of E T)))"
  have "names_of E (Struct (ms @ [Field n T])) = placed_names 0 ?xs @ [(n, ?o, 8 * size_of E T)]"
    by (simp add: names_of_struct placed_names_append slots_named assms(2) Let_def del: slots.simps)
  moreover have "off + len \<le> ?o" if "(m, off, len) \<in> set (placed_names 0 ?xs)" for m off len
  proof -
    have "off + len \<le> place_end 0 ?xs" using placed_names_bounds [OF members_ok [OF assms(1)] that] by blast
    also have "\<dots> \<le> ?o" using align_pos [OF assms(1)] by (simp add: Let_def align_up_ge)
    finally show ?thesis .
  qed
  ultimately show thesis by (rule that)
qed

lemma fst_placed_names: "fst ` set (placed_names pos xs) = (\<Union>x \<in> set xs. fst ` set (slot_names x))"
proof (induction xs arbitrary: pos)
  case (Cons x xs)
  have "fst ` set (shift b ns) = fst ` set ns" for b ns by (force simp: shift_def image_iff)
  then show ?case using Cons by (simp add: image_Un)
qed simp

text \<open>A structure of pointers only: its size does not depend on their order.\<close>

lemma place_pointer: "64 dvd pos \<Longrightarrow> snd (slot_place pos (Whole ns 8 8)) = pos + 64"
  using align_up_same [of 64 pos] by (simp add: Let_def)

lemma place_end_pointers:
  "list_all (\<lambda>x. \<exists>ns. x = Whole ns 8 8) xs \<Longrightarrow> 64 dvd pos \<Longrightarrow> place_end pos xs = pos + 64 * length xs"
proof (induction xs arbitrary: pos)
  case (Cons x xs)
  then obtain ns where x: "x = Whole ns 8 8" by auto
  have "64 dvd pos + 64" using Cons.prems(2) by (simp only: dvd_add_triv_right_iff)
  then have "place_end (pos + 64) xs = pos + 64 + 64 * length xs" using Cons by simp
  then show ?case by (simp only: x place_end.simps place_pointer [OF Cons.prems(2)]) simp
qed simp

lemma max_align_pointers:
  "list_all (\<lambda>x. \<exists>ns. x = Whole ns 8 8) xs \<Longrightarrow> xs \<noteq> [] \<Longrightarrow> max_align xs = 8"
proof (induction xs)
  case (Cons x xs)
  then show ?case by (cases xs) (auto simp: max_align_def)
qed simp

lemma size_of_pointers:
  assumes "list_all (\<lambda>x. \<exists>ns. x = Whole ns 8 8) xs" and "xs \<noteq> []"
  shows "fst (struct_layout xs) = 8 * length xs"
proof -
  have "64 * length xs + 7 = 7 + 8 * length xs * 8" by simp
  then have "(64 * length xs + 7) div 8 = 8 * length xs" by simp
  then show ?thesis using place_end_pointers [OF assms(1), of 0] max_align_pointers [OF assms]
      align_up_same [of 8 "8 * length xs"] by (simp add: struct_layout_def)
qed

section \<open>The names a declaration can bring\<close>

fun type_names :: "ctype \<Rightarrow> string list"
and member_names :: "member \<Rightarrow> string list" where
  "type_names (Struct ms) = concat (map member_names ms)"
| "type_names (Shuffled ms) = concat (map member_names ms)"
| "type_names (Union ms) = concat (map member_names ms)"
| "type_names (Aligned k T) = type_names T"
| "type_names _ = []"
| "member_names (Field n T) = (if n = [] then type_names T else [n])"
| "member_names (Bits n p w) = (if n = [] then [] else [n])"
| "member_names (When c ms) = concat (map member_names ms)"
| "member_names (Region ms) = concat (map member_names ms)"

definition slots_names :: "slot list \<Rightarrow> string set" where
  "slots_names xs = (\<Union>x \<in> set xs. fst ` set (slot_names x))"

lemma names_of_layouts:
  "fst ` set (snd (snd (struct_layout xs))) = slots_names xs"
  "fst ` set (snd (snd (union_layout xs))) = slots_names xs"
  using fst_placed_names [of 0 xs]
  by (auto simp: struct_layout_def union_layout_def placed_names_def slots_names_def)

lemma slots_names_set: "set xs = set ys \<Longrightarrow> slots_names xs = slots_names ys"
  by (simp add: slots_names_def)

lemma slots_names_concat: "slots_names (concat (map f ms)) = (\<Union>m \<in> set ms. slots_names (f m))"
  by (auto simp: slots_names_def)

lemma slots_names_simps:
  "slots_names [] = {}" "slots_names [Whole ns s a] = fst ` set ns"
  "slots_names [Bitslot n s w] = (if n = [] then {} else {n})"
  by (simp_all add: slots_names_def)

lemma slots_names_members:
  "(\<And>m. m \<in> set ms \<Longrightarrow> slots_names (slots E m) \<subseteq> set (member_names m)) \<Longrightarrow>
    slots_names (concat (map (slots E) ms)) \<subseteq> (\<Union>m \<in> set ms. set (member_names m))"
  unfolding slots_names_concat by (rule UN_mono) auto

lemma names_declared:
  assumes E: "env_ok E"
  shows "fst ` set (snd (snd (layout E T))) \<subseteq> set (type_names T)" and "slots_names (slots E m) \<subseteq> set (member_names m)"
proof (induction E\<equiv>E T and E\<equiv>E m rule: layout_slots.induct)
  case (8 ms)
  have "slots_names (shuffle E (concat (map (slots E) ms))) = slots_names (concat (map (slots E) ms))"
    by (rule slots_names_set) (rule set_shuffle [OF E])
  then show ?case using 8 by (auto simp: Let_def names_of_layouts slots_names_concat)
next
  case (10 k T)
  then show ?case by (cases "layout E T") fastforce
next
  case (11 n T)
  then show ?case by (cases "layout E T") (fastforce simp: slots_names_def)
next
  case (14 ms)
  let ?xs = "concat (map (slots E) ms)"
  obtain s a ns where l: "struct_layout (shuffle E ?xs) = (s, a, ns)" using prod_cases3 by blast
  have "slots_names (shuffle E ?xs) = slots_names ?xs" by (rule slots_names_set) (rule set_shuffle [OF E])
  then have "fst ` set ns = slots_names ?xs" using names_of_layouts(1) [of "shuffle E ?xs"] by (simp add: l)
  moreover have "slots_names [Whole ns s a] = fst ` set ns" by (simp add: slots_names_def)
  ultimately have "slots_names (slots E (Region ms)) = slots_names ?xs" by (simp add: Let_def l)
  then show ?case using 14 by (auto simp: slots_names_concat)
next
  case (7 ms)
  then show ?case using slots_names_members [of ms E] by (simp add: names_of_layouts)
next
  case (9 ms)
  then show ?case using slots_names_members [of ms E] by (simp add: names_of_layouts)
next
  case (13 c ms)
  then show ?case using slots_names_members [of ms E] by (cases "holds E c") (simp_all add: slots_names_simps)
qed (auto simp: slots_names_simps split: prod.splits)

lemma placed_names_declared:
  assumes "env_ok E" and "n \<notin> set (concat (map member_names ms))"
  shows "n \<notin> fst ` set (placed_names pos (concat (map (slots E) ms)))"
  using names_declared(2) [OF assms(1)] assms(2)
  unfolding fst_placed_names slots_names_def [symmetric] by (auto simp: slots_names_concat)

lemma map_of_skip: "k \<notin> fst ` set as \<Longrightarrow> map_of (as @ bs) k = map_of bs k"
  by (induction as) auto

section \<open>Computing layouts\<close>

lemma size_align_simps [layout_simps]:
  "size_of E (Prim p) = prim_size p" "align_of E (Prim p) = prim_size p"
  "size_of E (Enum n) = 4" "align_of E (Enum n) = 4"
  "size_of E (Ptr n) = 8" "align_of E (Ptr n) = 8"
  "size_of E Fn = 8" "align_of E Fn = 8"
  "size_of E (Ext n) = ext_size E n" "align_of E (Ext n) = ext_align E n"
  "size_of E (Arr T k) = value_of E k * size_of E T" "align_of E (Arr T k) = align_of E T"
  by (simp_all add: size_of_def align_of_def split: prod.splits)

lemma size_align_struct [layout_simps]:
  "size_of E (Struct ms) = align_up (align_of E (Struct ms)) ((place_end 0 (concat (map (slots E) ms)) + 7) div 8)"
  "align_of E (Struct ms) = max_align (concat (map (slots E) ms))"
  by (simp_all add: size_of_def align_of_def struct_layout_def)

lemma align_union [layout_simps]: "align_of E (Union ms) = max_align (concat (map (slots E) ms))"
  by (simp add: align_of_def union_layout_def)

lemma size_union: "size_of E (Union ms) = align_up (align_of E (Union ms))
    (foldr (\<lambda>x m. max ((snd (slot_place 0 x) + 7) div 8) m) (concat (map (slots E) ms)) 0)"
  by (simp add: size_of_def align_of_def union_layout_def)

lemma size_align_aligned:
  "size_of E (Aligned k T) = align_up (align_of E (Aligned k T)) (size_of E T)"
  "align_of E (Aligned k T) = max (align_of E T) (value_of E k)"
  by (simp_all add: size_of_def align_of_def split: prod.splits)

lemma names_of_union: "names_of E (Union ms) = concat (map slot_names (concat (map (slots E) ms)))"
  by (simp add: names_of_def union_layout_def)

lemma max_align_simps [simp]: "max_align [] = 1" "max_align (x # xs) = max (slot_align x) (max_align xs)"
  by (simp_all add: max_align_def)

lemma align_up_numeral [simp]:
  "align_up (numeral a) (numeral x) = (numeral x + numeral a - 1) div numeral a * numeral a"
  by (simp add: align_up_def)

lemma align_up_1 [simp]: "align_up 1 x = x" "align_up (Suc 0) x = x"
  by (simp_all add: align_up_def)

lemmas layout_compute = layout_simps slots_named slots_anonymous names_of_struct names_of_union

text \<open>Zero-sized members mark a place: the next byte-aligned member or bit-field starts there.\<close>

lemma align_up_multiple: "0 < a \<Longrightarrow> a dvd b \<Longrightarrow> align_up a (align_up b x) = align_up b x"
  by (intro align_up_same) (auto intro: dvd_trans)

lemma zero_slot_place: "slot_place pos (Whole ns 0 a) = (align_up (8 * a) pos, align_up (8 * a) pos)"
  by (simp add: Let_def)

lemma bit_slot_place:
  "8 dvd pos \<Longrightarrow> 0 < w \<Longrightarrow> w \<le> 8 \<Longrightarrow> slot_place pos (Bitslot n (Suc 0) w) = (pos, pos + w)"
  by (simp add: align_up_same)

section \<open>Masks of bit-fields\<close>

text \<open>The mask of a bit-field in the byte it starts in: bit-fields are allocated from the least
  significant bit, or from the most significant one on a big-endian machine.\<close>

definition field_mask :: "bool \<Rightarrow> nat \<Rightarrow> nat \<Rightarrow> nat" where
  "field_mask big_endian bit_pos width =
     (if big_endian then push_bit (8 - bit_pos mod 8 - width) (mask width) else push_bit (bit_pos mod 8) (mask width))"

section \<open>A sample environment\<close>

text \<open>An environment: the sizes of a 64-bit kernel, where they matter here, and every macro defined.\<close>

definition sample_env :: env where
  "sample_env = \<lparr>macro_defined = (\<lambda>c. True), ext_size = (\<lambda>n. if n = ''__be16'' then 2 else 8),
     ext_align = (\<lambda>n. if n = ''__be16'' then 2 else 8), const_value = (\<lambda>c. 16), randomize = True, shuffle = rev\<rparr>"

lemma sample_env_simps:
  "macro_defined sample_env c" "ext_size sample_env n = (if n = ''__be16'' then 2 else 8)"
  "ext_align sample_env n = (if n = ''__be16'' then 2 else 8)"
  by (simp_all add: sample_env_def)

lemma sample_env_ok: "env_ok sample_env"
  by (simp add: env_ok_def sample_env_def)

end
