(* ===== verification/Fs_Structs.thy ===== *)
theory Fs_Structs
  imports C_Layout
begin

text \<open>
  The structures of \<open>fs.c\<close> (operations of a file, inode, open file, file handle) and the person of
  \<open>util.c\<close>, on which it shows \<open>container_of\<close>.
\<close>

definition struct_person :: ctype where
  "struct_person = Struct [
    Field ''age'' (Prim Int_t),
    Field ''name'' (Ptr ''char'')]"

definition struct_file_operations :: ctype where
  "struct_file_operations = Shuffled [
    Field ''owner'' (Ptr ''struct module''),
    Field ''llseek'' Fn,
    Field ''read'' Fn,
    Field ''write'' Fn,
    Field ''read_iter'' Fn,
    Field ''write_iter'' Fn,
    Field ''iterate'' Fn,
    Field ''iterate_shared'' Fn,
    Field ''poll'' Fn,
    Field ''unlocked_ioctl'' Fn,
    Field ''compat_ioctl'' Fn,
    Field ''mmap'' Fn,
    Field ''mmap_supported_flags'' (Prim Ulong_t),
    Field ''open'' Fn,
    Field ''flush'' Fn,
    Field ''release'' Fn,
    Field ''fsync'' Fn,
    Field ''fasync'' Fn,
    Field ''lock'' Fn,
    Field ''sendpage'' Fn,
    Field ''get_unmapped_area'' Fn,
    Field ''check_flags'' Fn,
    Field ''flock'' Fn,
    Field ''splice_write'' Fn,
    Field ''splice_read'' Fn,
    Field ''setlease'' Fn,
    Field ''fallocate'' Fn,
    Field ''show_fdinfo'' Fn,
    When (Not_defined ''CONFIG_MMU'') [
      Field ''mmap_capabilities'' Fn],
    Field ''copy_file_range'' Fn,
    Field ''clone_file_range'' Fn,
    Field ''dedupe_file_range'' Fn]"

definition struct_inode :: ctype where
  "struct_inode = Shuffled [
    Field ''i_mode'' (Ext ''umode_t''),
    Field ''i_opflags'' (Prim Ushort_t),
    Field ''i_uid'' (Ext ''kuid_t''),
    Field ''i_gid'' (Ext ''kgid_t''),
    Field ''i_flags'' (Prim Uint_t),
    When (Defined ''CONFIG_FS_POSIX_ACL'') [
      Field ''i_acl'' (Ptr ''struct posix_acl''),
      Field ''i_default_acl'' (Ptr ''struct posix_acl'')],
    Field ''i_op'' (Ptr ''struct inode_operations''),
    Field ''i_sb'' (Ptr ''struct super_block''),
    Field ''i_mapping'' (Ptr ''struct address_space''),
    When (Defined ''CONFIG_SECURITY'') [
      Field ''i_security'' (Ptr ''void'')],
    Field ''i_ino'' (Prim Ulong_t),
    Field '''' (Union [
      Field ''i_nlink'' (Prim Uint_t),
      Field ''__i_nlink'' (Prim Uint_t)]),
    Field ''i_rdev'' (Ext ''dev_t''),
    Field ''i_size'' (Ext ''loff_t''),
    Field ''i_atime'' (Ext ''struct timespec''),
    Field ''i_mtime'' (Ext ''struct timespec''),
    Field ''i_ctime'' (Ext ''struct timespec''),
    Field ''i_lock'' (Ext ''spinlock_t''),
    Field ''i_bytes'' (Prim Ushort_t),
    Field ''i_blkbits'' (Prim Uint_t),
    Field ''i_write_hint'' (Enum ''rw_hint''),
    Field ''i_blocks'' (Ext ''blkcnt_t''),
    When (Defined ''__NEED_I_SIZE_ORDERED'') [
      Field ''i_size_seqcount'' (Ext ''seqcount_t'')],
    Field ''i_state'' (Prim Ulong_t),
    Field ''i_rwsem'' (Ext ''struct rw_semaphore''),
    Field ''dirtied_when'' (Prim Ulong_t),
    Field ''dirtied_time_when'' (Prim Ulong_t),
    Field ''i_hash'' (Ext ''struct hlist_node''),
    Field ''i_io_list'' (Ext ''struct list_head''),
    When (Defined ''CONFIG_CGROUP_WRITEBACK'') [
      Field ''i_wb'' (Ptr ''struct bdi_writeback''),
      Field ''i_wb_frn_winner'' (Prim Int_t),
      Field ''i_wb_frn_avg_time'' (Prim U16_t),
      Field ''i_wb_frn_history'' (Prim U16_t)],
    Field ''i_lru'' (Ext ''struct list_head''),
    Field ''i_sb_list'' (Ext ''struct list_head''),
    Field ''i_wb_list'' (Ext ''struct list_head''),
    Field '''' (Union [
      Field ''i_dentry'' (Ext ''struct hlist_head''),
      Field ''i_rcu'' (Ext ''struct rcu_head'')]),
    Field ''i_version'' (Ext ''atomic64_t''),
    Field ''i_count'' (Ext ''atomic_t''),
    Field ''i_dio_count'' (Ext ''atomic_t''),
    Field ''i_writecount'' (Ext ''atomic_t''),
    When (Defined ''CONFIG_IMA'') [
      Field ''i_readcount'' (Ext ''atomic_t'')],
    Field ''i_fop'' (Ptr ''struct file_operations''),
    Field ''i_flctx'' (Ptr ''struct file_lock_context''),
    Field ''i_data'' (Ext ''struct address_space''),
    Field ''i_devices'' (Ext ''struct list_head''),
    Field '''' (Union [
      Field ''i_pipe'' (Ptr ''struct pipe_inode_info''),
      Field ''i_bdev'' (Ptr ''struct block_device''),
      Field ''i_cdev'' (Ptr ''struct cdev''),
      Field ''i_link'' (Ptr ''char''),
      Field ''i_dir_seq'' (Prim Uint_t)]),
    Field ''i_generation'' (Prim U32_t),
    When (Defined ''CONFIG_FSNOTIFY'') [
      Field ''i_fsnotify_mask'' (Prim U32_t),
      Field ''i_fsnotify_marks'' (Ptr ''struct fsnotify_mark_connector'')],
    When (Either (Defined ''CONFIG_FS_ENCRYPTION'') (Defined ''CONFIG_FS_ENCRYPTION_MODULE'')) [
      Field ''i_crypt_info'' (Ptr ''struct fscrypt_info'')],
    Field ''i_private'' (Ptr ''void'')]"

definition struct_file :: ctype where
  "struct_file = Aligned (Num 4) (Shuffled [
    Field ''f_u'' (Union [
      Field ''fu_llist'' (Ext ''struct llist_node''),
      Field ''fu_rcuhead'' (Ext ''struct rcu_head'')]),
    Field ''f_path'' (Ext ''struct path''),
    Field ''f_inode'' (Ptr ''struct inode''),
    Field ''f_op'' (Ptr ''struct file_operations''),
    Field ''f_lock'' (Ext ''spinlock_t''),
    Field ''f_write_hint'' (Enum ''rw_hint''),
    Field ''f_count'' (Ext ''atomic_long_t''),
    Field ''f_flags'' (Prim Uint_t),
    Field ''f_mode'' (Ext ''fmode_t''),
    Field ''f_pos_lock'' (Ext ''struct mutex''),
    Field ''f_pos'' (Ext ''loff_t''),
    Field ''f_owner'' (Ext ''struct fown_struct''),
    Field ''f_cred'' (Ptr ''struct cred''),
    Field ''f_ra'' (Ext ''struct file_ra_state''),
    Field ''f_version'' (Prim U64_t),
    When (Defined ''CONFIG_SECURITY'') [
      Field ''f_security'' (Ptr ''void'')],
    Field ''private_data'' (Ptr ''void''),
    When (Defined ''CONFIG_EPOLL'') [
      Field ''f_ep_links'' (Ext ''struct list_head''),
      Field ''f_tfile_llink'' (Ext ''struct list_head'')],
    Field ''f_mapping'' (Ptr ''struct address_space''),
    Field ''f_wb_err'' (Ext ''errseq_t'')])"

definition struct_file_handle :: ctype where
  "struct_file_handle = Struct [
    Field ''handle_bytes'' (Prim U32_t),
    Field ''handle_type'' (Prim Int_t),
    Field ''f_handle'' (Arr (Prim Uchar_t) (Num 0))]"

section \<open>Properties of the layouts\<close>

text \<open>In every configuration and for every order of the members that the plugin may choose, a member of a
  structure is at or after its start and not beyond its end, and \<open>container_of\<close> gives the structure back
  from the address of the member.\<close>

theorem container_of_inverts_access:
  assumes "env_ok E" and "member_at E p T m = Some q"
  shows "container_of E q T m = Some p \<and> (\<exists>off \<le> size_of E T. offset_of E T m = Some off \<and> q = p + of_nat off)"
  using container_of_member [OF assms(2)] offset_inside [OF assms(1), of T m] assms(2)
  by (auto simp: member_at_def)

theorem container_of_inverts_access_witness:
  "\<exists>q. member_at sample_env 0x1000 struct_file_handle ''f_handle'' = Some q
    \<and> container_of sample_env q struct_file_handle ''f_handle'' = Some 0x1000"
proof -
  have "offset_of sample_env struct_file_handle ''f_handle'' = Some 8"
    by (simp add: offset_of_def struct_file_handle_def layout_compute Let_def del: slots.simps layout.simps)
  then have "member_at sample_env 0x1000 struct_file_handle ''f_handle'' = Some 0x1008" by (simp add: member_at_def)
  then show ?thesis using container_of_inverts_access [OF sample_env_ok] by blast
qed

text \<open>What \<open>util.c\<close> writes: \<open>container_of\<close> applied to the value of the name, a pointer to characters,
  where the macro expects the address of the member.\<close>

definition the_name_container :: "env \<Rightarrow> addr \<Rightarrow> addr option" where
  "the_name_container E the_name_ptr = container_of E the_name_ptr struct_person ''name''"

text \<open>\<open>container_of\<close> undoes the access to the member of a structure, but what \<open>util.c\<close> computes from
  the value of \<open>the_person.name\<close> is the address of \<open>the_person\<close> only if the name is stored in the
  pointer's own place.\<close>

theorem person_from_name:
  "member_at E p struct_person ''name'' = Some (p + 8)
   \<and> container_of E (p + 8) struct_person ''name'' = Some p
   \<and> (the_name_container E name = Some p \<longleftrightarrow> name = p + 8)"
proof -
  have "offset_of E struct_person ''name'' = Some 8"
    by (simp add: offset_of_def struct_person_def layout_compute del: slots.simps layout.simps)
  then show ?thesis
    by (auto simp: member_at_def container_of_def the_name_container_def)
qed

text \<open>The operations of a file are pointers, but for one word of flags: 31 of them, 32 without an MMU.
  However the plugin orders them, the structure has the same size.\<close>

lemma file_operations_size:
  assumes "env_ok E"
  shows "size_of E struct_file_operations = (if macro_defined E ''CONFIG_MMU'' then 248 else 256)"
proof -
  obtain ms where ms: "struct_file_operations = Shuffled ms" by (simp add: struct_file_operations_def)
  let ?xs = "concat (map (slots E) ms)"
  have xs: "list_all (\<lambda>x. \<exists>ns. x = Whole ns 8 8) ?xs" "length ?xs = (if macro_defined E ''CONFIG_MMU'' then 31 else 32)"
    using ms by (auto simp: struct_file_operations_def)
  let ?ys = "if randomize E then shuffle E ?xs else ?xs"
  have m: "mset ?ys = mset ?xs" using assms by (simp add: env_ok_def)
  have ys: "list_all (\<lambda>x. \<exists>ns. x = Whole ns 8 8) ?ys" using xs(1) mset_eq_setD [OF m] by (auto simp: list_all_iff)
  have len: "length ?ys = (if macro_defined E ''CONFIG_MMU'' then 31 else 32)"
    using xs(2) mset_eq_length [OF m] by simp
  then have "length ?ys \<noteq> 0" by (simp only: len) simp
  then have "?ys \<noteq> []" by (simp only: length_0_conv) simp
  from size_of_pointers [OF ys this] len show ?thesis by (simp add: size_of_def ms Let_def)
qed

end
