(* ===== verification/Device_Structs.thy ===== *)
theory Device_Structs
  imports C_Layout
begin

text \<open>
  The structures of \<open>ioport.h\<close>, \<open>device.h\<close> (bus types, drivers, devices, attributes, gpio chips),
  \<open>platform_device.h\<close> and \<open>irq.h\<close>, and the functions these headers and \<open>irq.c\<close> define.
\<close>

definition struct_resource :: ctype where
  "struct_resource = Struct [
    Field ''start'' (Ext ''resource_size_t''),
    Field ''end'' (Ext ''resource_size_t''),
    Field ''name'' (Ptr ''char''),
    Field ''flags'' (Prim Ulong_t),
    Field ''desc'' (Prim Ulong_t),
    Field ''parent'' (Ptr ''struct resource''),
    Field ''sibling'' (Ptr ''struct resource''),
    Field ''child'' (Ptr ''struct resource'')]"

definition struct_bus_type :: ctype where
  "struct_bus_type = Struct [
    Field ''name'' (Ptr ''char''),
    Field ''dev_name'' (Ptr ''char''),
    Field ''dev_root'' (Ptr ''struct device''),
    Field ''bus_groups'' (Ptr ''struct attribute_group *''),
    Field ''dev_groups'' (Ptr ''struct attribute_group *''),
    Field ''drv_groups'' (Ptr ''struct attribute_group *''),
    Field ''match'' Fn,
    Field ''uevent'' Fn,
    Field ''probe'' Fn,
    Field ''remove'' Fn,
    Field ''shutdown'' Fn,
    Field ''online'' Fn,
    Field ''offline'' Fn,
    Field ''suspend'' Fn,
    Field ''resume'' Fn,
    Field ''num_vf'' Fn,
    Field ''pm'' (Ptr ''struct dev_pm_ops''),
    Field ''iommu_ops'' (Ptr ''struct iommu_ops''),
    Field ''p'' (Ptr ''struct subsys_private''),
    Field ''lock_key'' (Ext ''struct lock_class_key''),
    Field ''force_dma'' (Prim Bool_t)]"

definition struct_device_driver :: ctype where
  "struct_device_driver = Struct [
    Field ''name'' (Ptr ''char''),
    Field ''bus'' (Ptr ''struct bus_type''),
    Field ''owner'' (Ptr ''struct module''),
    Field ''mod_name'' (Ptr ''char''),
    Field ''suppress_bind_attrs'' (Prim Bool_t),
    Field ''probe_type'' (Enum ''probe_type''),
    Field ''of_match_table'' (Ptr ''struct of_device_id''),
    Field ''acpi_match_table'' (Ptr ''struct acpi_device_id''),
    Field ''probe'' Fn,
    Field ''remove'' Fn,
    Field ''shutdown'' Fn,
    Field ''suspend'' Fn,
    Field ''resume'' Fn,
    Field ''groups'' (Ptr ''struct attribute_group *''),
    Field ''pm'' (Ptr ''struct dev_pm_ops''),
    Field ''coredump'' Fn,
    Field ''p'' (Ptr ''struct driver_private'')]"

definition struct_device :: ctype where
  "struct_device = Struct [
    Field ''parent'' (Ptr ''struct device''),
    Field ''p'' (Ptr ''struct device_private''),
    Field ''kobj'' (Ext ''struct kobject''),
    Field ''init_name'' (Ptr ''char''),
    Field ''type'' (Ptr ''struct device_type''),
    Field ''mutex'' (Ext ''struct mutex''),
    Field ''bus'' (Ptr ''struct bus_type''),
    Field ''driver'' (Ptr ''struct device_driver''),
    Field ''platform_data'' (Ptr ''void''),
    Field ''driver_data'' (Ptr ''void''),
    Field ''links'' (Ext ''struct dev_links_info''),
    Field ''power'' (Ext ''struct dev_pm_info''),
    Field ''pm_domain'' (Ptr ''struct dev_pm_domain''),
    When (Defined ''CONFIG_GENERIC_MSI_IRQ_DOMAIN'') [
      Field ''msi_domain'' (Ptr ''struct irq_domain'')],
    When (Defined ''CONFIG_PINCTRL'') [
      Field ''pins'' (Ptr ''struct dev_pin_info'')],
    When (Defined ''CONFIG_GENERIC_MSI_IRQ'') [
      Field ''msi_list'' (Ext ''struct list_head'')],
    When (Defined ''CONFIG_NUMA'') [
      Field ''numa_node'' (Prim Int_t)],
    Field ''dma_ops'' (Ptr ''struct dma_map_ops''),
    Field ''dma_mask'' (Ptr ''u64''),
    Field ''coherent_dma_mask'' (Prim U64_t),
    Field ''dma_pfn_offset'' (Prim Ulong_t),
    Field ''dma_parms'' (Ptr ''struct device_dma_parameters''),
    Field ''dma_pools'' (Ext ''struct list_head''),
    Field ''dma_mem'' (Ptr ''struct dma_coherent_mem''),
    When (Defined ''CONFIG_DMA_CMA'') [
      Field ''cma_area'' (Ptr ''struct cma'')],
    Field ''archdata'' (Ext ''struct dev_archdata''),
    Field ''of_node'' (Ptr ''struct device_node''),
    Field ''fwnode'' (Ptr ''struct fwnode_handle''),
    Field ''devt'' (Ext ''dev_t''),
    Field ''id'' (Prim U32_t),
    Field ''devres_lock'' (Ext ''spinlock_t''),
    Field ''devres_head'' (Ext ''struct list_head''),
    Field ''knode_class'' (Ext ''struct klist_node''),
    Field ''class'' (Ptr ''struct class''),
    Field ''groups'' (Ptr ''struct attribute_group *''),
    Field ''release'' Fn,
    Field ''iommu_group'' (Ptr ''struct iommu_group''),
    Field ''iommu_fwspec'' (Ptr ''struct iommu_fwspec''),
    Bits ''offline_disabled'' Bool_t 1,
    Bits ''offline'' Bool_t 1,
    Bits ''of_node_reused'' Bool_t 1]"

definition struct_bus_attribute :: ctype where
  "struct_bus_attribute = Struct [
    Field ''attr'' (Ext ''struct attribute''),
    Field ''show'' Fn,
    Field ''store'' Fn]"

definition struct_gpio_irq_chip :: ctype where
  "struct_gpio_irq_chip = Struct [
    Field ''chip'' (Ptr ''struct irq_chip''),
    Field ''domain'' (Ptr ''struct irq_domain''),
    Field ''domain_ops'' (Ptr ''struct irq_domain_ops''),
    Field ''handler'' (Ext ''irq_flow_handler_t''),
    Field ''default_type'' (Prim Uint_t),
    Field ''lock_key'' (Ptr ''struct lock_class_key''),
    Field ''request_key'' (Ptr ''struct lock_class_key''),
    Field ''parent_handler'' (Ext ''irq_flow_handler_t''),
    Field ''parent_handler_data'' (Ptr ''void''),
    Field ''num_parents'' (Prim Uint_t),
    Field ''parents'' (Ptr ''unsigned int''),
    Field ''map'' (Ptr ''unsigned int''),
    Field ''threaded'' (Prim Bool_t),
    Field ''need_valid_mask'' (Prim Bool_t),
    Field ''valid_mask'' (Ptr ''unsigned long''),
    Field ''first'' (Prim Uint_t)]"

definition struct_gpio_chip :: ctype where
  "struct_gpio_chip = Struct [
    Field ''label'' (Ptr ''char''),
    Field ''gpiodev'' (Ptr ''struct gpio_device''),
    Field ''parent'' (Ptr ''struct device''),
    Field ''owner'' (Ptr ''struct module''),
    Field ''request'' Fn,
    Field ''free'' Fn,
    Field ''get_direction'' Fn,
    Field ''direction_input'' Fn,
    Field ''direction_output'' Fn,
    Field ''get'' Fn,
    Field ''get_multiple'' Fn,
    Field ''set'' Fn,
    Field ''set_multiple'' Fn,
    Field ''set_config'' Fn,
    Field ''to_irq'' Fn,
    Field ''dbg_show'' Fn,
    Field ''base'' (Prim Int_t),
    Field ''ngpio'' (Prim U16_t),
    Field ''names'' (Ptr ''char *''),
    Field ''can_sleep'' (Prim Bool_t),
    When (Either (Defined ''CONFIG_GPIO_GENERIC'') (Defined ''CONFIG_GPIO_GENERIC_MODULE'')) [
      Field ''read_reg'' Fn,
      Field ''write_reg'' Fn,
      Field ''be_bits'' (Prim Bool_t),
      Field ''reg_dat'' (Ptr ''void''),
      Field ''reg_set'' (Ptr ''void''),
      Field ''reg_clr'' (Ptr ''void''),
      Field ''reg_dir'' (Ptr ''void''),
      Field ''bgpio_bits'' (Prim Int_t),
      Field ''bgpio_lock'' (Ext ''spinlock_t''),
      Field ''bgpio_data'' (Prim Ulong_t),
      Field ''bgpio_dir'' (Prim Ulong_t)],
    When (Defined ''CONFIG_GPIOLIB_IRQCHIP'') [
      Field ''irq'' struct_gpio_irq_chip],
    When (Defined ''CONFIG_OF_GPIO'') [
      Field ''of_node'' (Ptr ''struct device_node''),
      Field ''of_gpio_n_cells'' (Prim Uint_t),
      Field ''of_xlate'' Fn]]"

definition struct_driver_attribute :: ctype where
  "struct_driver_attribute = Struct [
    Field ''attr'' (Ext ''struct attribute''),
    Field ''show'' Fn,
    Field ''store'' Fn]"

definition struct_class_attribute :: ctype where
  "struct_class_attribute = Struct [
    Field ''attr'' (Ext ''struct attribute''),
    Field ''show'' Fn,
    Field ''store'' Fn]"

definition struct_device_attribute :: ctype where
  "struct_device_attribute = Struct [
    Field ''attr'' (Ext ''struct attribute''),
    Field ''show'' Fn,
    Field ''store'' Fn]"

definition struct_platform_device :: ctype where
  "struct_platform_device = Struct [
    Field ''name'' (Ptr ''char''),
    Field ''id'' (Prim Int_t),
    Field ''id_auto'' (Prim Bool_t),
    Field ''dev'' struct_device,
    Field ''num_resources'' (Prim U32_t),
    Field ''resource'' (Ptr ''struct resource''),
    Field ''id_entry'' (Ptr ''struct platform_device_id''),
    Field ''driver_override'' (Ptr ''char''),
    Field ''mfd_cell'' (Ptr ''struct mfd_cell''),
    Field ''archdata'' (Ext ''struct pdev_archdata'')]"

definition struct_platform_driver :: ctype where
  "struct_platform_driver = Struct [
    Field ''probe'' Fn,
    Field ''remove'' Fn,
    Field ''shutdown'' Fn,
    Field ''suspend'' Fn,
    Field ''resume'' Fn,
    Field ''driver'' struct_device_driver,
    Field ''id_table'' (Ptr ''struct platform_device_id''),
    Field ''prevent_deferred_probe'' (Prim Bool_t)]"

definition struct_irq_chip :: ctype where
  "struct_irq_chip = Struct [
    Field ''parent_device'' (Ptr ''struct device''),
    Field ''name'' (Ptr ''char''),
    Field ''irq_startup'' Fn,
    Field ''irq_shutdown'' Fn,
    Field ''irq_enable'' Fn,
    Field ''irq_disable'' Fn,
    Field ''irq_ack'' Fn,
    Field ''irq_mask'' Fn,
    Field ''irq_mask_ack'' Fn,
    Field ''irq_unmask'' Fn,
    Field ''irq_eoi'' Fn,
    Field ''irq_set_affinity'' Fn,
    Field ''irq_retrigger'' Fn,
    Field ''irq_set_type'' Fn,
    Field ''irq_set_wake'' Fn,
    Field ''irq_bus_lock'' Fn,
    Field ''irq_bus_sync_unlock'' Fn,
    Field ''irq_cpu_online'' Fn,
    Field ''irq_cpu_offline'' Fn,
    Field ''irq_suspend'' Fn,
    Field ''irq_resume'' Fn,
    Field ''irq_pm_shutdown'' Fn,
    Field ''irq_calc_mask'' Fn,
    Field ''irq_print_chip'' Fn,
    Field ''irq_request_resources'' Fn,
    Field ''irq_release_resources'' Fn,
    Field ''irq_compose_msi_msg'' Fn,
    Field ''irq_write_msi_msg'' Fn,
    Field ''irq_get_irqchip_state'' Fn,
    Field ''irq_set_irqchip_state'' Fn,
    Field ''irq_set_vcpu_affinity'' Fn,
    Field ''ipi_send_single'' Fn,
    Field ''ipi_send_mask'' Fn,
    Field ''flags'' (Prim Ulong_t)]"

definition struct_irq_common_data :: ctype where
  "struct_irq_common_data = Struct [
    Field ''state_use_accessors'' (Prim Uint_t),
    When (Defined ''CONFIG_NUMA'') [
      Field ''node'' (Prim Uint_t)],
    Field ''handler_data'' (Ptr ''void''),
    Field ''msi_desc'' (Ptr ''struct msi_desc''),
    Field ''affinity'' (Ext ''cpumask_var_t''),
    When (Defined ''CONFIG_GENERIC_IRQ_EFFECTIVE_AFF_MASK'') [
      Field ''effective_affinity'' (Ext ''cpumask_var_t'')],
    When (Defined ''CONFIG_GENERIC_IRQ_IPI'') [
      Field ''ipi_offset'' (Prim Uint_t)]]"

definition struct_irq_data :: ctype where
  "struct_irq_data = Struct [
    Field ''mask'' (Prim U32_t),
    Field ''irq'' (Prim Uint_t),
    Field ''hwirq'' (Prim Ulong_t),
    Field ''common'' (Ptr ''struct irq_common_data''),
    Field ''chip'' (Ptr ''struct irq_chip''),
    Field ''domain'' (Ptr ''struct irq_domain''),
    When (Defined ''CONFIG_IRQ_DOMAIN_HIERARCHY'') [
      Field ''parent_data'' (Ptr ''struct irq_data'')],
    Field ''chip_data'' (Ptr ''void'')]"

definition struct_irq_desc :: ctype where
  "struct_irq_desc = Aligned (Const ''____cacheline_internodealigned_in_smp'') (Struct [
    Field ''irq_common_data'' struct_irq_common_data,
    Field ''irq_data'' struct_irq_data,
    Field ''kstat_irqs'' (Ptr ''unsigned int''),
    Field ''handle_irq'' (Ext ''irq_flow_handler_t''),
    When (Defined ''CONFIG_IRQ_PREFLOW_FASTEOI'') [
      Field ''preflow_handler'' (Ext ''irq_preflow_handler_t'')],
    Field ''action'' (Ptr ''struct irqaction''),
    Field ''status_use_accessors'' (Prim Uint_t),
    Field ''core_internal_state__do_not_mess_with_it'' (Prim Uint_t),
    Field ''depth'' (Prim Uint_t),
    Field ''wake_depth'' (Prim Uint_t),
    Field ''irq_count'' (Prim Uint_t),
    Field ''last_unhandled'' (Prim Ulong_t),
    Field ''irqs_unhandled'' (Prim Uint_t),
    Field ''threads_handled'' (Ext ''atomic_t''),
    Field ''threads_handled_last'' (Prim Int_t),
    Field ''lock'' (Ext ''raw_spinlock_t''),
    Field ''percpu_enabled'' (Ptr ''struct cpumask''),
    Field ''percpu_affinity'' (Ptr ''struct cpumask''),
    When (Defined ''CONFIG_SMP'') [
      Field ''affinity_hint'' (Ptr ''struct cpumask''),
      Field ''affinity_notify'' (Ptr ''struct irq_affinity_notify''),
      When (Defined ''CONFIG_GENERIC_PENDING_IRQ'') [
        Field ''pending_mask'' (Ext ''cpumask_var_t'')]],
    Field ''threads_oneshot'' (Prim Ulong_t),
    Field ''threads_active'' (Ext ''atomic_t''),
    Field ''wait_for_threads'' (Ext ''wait_queue_head_t''),
    When (Defined ''CONFIG_PM_SLEEP'') [
      Field ''nr_actions'' (Prim Uint_t),
      Field ''no_suspend_depth'' (Prim Uint_t),
      Field ''cond_suspend_depth'' (Prim Uint_t),
      Field ''force_resume_depth'' (Prim Uint_t)],
    When (Defined ''CONFIG_PROC_FS'') [
      Field ''dir'' (Ptr ''struct proc_dir_entry'')],
    When (Defined ''CONFIG_GENERIC_IRQ_DEBUGFS'') [
      Field ''debugfs_file'' (Ptr ''struct dentry''),
      Field ''dev_name'' (Ptr ''char'')],
    When (Defined ''CONFIG_SPARSE_IRQ'') [
      Field ''rcu'' (Ext ''struct rcu_head''),
      Field ''kobj'' (Ext ''struct kobject'')],
    Field ''request_mutex'' (Ext ''struct mutex''),
    Field ''parent_irq'' (Prim Int_t),
    Field ''owner'' (Ptr ''struct module''),
    Field ''name'' (Ptr ''char'')])"

section \<open>Properties of the layouts\<close>

text \<open>\<open>to_gpio_irq_chip\<close> of \<open>device.h\<close> and \<open>request_irq\<close> of \<open>irq.c\<close>, which passes no thread function to
  \<open>request_threaded_irq\<close> (a parameter).\<close>

definition to_gpio_irq_chip :: "env \<Rightarrow> addr \<Rightarrow> addr option" where
  "to_gpio_irq_chip E chip = container_of E chip struct_gpio_irq_chip ''chip''"

definition request_irq :: "(u32 \<Rightarrow> addr \<Rightarrow> addr \<Rightarrow> u64 \<Rightarrow> string \<Rightarrow> addr \<Rightarrow> 'k \<Rightarrow> int \<times> 'k) \<Rightarrow>
    u32 \<Rightarrow> addr \<Rightarrow> u64 \<Rightarrow> string \<Rightarrow> addr \<Rightarrow> 'k \<Rightarrow> int \<times> 'k" where
  "request_irq request_threaded_irq irq handler flags name dev =
     request_threaded_irq irq handler NULL flags name dev"

text \<open>\<open>to_gpio_irq_chip\<close> is passed the address of an interrupt chip, but the member \<open>chip\<close> it computes
  from is a pointer to one, at offset 0: it returns its argument, which is the gpio chip \<open>g\<close> that
  refers to the interrupt chip only if the two are at the same address.\<close>

theorem to_gpio_irq_chip_is_a_cast:
  "member_at E g struct_gpio_irq_chip ''chip'' = Some g \<and> to_gpio_irq_chip E chip = Some chip
   \<and> (to_gpio_irq_chip E chip = Some g \<longleftrightarrow> chip = g)"
  by (simp add: to_gpio_irq_chip_def member_at_def container_of_def struct_gpio_irq_chip_def first_member_offset)

end
