(* ===== verification/Bus_Structs.thy ===== *)
theory Bus_Structs
  imports Device_Structs
begin

text \<open>
  The structures of the bus drivers: \<open>i2c.h\<close>, \<open>spi.h\<close> with its mode flags, \<open>regmap.h\<close> and \<open>rtc.h\<close>.
\<close>

definition struct_i2c_driver :: ctype where
  "struct_i2c_driver = Struct [
    Field ''class'' (Prim Uint_t),
    Field ''attach_adapter'' Fn,
    Field ''probe'' Fn,
    Field ''remove'' Fn,
    Field ''probe_new'' Fn,
    Field ''shutdown'' Fn,
    Field ''alert'' Fn,
    Field ''command'' Fn,
    Field ''driver'' struct_device_driver,
    Field ''id_table'' (Ptr ''struct i2c_device_id''),
    Field ''detect'' Fn,
    Field ''address_list'' (Ptr ''unsigned short''),
    Field ''clients'' (Ext ''struct list_head''),
    Field ''disable_i2c_core_irq_mapping'' (Prim Bool_t)]"

definition struct_i2c_client :: ctype where
  "struct_i2c_client = Struct [
    Field ''flags'' (Prim Ushort_t),
    Field ''addr'' (Prim Ushort_t),
    Field ''name'' (Arr (Prim Char_t) (Const ''I2C_NAME_SIZE'')),
    Field ''adapter'' (Ptr ''struct i2c_adapter''),
    Field ''dev'' struct_device,
    Field ''irq'' (Prim Int_t),
    Field ''detected'' (Ext ''struct list_head''),
    When (Either (Defined ''CONFIG_I2C_SLAVE'') (Defined ''CONFIG_I2C_SLAVE_MODULE'')) [
      Field ''slave_cb'' (Ext ''i2c_slave_cb_t'')]]"

definition struct_spi_device :: ctype where
  "struct_spi_device = Struct [
    Field ''dev'' struct_device,
    Field ''controller'' (Ptr ''struct spi_controller''),
    Field ''master'' (Ptr ''struct spi_controller''),
    Field ''max_speed_hz'' (Prim U32_t),
    Field ''chip_select'' (Prim U8_t),
    Field ''bits_per_word'' (Prim U8_t),
    Field ''mode'' (Prim U16_t),
    Field ''irq'' (Prim Int_t),
    Field ''controller_state'' (Ptr ''void''),
    Field ''controller_data'' (Ptr ''void''),
    Field ''modalias'' (Arr (Prim Char_t) (Const ''SPI_NAME_SIZE'')),
    Field ''cs_gpio'' (Prim Int_t),
    Field ''statistics'' (Ext ''struct spi_statistics'')]"

definition struct_spi_driver :: ctype where
  "struct_spi_driver = Struct [
    Field ''id_table'' (Ptr ''struct spi_device_id''),
    Field ''probe'' Fn,
    Field ''remove'' Fn,
    Field ''shutdown'' Fn,
    Field ''driver'' struct_device_driver]"

definition struct_regmap_config :: ctype where
  "struct_regmap_config = Struct [
    Field ''name'' (Ptr ''char''),
    Field ''reg_bits'' (Prim Int_t),
    Field ''reg_stride'' (Prim Int_t),
    Field ''pad_bits'' (Prim Int_t),
    Field ''val_bits'' (Prim Int_t),
    Field ''writeable_reg'' Fn,
    Field ''readable_reg'' Fn,
    Field ''volatile_reg'' Fn,
    Field ''precious_reg'' Fn,
    Field ''disable_locking'' (Prim Bool_t),
    Field ''lock'' (Ext ''regmap_lock''),
    Field ''unlock'' (Ext ''regmap_unlock''),
    Field ''lock_arg'' (Ptr ''void''),
    Field ''reg_read'' Fn,
    Field ''reg_write'' Fn,
    Field ''fast_io'' (Prim Bool_t),
    Field ''max_register'' (Prim Uint_t),
    Field ''wr_table'' (Ptr ''struct regmap_access_table''),
    Field ''rd_table'' (Ptr ''struct regmap_access_table''),
    Field ''volatile_table'' (Ptr ''struct regmap_access_table''),
    Field ''precious_table'' (Ptr ''struct regmap_access_table''),
    Field ''reg_defaults'' (Ptr ''struct reg_default''),
    Field ''num_reg_defaults'' (Prim Uint_t),
    Field ''cache_type'' (Enum ''regcache_type''),
    Field ''reg_defaults_raw'' (Ptr ''void''),
    Field ''num_reg_defaults_raw'' (Prim Uint_t),
    Field ''read_flag_mask'' (Prim Ulong_t),
    Field ''write_flag_mask'' (Prim Ulong_t),
    Field ''zero_flag_mask'' (Prim Bool_t),
    Field ''use_single_rw'' (Prim Bool_t),
    Field ''can_multi_write'' (Prim Bool_t),
    Field ''reg_format_endian'' (Enum ''regmap_endian''),
    Field ''val_format_endian'' (Enum ''regmap_endian''),
    Field ''ranges'' (Ptr ''struct regmap_range_cfg''),
    Field ''num_ranges'' (Prim Uint_t),
    Field ''use_hwlock'' (Prim Bool_t),
    Field ''hwlock_id'' (Prim Uint_t),
    Field ''hwlock_mode'' (Prim Uint_t)]"

definition struct_rtc_time :: ctype where
  "struct_rtc_time = Struct [
    Field ''tm_sec'' (Prim Int_t),
    Field ''tm_min'' (Prim Int_t),
    Field ''tm_hour'' (Prim Int_t),
    Field ''tm_mday'' (Prim Int_t),
    Field ''tm_mon'' (Prim Int_t),
    Field ''tm_year'' (Prim Int_t),
    Field ''tm_wday'' (Prim Int_t),
    Field ''tm_yday'' (Prim Int_t),
    Field ''tm_isdst'' (Prim Int_t)]"

definition struct_rtc_class_ops :: ctype where
  "struct_rtc_class_ops = Struct [
    Field ''ioctl'' Fn,
    Field ''read_time'' Fn,
    Field ''set_time'' Fn,
    Field ''read_alarm'' Fn,
    Field ''set_alarm'' Fn,
    Field ''proc'' Fn,
    Field ''set_mmss64'' Fn,
    Field ''set_mmss'' Fn,
    Field ''read_callback'' Fn,
    Field ''alarm_irq_enable'' Fn,
    Field ''read_offset'' Fn,
    Field ''set_offset'' Fn]"

definition struct_rtc_device :: ctype where
  "struct_rtc_device = Struct [
    Field ''dev'' struct_device,
    Field ''owner'' (Ptr ''struct module''),
    Field ''id'' (Prim Int_t),
    Field ''ops'' (Ptr ''struct rtc_class_ops''),
    Field ''ops_lock'' (Ext ''struct mutex''),
    Field ''char_dev'' (Ext ''struct cdev''),
    Field ''flags'' (Prim Ulong_t),
    Field ''irq_data'' (Prim Ulong_t),
    Field ''irq_lock'' (Ext ''spinlock_t''),
    Field ''irq_queue'' (Ext ''wait_queue_head_t''),
    Field ''async_queue'' (Ptr ''struct fasync_struct''),
    Field ''irq_task'' (Ptr ''struct rtc_task''),
    Field ''irq_task_lock'' (Ext ''spinlock_t''),
    Field ''irq_freq'' (Prim Int_t),
    Field ''max_user_freq'' (Prim Int_t),
    Field ''timerqueue'' (Ext ''struct timerqueue_head''),
    Field ''aie_timer'' (Ext ''struct rtc_timer''),
    Field ''uie_rtctimer'' (Ext ''struct rtc_timer''),
    Field ''pie_timer'' (Ext ''struct hrtimer''),
    Field ''pie_enabled'' (Prim Int_t),
    Field ''irqwork'' (Ext ''struct work_struct''),
    Field ''uie_unsupported'' (Prim Int_t),
    Field ''set_offset_nsec'' (Prim Long_t),
    Field ''registered'' (Prim Bool_t),
    Field ''nvmem_config'' (Ptr ''struct nvmem_config''),
    Field ''nvmem'' (Ptr ''struct nvmem_device''),
    Field ''nvram_old_abi'' (Prim Bool_t),
    Field ''nvram'' (Ptr ''struct bin_attribute''),
    When (Defined ''CONFIG_RTC_INTF_DEV_UIE_EMUL'') [
      Field ''uie_task'' (Ext ''struct work_struct''),
      Field ''uie_timer'' (Ext ''struct timer_list''),
      Field ''oldsecs'' (Prim Uint_t),
      Bits ''uie_irq_active'' Uint_t 1,
      Bits ''stop_uie_polling'' Uint_t 1,
      Bits ''uie_task_active'' Uint_t 1,
      Bits ''uie_timer_active'' Uint_t 1]]"

section \<open>Properties of the layouts\<close>

text \<open>\<open>to_rtc_device\<close> of \<open>rtc.h\<close>: the device is the first member, so the two addresses are the same.\<close>

definition to_rtc_device :: "env \<Rightarrow> addr \<Rightarrow> addr option" where
  "to_rtc_device E d = container_of E d struct_rtc_device ''dev''"

lemma to_rtc_device_correct:
  "member_at E p struct_rtc_device ''dev'' = Some p" "to_rtc_device E p = Some p"
  by (simp_all add: to_rtc_device_def member_at_def container_of_def struct_rtc_device_def first_member_offset)

text \<open>The mode of an spi device: clock phase and polarity, and flags, in the 16 bits of its \<open>mode\<close>.\<close>

definition SPI_CPHA :: u16 where "SPI_CPHA = 0x01"
definition SPI_CPOL :: u16 where "SPI_CPOL = 0x02"
definition SPI_MODE_0 :: u16 where "SPI_MODE_0 = 0 OR 0"
definition SPI_MODE_1 :: u16 where "SPI_MODE_1 = 0 OR SPI_CPHA"
definition SPI_MODE_2 :: u16 where "SPI_MODE_2 = SPI_CPOL OR 0"
definition SPI_MODE_3 :: u16 where "SPI_MODE_3 = SPI_CPOL OR SPI_CPHA"
definition SPI_CS_HIGH :: u16 where "SPI_CS_HIGH = 0x04"
definition SPI_LSB_FIRST :: u16 where "SPI_LSB_FIRST = 0x08"
definition SPI_3WIRE :: u16 where "SPI_3WIRE = 0x10"
definition SPI_LOOP :: u16 where "SPI_LOOP = 0x20"
definition SPI_NO_CS :: u16 where "SPI_NO_CS = 0x40"
definition SPI_READY :: u16 where "SPI_READY = 0x80"
definition SPI_TX_DUAL :: u16 where "SPI_TX_DUAL = 0x100"
definition SPI_TX_QUAD :: u16 where "SPI_TX_QUAD = 0x200"
definition SPI_RX_DUAL :: u16 where "SPI_RX_DUAL = 0x400"
definition SPI_RX_QUAD :: u16 where "SPI_RX_QUAD = 0x800"

lemmas spi_mode_defs = SPI_CPHA_def SPI_CPOL_def SPI_MODE_0_def SPI_MODE_1_def SPI_MODE_2_def SPI_MODE_3_def

lemmas spi_flag_defs = SPI_CS_HIGH_def SPI_LSB_FIRST_def SPI_3WIRE_def SPI_LOOP_def SPI_NO_CS_def SPI_READY_def
  SPI_TX_DUAL_def SPI_TX_QUAD_def SPI_RX_DUAL_def SPI_RX_QUAD_def

text \<open>The flags are the twelve low bits, one each, and the four modes are the four settings of the two
  clock bits.\<close>

lemma spi_flags_are_bits:
  "[SPI_CPHA, SPI_CPOL, SPI_CS_HIGH, SPI_LSB_FIRST, SPI_3WIRE, SPI_LOOP, SPI_NO_CS, SPI_READY, SPI_TX_DUAL,
    SPI_TX_QUAD, SPI_RX_DUAL, SPI_RX_QUAD] = map (\<lambda>k. push_bit k 1) [0 ..< 12]"
  by (simp add: spi_mode_defs spi_flag_defs upt_rec)

lemma spi_modes_are_clock_bits:
  "map (\<lambda>m. (m AND SPI_CPOL \<noteq> 0, m AND SPI_CPHA \<noteq> 0)) [SPI_MODE_0, SPI_MODE_1, SPI_MODE_2, SPI_MODE_3] =
    [(False, False), (False, True), (True, False), (True, True)]"
  by (simp add: spi_mode_defs)

end
