(* ===== verification/Input_Structs.thy ===== *)
theory Input_Structs
  imports Device_Structs
begin

text \<open>
  The structures of the input core in \<open>input.c\<close> and \<open>input-polldev.h\<close>, and those of the
  accelerometer driver in \<open>bma150.h\<close> and \<open>bma150.c\<close>.
\<close>

definition struct_input_value :: ctype where
  "struct_input_value = Struct [
    Field ''type'' (Prim U16_t),
    Field ''code'' (Prim U16_t),
    Field ''value'' (Prim S32_t)]"

definition struct_input_dev :: ctype where
  "struct_input_dev = Struct [
    Field ''name'' (Ptr ''char''),
    Field ''phys'' (Ptr ''char''),
    Field ''uniq'' (Ptr ''char''),
    Field ''id'' (Ext ''struct input_id''),
    Field ''propbit'' (Arr (Prim Ulong_t) (Bits_to_longs (Const ''INPUT_PROP_CNT''))),
    Field ''evbit'' (Arr (Prim Ulong_t) (Bits_to_longs (Const ''EV_CNT''))),
    Field ''keybit'' (Arr (Prim Ulong_t) (Bits_to_longs (Const ''KEY_CNT''))),
    Field ''relbit'' (Arr (Prim Ulong_t) (Bits_to_longs (Const ''REL_CNT''))),
    Field ''absbit'' (Arr (Prim Ulong_t) (Bits_to_longs (Const ''ABS_CNT''))),
    Field ''mscbit'' (Arr (Prim Ulong_t) (Bits_to_longs (Const ''MSC_CNT''))),
    Field ''ledbit'' (Arr (Prim Ulong_t) (Bits_to_longs (Const ''LED_CNT''))),
    Field ''sndbit'' (Arr (Prim Ulong_t) (Bits_to_longs (Const ''SND_CNT''))),
    Field ''ffbit'' (Arr (Prim Ulong_t) (Bits_to_longs (Const ''FF_CNT''))),
    Field ''swbit'' (Arr (Prim Ulong_t) (Bits_to_longs (Const ''SW_CNT''))),
    Field ''hint_events_per_packet'' (Prim Uint_t),
    Field ''keycodemax'' (Prim Uint_t),
    Field ''keycodesize'' (Prim Uint_t),
    Field ''keycode'' (Ptr ''void''),
    Field ''setkeycode'' Fn,
    Field ''getkeycode'' Fn,
    Field ''ff'' (Ptr ''struct ff_device''),
    Field ''repeat_key'' (Prim Uint_t),
    Field ''timer'' (Ext ''struct timer_list''),
    Field ''rep'' (Arr (Prim Int_t) (Const ''REP_CNT'')),
    Field ''mt'' (Ptr ''struct input_mt''),
    Field ''absinfo'' (Ptr ''struct input_absinfo''),
    Field ''key'' (Arr (Prim Ulong_t) (Bits_to_longs (Const ''KEY_CNT''))),
    Field ''led'' (Arr (Prim Ulong_t) (Bits_to_longs (Const ''LED_CNT''))),
    Field ''snd'' (Arr (Prim Ulong_t) (Bits_to_longs (Const ''SND_CNT''))),
    Field ''sw'' (Arr (Prim Ulong_t) (Bits_to_longs (Const ''SW_CNT''))),
    Field ''open'' Fn,
    Field ''close'' Fn,
    Field ''flush'' Fn,
    Field ''event'' Fn,
    Field ''grab'' (Ptr ''struct input_handle''),
    Field ''event_lock'' (Ext ''spinlock_t''),
    Field ''mutex'' (Ext ''struct mutex''),
    Field ''users'' (Prim Uint_t),
    Field ''going_away'' (Prim Bool_t),
    Field ''dev'' struct_device,
    Field ''h_list'' (Ext ''struct list_head''),
    Field ''node'' (Ext ''struct list_head''),
    Field ''num_vals'' (Prim Uint_t),
    Field ''max_vals'' (Prim Uint_t),
    Field ''vals'' (Ptr ''struct input_value''),
    Field ''devres_managed'' (Prim Bool_t)]"

definition struct_input_polled_dev :: ctype where
  "struct_input_polled_dev = Struct [
    Field ''private'' (Ptr ''void''),
    Field ''open'' Fn,
    Field ''close'' Fn,
    Field ''poll'' Fn,
    Field ''poll_interval'' (Prim Uint_t),
    Field ''poll_interval_max'' (Prim Uint_t),
    Field ''poll_interval_min'' (Prim Uint_t),
    Field ''input'' (Ptr ''struct input_dev''),
    Field ''work'' (Ext ''struct delayed_work''),
    Field ''devres_managed'' (Prim Bool_t)]"

definition struct_bma150_cfg :: ctype where
  "struct_bma150_cfg = Struct [
    Field ''any_motion_int'' (Prim Bool_t),
    Field ''hg_int'' (Prim Bool_t),
    Field ''lg_int'' (Prim Bool_t),
    Field ''any_motion_dur'' (Prim Uchar_t),
    Field ''any_motion_thres'' (Prim Uchar_t),
    Field ''hg_hyst'' (Prim Uchar_t),
    Field ''hg_dur'' (Prim Uchar_t),
    Field ''hg_thres'' (Prim Uchar_t),
    Field ''lg_hyst'' (Prim Uchar_t),
    Field ''lg_dur'' (Prim Uchar_t),
    Field ''lg_thres'' (Prim Uchar_t),
    Field ''range'' (Prim Uchar_t),
    Field ''bandwidth'' (Prim Uchar_t)]"

definition struct_bma150_platform_data :: ctype where
  "struct_bma150_platform_data = Struct [
    Field ''cfg'' struct_bma150_cfg,
    Field ''irq_gpio_cfg'' Fn]"

definition struct_bma150_data :: ctype where
  "struct_bma150_data = Struct [
    Field ''client'' (Ptr ''struct i2c_client''),
    Field ''input_polled'' (Ptr ''struct input_polled_dev''),
    Field ''input'' (Ptr ''struct input_dev''),
    Field ''mode'' (Prim U8_t)]"

section \<open>Properties of the layouts\<close>

end
