(* ===== verification/Media_Structs.thy ===== *)
theory Media_Structs
  imports Device_Structs
begin

text \<open>
  The structures of the frame buffers of \<open>fb.h\<close>, the industrial I/O devices of \<open>iio.h\<close> and the pulse
  width modulators of \<open>pwm.h\<close>.
\<close>

definition IIO_MAX_GROUPS :: nat where "IIO_MAX_GROUPS = 6"

definition struct_fb_fix_screeninfo :: ctype where
  "struct_fb_fix_screeninfo = Struct [
    Field ''id'' (Arr (Prim Char_t) (Num 16)),
    Field ''smem_start'' (Prim Ulong_t),
    Field ''smem_len'' (Prim U32_t),
    Field ''type'' (Prim U32_t),
    Field ''type_aux'' (Prim U32_t),
    Field ''visual'' (Prim U32_t),
    Field ''xpanstep'' (Prim U16_t),
    Field ''ypanstep'' (Prim U16_t),
    Field ''ywrapstep'' (Prim U16_t),
    Field ''line_length'' (Prim U32_t),
    Field ''mmio_start'' (Prim Ulong_t),
    Field ''mmio_len'' (Prim U32_t),
    Field ''accel'' (Prim U32_t),
    Field ''capabilities'' (Prim U16_t),
    Field ''reserved'' (Arr (Prim U16_t) (Num 2))]"

definition struct_fb_var_screeninfo :: ctype where
  "struct_fb_var_screeninfo = Struct [
    Field ''xres'' (Prim U32_t),
    Field ''yres'' (Prim U32_t),
    Field ''xres_virtual'' (Prim U32_t),
    Field ''yres_virtual'' (Prim U32_t),
    Field ''xoffset'' (Prim U32_t),
    Field ''yoffset'' (Prim U32_t),
    Field ''bits_per_pixel'' (Prim U32_t),
    Field ''grayscale'' (Prim U32_t),
    Field ''red'' (Ext ''struct fb_bitfield''),
    Field ''green'' (Ext ''struct fb_bitfield''),
    Field ''blue'' (Ext ''struct fb_bitfield''),
    Field ''transp'' (Ext ''struct fb_bitfield''),
    Field ''nonstd'' (Prim U32_t),
    Field ''activate'' (Prim U32_t),
    Field ''height'' (Prim U32_t),
    Field ''width'' (Prim U32_t),
    Field ''accel_flags'' (Prim U32_t),
    Field ''pixclock'' (Prim U32_t),
    Field ''left_margin'' (Prim U32_t),
    Field ''right_margin'' (Prim U32_t),
    Field ''upper_margin'' (Prim U32_t),
    Field ''lower_margin'' (Prim U32_t),
    Field ''hsync_len'' (Prim U32_t),
    Field ''vsync_len'' (Prim U32_t),
    Field ''sync'' (Prim U32_t),
    Field ''vmode'' (Prim U32_t),
    Field ''rotate'' (Prim U32_t),
    Field ''colorspace'' (Prim U32_t),
    Field ''reserved'' (Arr (Prim U32_t) (Num 4))]"

definition struct_fb_cmap :: ctype where
  "struct_fb_cmap = Struct [
    Field ''start'' (Prim U32_t),
    Field ''len'' (Prim U32_t),
    Field ''red'' (Ptr ''__u16''),
    Field ''green'' (Ptr ''__u16''),
    Field ''blue'' (Ptr ''__u16''),
    Field ''transp'' (Ptr ''__u16'')]"

definition struct_fb_info :: ctype where
  "struct_fb_info = Struct [
    Field ''count'' (Ext ''atomic_t''),
    Field ''node'' (Prim Int_t),
    Field ''flags'' (Prim Int_t),
    Field ''fbcon_rotate_hint'' (Prim Int_t),
    Field ''lock'' (Ext ''struct mutex''),
    Field ''mm_lock'' (Ext ''struct mutex''),
    Field ''var'' struct_fb_var_screeninfo,
    Field ''fix'' struct_fb_fix_screeninfo,
    Field ''monspecs'' (Ext ''struct fb_monspecs''),
    Field ''queue'' (Ext ''struct work_struct''),
    Field ''pixmap'' (Ext ''struct fb_pixmap''),
    Field ''sprite'' (Ext ''struct fb_pixmap''),
    Field ''cmap'' struct_fb_cmap,
    Field ''modelist'' (Ext ''struct list_head''),
    Field ''mode'' (Ptr ''struct fb_videomode''),
    When (Defined ''CONFIG_FB_BACKLIGHT'') [
      Field ''bl_dev'' (Ptr ''struct backlight_device''),
      Field ''bl_curve_mutex'' (Ext ''struct mutex''),
      Field ''bl_curve'' (Arr (Prim U8_t) (Const ''FB_BACKLIGHT_LEVELS''))],
    When (Defined ''CONFIG_FB_DEFERRED_IO'') [
      Field ''deferred_work'' (Ext ''struct delayed_work''),
      Field ''fbdefio'' (Ptr ''struct fb_deferred_io'')],
    Field ''fbops'' (Ptr ''struct fb_ops''),
    Field ''device'' (Ptr ''struct device''),
    Field ''dev'' (Ptr ''struct device''),
    Field ''class_flag'' (Prim Int_t),
    When (Defined ''CONFIG_FB_TILEBLITTING'') [
      Field ''tileops'' (Ptr ''struct fb_tile_ops'')],
    Field '''' (Union [
      Field ''screen_base'' (Ptr ''char''),
      Field ''screen_buffer'' (Ptr ''char'')]),
    Field ''screen_size'' (Prim Ulong_t),
    Field ''pseudo_palette'' (Ptr ''void''),
    Field ''state'' (Prim U32_t),
    Field ''fbcon_par'' (Ptr ''void''),
    Field ''par'' (Ptr ''void''),
    Field ''apertures'' (Ptr ''struct apertures_struct''),
    Field ''skip_vt_switch'' (Prim Bool_t)]"

definition struct_fb_ops :: ctype where
  "struct_fb_ops = Struct [
    Field ''owner'' (Ptr ''struct module''),
    Field ''fb_open'' Fn,
    Field ''fb_release'' Fn,
    Field ''fb_read'' Fn,
    Field ''fb_write'' Fn,
    Field ''fb_check_var'' Fn,
    Field ''fb_set_par'' Fn,
    Field ''fb_setcolreg'' Fn,
    Field ''fb_setcmap'' Fn,
    Field ''fb_blank'' Fn,
    Field ''fb_pan_display'' Fn,
    Field ''fb_fillrect'' Fn,
    Field ''fb_copyarea'' Fn,
    Field ''fb_imageblit'' Fn,
    Field ''fb_cursor'' Fn,
    Field ''fb_sync'' Fn,
    Field ''fb_ioctl'' Fn,
    Field ''fb_compat_ioctl'' Fn,
    Field ''fb_mmap'' Fn,
    Field ''fb_get_caps'' Fn,
    Field ''fb_destroy'' Fn,
    Field ''fb_debug_enter'' Fn,
    Field ''fb_debug_leave'' Fn]"

definition struct_iio_dev :: ctype where
  "struct_iio_dev = Struct [
    Field ''id'' (Prim Int_t),
    Field ''driver_module'' (Ptr ''struct module''),
    Field ''modes'' (Prim Int_t),
    Field ''currentmode'' (Prim Int_t),
    Field ''dev'' struct_device,
    Field ''event_interface'' (Ptr ''struct iio_event_interface''),
    Field ''buffer'' (Ptr ''struct iio_buffer''),
    Field ''buffer_list'' (Ext ''struct list_head''),
    Field ''scan_bytes'' (Prim Int_t),
    Field ''mlock'' (Ext ''struct mutex''),
    Field ''available_scan_masks'' (Ptr ''unsigned long''),
    Field ''masklength'' (Prim Uint_t),
    Field ''active_scan_mask'' (Ptr ''unsigned long''),
    Field ''scan_timestamp'' (Prim Bool_t),
    Field ''scan_index_timestamp'' (Prim Uint_t),
    Field ''trig'' (Ptr ''struct iio_trigger''),
    Field ''trig_readonly'' (Prim Bool_t),
    Field ''pollfunc'' (Ptr ''struct iio_poll_func''),
    Field ''pollfunc_event'' (Ptr ''struct iio_poll_func''),
    Field ''channels'' (Ptr ''struct iio_chan_spec''),
    Field ''num_channels'' (Prim Int_t),
    Field ''channel_attr_list'' (Ext ''struct list_head''),
    Field ''chan_attr_group'' (Ext ''struct attribute_group''),
    Field ''name'' (Ptr ''char''),
    Field ''info'' (Ptr ''struct iio_info''),
    Field ''clock_id'' (Ext ''clockid_t''),
    Field ''info_exist_lock'' (Ext ''struct mutex''),
    Field ''setup_ops'' (Ptr ''struct iio_buffer_setup_ops''),
    Field ''chrdev'' (Ext ''struct cdev''),
    Field ''groups'' (Arr (Ptr ''struct attribute_group'') (Plus (Num IIO_MAX_GROUPS) (Num 1))),
    Field ''groupcounter'' (Prim Int_t),
    Field ''flags'' (Prim Ulong_t),
    When (Defined ''CONFIG_DEBUG_FS'') [
      Field ''debugfs_dentry'' (Ptr ''struct dentry''),
      Field ''cached_reg_addr'' (Prim Uint_t)]]"

definition struct_iio_buffer_setup_ops :: ctype where
  "struct_iio_buffer_setup_ops = Struct [
    Field ''preenable'' Fn,
    Field ''postenable'' Fn,
    Field ''predisable'' Fn,
    Field ''postdisable'' Fn,
    Field ''validate_scan_mask'' Fn]"

definition struct_iio_info :: ctype where
  "struct_iio_info = Struct [
    Field ''event_attrs'' (Ptr ''struct attribute_group''),
    Field ''attrs'' (Ptr ''struct attribute_group''),
    Field ''read_raw'' Fn,
    Field ''read_raw_multi'' Fn,
    Field ''read_avail'' Fn,
    Field ''write_raw'' Fn,
    Field ''write_raw_get_fmt'' Fn,
    Field ''read_event_config'' Fn,
    Field ''write_event_config'' Fn,
    Field ''read_event_value'' Fn,
    Field ''write_event_value'' Fn,
    Field ''validate_trigger'' Fn,
    Field ''update_scan_mode'' Fn,
    Field ''debugfs_reg_access'' Fn,
    Field ''of_xlate'' Fn,
    Field ''hwfifo_set_watermark'' Fn,
    Field ''hwfifo_flush_to_buffer'' Fn]"

definition struct_iio_chan_spec :: ctype where
  "struct_iio_chan_spec = Struct [
    Field ''type'' (Enum ''iio_chan_type''),
    Field ''channel'' (Prim Int_t),
    Field ''channel2'' (Prim Int_t),
    Field ''address'' (Prim Ulong_t),
    Field ''scan_index'' (Prim Int_t),
    Field ''scan_type'' (Struct [
      Field ''sign'' (Prim Char_t),
      Field ''realbits'' (Prim U8_t),
      Field ''storagebits'' (Prim U8_t),
      Field ''shift'' (Prim U8_t),
      Field ''repeat'' (Prim U8_t),
      Field ''endianness'' (Enum ''iio_endian'')]),
    Field ''info_mask_separate'' (Prim Long_t),
    Field ''info_mask_separate_available'' (Prim Long_t),
    Field ''info_mask_shared_by_type'' (Prim Long_t),
    Field ''info_mask_shared_by_type_available'' (Prim Long_t),
    Field ''info_mask_shared_by_dir'' (Prim Long_t),
    Field ''info_mask_shared_by_dir_available'' (Prim Long_t),
    Field ''info_mask_shared_by_all'' (Prim Long_t),
    Field ''info_mask_shared_by_all_available'' (Prim Long_t),
    Field ''event_spec'' (Ptr ''struct iio_event_spec''),
    Field ''num_event_specs'' (Prim Uint_t),
    Field ''ext_info'' (Ptr ''struct iio_chan_spec_ext_info''),
    Field ''extend_name'' (Ptr ''char''),
    Field ''datasheet_name'' (Ptr ''char''),
    Bits ''modified'' Uint_t 1,
    Bits ''indexed'' Uint_t 1,
    Bits ''output'' Uint_t 1,
    Bits ''differential'' Uint_t 1]"

definition struct_pwm_args :: ctype where
  "struct_pwm_args = Struct [
    Field ''period'' (Prim Uint_t),
    Field ''polarity'' (Enum ''pwm_polarity'')]"

definition struct_pwm_state :: ctype where
  "struct_pwm_state = Struct [
    Field ''period'' (Prim Uint_t),
    Field ''duty_cycle'' (Prim Uint_t),
    Field ''polarity'' (Enum ''pwm_polarity''),
    Field ''enabled'' (Prim Bool_t)]"

definition struct_pwm_device :: ctype where
  "struct_pwm_device = Struct [
    Field ''label'' (Ptr ''char''),
    Field ''flags'' (Prim Ulong_t),
    Field ''hwpwm'' (Prim Uint_t),
    Field ''pwm'' (Prim Uint_t),
    Field ''chip'' (Ptr ''struct pwm_chip''),
    Field ''chip_data'' (Ptr ''void''),
    Field ''args'' struct_pwm_args,
    Field ''state'' struct_pwm_state]"

definition struct_pwm_ops :: ctype where
  "struct_pwm_ops = Struct [
    Field ''request'' Fn,
    Field ''free'' Fn,
    Field ''config'' Fn,
    Field ''set_polarity'' Fn,
    Field ''capture'' Fn,
    Field ''enable'' Fn,
    Field ''disable'' Fn,
    Field ''apply'' Fn,
    Field ''get_state'' Fn,
    When (Defined ''CONFIG_DEBUG_FS'') [
      Field ''dbg_show'' Fn],
    Field ''owner'' (Ptr ''struct module'')]"

definition struct_pwm_chip :: ctype where
  "struct_pwm_chip = Struct [
    Field ''dev'' (Ptr ''struct device''),
    Field ''list'' (Ext ''struct list_head''),
    Field ''ops'' (Ptr ''struct pwm_ops''),
    Field ''base'' (Prim Int_t),
    Field ''npwm'' (Prim Uint_t),
    Field ''pwms'' (Ptr ''struct pwm_device''),
    Field ''of_xlate'' Fn,
    Field ''of_pwm_n_cells'' (Prim Uint_t)]"

section \<open>Properties of the layouts\<close>

text \<open>The structure of the apertures that \<open>fb_info\<close> declares inside itself: a count and a flexible array.\<close>

definition struct_aperture :: ctype where
  "struct_aperture = Struct [
    Field ''base'' (Ext ''resource_size_t''),
    Field ''size'' (Ext ''resource_size_t'')]"

definition struct_apertures_struct :: ctype where
  "struct_apertures_struct = Struct [
    Field ''count'' (Prim Uint_t),
    Field ''ranges'' (Arr struct_aperture (Num 0))]"

datatype pwm_polarity = PWM_POLARITY_NORMAL | PWM_POLARITY_INVERSED

definition FBINFO_STATE_RUNNING :: u32 where "FBINFO_STATE_RUNNING = 0"
definition FBINFO_STATE_SUSPENDED :: u32 where "FBINFO_STATE_SUSPENDED = 1"

lemma pwm_state_size: "size_of E struct_pwm_state = 16"
  by (simp add: struct_pwm_state_def layout_compute Let_def del: slots.simps layout.simps)

end
