(* ===== verification/Task_Struct.thy ===== *)
theory Task_Struct
  imports C_Layout
begin

text \<open>
  The process descriptor of \<open>sched.h\<close>, in the order of its members. The members between
  \<open>randomized_struct_fields_start\<close> and \<open>randomized_struct_fields_end\<close> are in five groups.
\<close>

definition MAX_LOCK_DEPTH :: nat where "MAX_LOCK_DEPTH = 48"

definition task_scheduling :: "member list" where
  "task_scheduling = [
    Field ''stack'' (Ptr ''void''),
    Field ''usage'' (Ext ''atomic_t''),
    Field ''flags'' (Prim Uint_t),
    Field ''ptrace'' (Prim Uint_t),
    When (Defined ''CONFIG_SMP'') [
      Field ''wake_entry'' (Ext ''struct llist_node''),
      Field ''on_cpu'' (Prim Int_t),
      When (Defined ''CONFIG_THREAD_INFO_IN_TASK'') [
        Field ''cpu'' (Prim Uint_t)],
      Field ''wakee_flips'' (Prim Uint_t),
      Field ''wakee_flip_decay_ts'' (Prim Ulong_t),
      Field ''last_wakee'' (Ptr ''struct task_struct''),
      Field ''recent_used_cpu'' (Prim Int_t),
      Field ''wake_cpu'' (Prim Int_t)],
    Field ''on_rq'' (Prim Int_t),
    Field ''prio'' (Prim Int_t),
    Field ''static_prio'' (Prim Int_t),
    Field ''normal_prio'' (Prim Int_t),
    Field ''rt_priority'' (Prim Uint_t),
    Field ''sched_class'' (Ptr ''struct sched_class''),
    Field ''se'' (Ext ''struct sched_entity''),
    Field ''rt'' (Ext ''struct sched_rt_entity''),
    When (Defined ''CONFIG_CGROUP_SCHED'') [
      Field ''sched_task_group'' (Ptr ''struct task_group'')],
    Field ''dl'' (Ext ''struct sched_dl_entity''),
    When (Defined ''CONFIG_PREEMPT_NOTIFIERS'') [
      Field ''preempt_notifiers'' (Ext ''struct hlist_head'')],
    When (Defined ''CONFIG_BLK_DEV_IO_TRACE'') [
      Field ''btrace_seq'' (Prim Uint_t)],
    Field ''policy'' (Prim Uint_t),
    Field ''nr_cpus_allowed'' (Prim Int_t),
    Field ''cpus_allowed'' (Ext ''cpumask_t''),
    When (Defined ''CONFIG_PREEMPT_RCU'') [
      Field ''rcu_read_lock_nesting'' (Prim Int_t),
      Field ''rcu_read_unlock_special'' (Ext ''union rcu_special''),
      Field ''rcu_node_entry'' (Ext ''struct list_head''),
      Field ''rcu_blocked_node'' (Ptr ''struct rcu_node'')],
    When (Defined ''CONFIG_TASKS_RCU'') [
      Field ''rcu_tasks_nvcsw'' (Prim Ulong_t),
      Field ''rcu_tasks_holdout'' (Prim U8_t),
      Field ''rcu_tasks_idx'' (Prim U8_t),
      Field ''rcu_tasks_idle_cpu'' (Prim Int_t),
      Field ''rcu_tasks_holdout_list'' (Ext ''struct list_head'')],
    Field ''sched_info'' (Ext ''struct sched_info''),
    Field ''tasks'' (Ext ''struct list_head''),
    When (Defined ''CONFIG_SMP'') [
      Field ''pushable_tasks'' (Ext ''struct plist_node''),
      Field ''pushable_dl_tasks'' (Ext ''struct rb_node'')],
    Field ''mm'' (Ptr ''struct mm_struct''),
    Field ''active_mm'' (Ptr ''struct mm_struct''),
    Field ''vmacache'' (Ext ''struct vmacache''),
    When (Defined ''SPLIT_RSS_COUNTING'') [
      Field ''rss_stat'' (Ext ''struct task_rss_stat'')],
    Field ''exit_state'' (Prim Int_t),
    Field ''exit_code'' (Prim Int_t),
    Field ''exit_signal'' (Prim Int_t),
    Field ''pdeath_signal'' (Prim Int_t),
    Field ''jobctl'' (Prim Ulong_t),
    Field ''personality'' (Prim Uint_t),
    Bits ''sched_reset_on_fork'' Uint_t 1,
    Bits ''sched_contributes_to_load'' Uint_t 1,
    Bits ''sched_migrated'' Uint_t 1,
    Bits ''sched_remote_wakeup'' Uint_t 1,
    Bits '''' Uint_t 0,
    Bits ''in_execve'' Uint_t 1,
    Bits ''in_iowait'' Uint_t 1,
    When (Not_defined ''TIF_RESTORE_SIGMASK'') [
      Bits ''restore_sigmask'' Uint_t 1],
    When (Defined ''CONFIG_MEMCG'') [
      Bits ''memcg_may_oom'' Uint_t 1,
      When (Not_defined ''CONFIG_SLOB'') [
        Bits ''memcg_kmem_skip_account'' Uint_t 1]],
    When (Defined ''CONFIG_COMPAT_BRK'') [
      Bits ''brk_randomized'' Uint_t 1],
    When (Defined ''CONFIG_CGROUPS'') [
      Bits ''no_cgroup_migration'' Uint_t 1],
    Field ''atomic_flags'' (Prim Ulong_t),
    Field ''restart_block'' (Ext ''struct restart_block'')]"

definition task_identity :: "member list" where
  "task_identity = [
    Field ''pid'' (Ext ''pid_t''),
    Field ''tgid'' (Ext ''pid_t''),
    When (Defined ''CONFIG_CC_STACKPROTECTOR'') [
      Field ''stack_canary'' (Prim Ulong_t)],
    Field ''real_parent'' (Ptr ''struct task_struct''),
    Field ''parent'' (Ptr ''struct task_struct''),
    Field ''children'' (Ext ''struct list_head''),
    Field ''sibling'' (Ext ''struct list_head''),
    Field ''group_leader'' (Ptr ''struct task_struct''),
    Field ''ptraced'' (Ext ''struct list_head''),
    Field ''ptrace_entry'' (Ext ''struct list_head''),
    Field ''pids'' (Arr (Ext ''struct pid_link'') (Const ''PIDTYPE_MAX'')),
    Field ''thread_group'' (Ext ''struct list_head''),
    Field ''thread_node'' (Ext ''struct list_head''),
    Field ''vfork_done'' (Ptr ''struct completion''),
    Field ''set_child_tid'' (Ptr ''int''),
    Field ''clear_child_tid'' (Ptr ''int''),
    Field ''utime'' (Prim U64_t),
    Field ''stime'' (Prim U64_t),
    When (Defined ''CONFIG_ARCH_HAS_SCALED_CPUTIME'') [
      Field ''utimescaled'' (Prim U64_t),
      Field ''stimescaled'' (Prim U64_t)],
    Field ''gtime'' (Prim U64_t),
    Field ''prev_cputime'' (Ext ''struct prev_cputime''),
    When (Defined ''CONFIG_VIRT_CPU_ACCOUNTING_GEN'') [
      Field ''vtime'' (Ext ''struct vtime'')],
    When (Defined ''CONFIG_NO_HZ_FULL'') [
      Field ''tick_dep_mask'' (Ext ''atomic_t'')],
    Field ''nvcsw'' (Prim Ulong_t),
    Field ''nivcsw'' (Prim Ulong_t),
    Field ''start_time'' (Prim U64_t),
    Field ''real_start_time'' (Prim U64_t),
    Field ''min_flt'' (Prim Ulong_t),
    Field ''maj_flt'' (Prim Ulong_t),
    When (Defined ''CONFIG_POSIX_TIMERS'') [
      Field ''cputime_expires'' (Ext ''struct task_cputime''),
      Field ''cpu_timers'' (Arr (Ext ''struct list_head'') (Num 3))],
    Field ''ptracer_cred'' (Ptr ''struct cred''),
    Field ''real_cred'' (Ptr ''struct cred''),
    Field ''cred'' (Ptr ''struct cred''),
    Field ''comm'' (Arr (Prim Char_t) (Const ''TASK_COMM_LEN'')),
    Field ''nameidata'' (Ptr ''struct nameidata''),
    When (Defined ''CONFIG_SYSVIPC'') [
      Field ''sysvsem'' (Ext ''struct sysv_sem''),
      Field ''sysvshm'' (Ext ''struct sysv_shm'')],
    When (Defined ''CONFIG_DETECT_HUNG_TASK'') [
      Field ''last_switch_count'' (Prim Ulong_t)],
    Field ''fs'' (Ptr ''struct fs_struct''),
    Field ''files'' (Ptr ''struct files_struct''),
    Field ''nsproxy'' (Ptr ''struct nsproxy''),
    Field ''signal'' (Ptr ''struct signal_struct''),
    Field ''sighand'' (Ptr ''struct sighand_struct''),
    Field ''blocked'' (Ext ''sigset_t''),
    Field ''real_blocked'' (Ext ''sigset_t''),
    Field ''saved_sigmask'' (Ext ''sigset_t''),
    Field ''pending'' (Ext ''struct sigpending''),
    Field ''sas_ss_sp'' (Prim Ulong_t),
    Field ''sas_ss_size'' (Prim Ulong_t),
    Field ''sas_ss_flags'' (Prim Uint_t),
    Field ''task_works'' (Ptr ''struct callback_head''),
    Field ''audit_context'' (Ptr ''struct audit_context''),
    When (Defined ''CONFIG_AUDITSYSCALL'') [
      Field ''loginuid'' (Ext ''kuid_t''),
      Field ''sessionid'' (Prim Uint_t)],
    Field ''seccomp'' (Ext ''struct seccomp'')]"

definition task_resources :: "member list" where
  "task_resources = [
    Field ''parent_exec_id'' (Prim U32_t),
    Field ''self_exec_id'' (Prim U32_t),
    Field ''alloc_lock'' (Ext ''spinlock_t''),
    Field ''pi_lock'' (Ext ''raw_spinlock_t''),
    Field ''wake_q'' (Ext ''struct wake_q_node''),
    When (Defined ''CONFIG_RT_MUTEXES'') [
      Field ''pi_waiters'' (Ext ''struct rb_root_cached''),
      Field ''pi_top_task'' (Ptr ''struct task_struct''),
      Field ''pi_blocked_on'' (Ptr ''struct rt_mutex_waiter'')],
    When (Defined ''CONFIG_DEBUG_MUTEXES'') [
      Field ''blocked_on'' (Ptr ''struct mutex_waiter'')],
    When (Defined ''CONFIG_TRACE_IRQFLAGS'') [
      Field ''irq_events'' (Prim Uint_t),
      Field ''hardirq_enable_ip'' (Prim Ulong_t),
      Field ''hardirq_disable_ip'' (Prim Ulong_t),
      Field ''hardirq_enable_event'' (Prim Uint_t),
      Field ''hardirq_disable_event'' (Prim Uint_t),
      Field ''hardirqs_enabled'' (Prim Int_t),
      Field ''hardirq_context'' (Prim Int_t),
      Field ''softirq_disable_ip'' (Prim Ulong_t),
      Field ''softirq_enable_ip'' (Prim Ulong_t),
      Field ''softirq_disable_event'' (Prim Uint_t),
      Field ''softirq_enable_event'' (Prim Uint_t),
      Field ''softirqs_enabled'' (Prim Int_t),
      Field ''softirq_context'' (Prim Int_t)],
    When (Defined ''CONFIG_LOCKDEP'') [
      Field ''curr_chain_key'' (Prim U64_t),
      Field ''lockdep_depth'' (Prim Int_t),
      Field ''lockdep_recursion'' (Prim Uint_t),
      Field ''held_locks'' (Arr (Ext ''struct held_lock'') (Num MAX_LOCK_DEPTH))],
    When (Defined ''CONFIG_UBSAN'') [
      Field ''in_ubsan'' (Prim Uint_t)],
    Field ''journal_info'' (Ptr ''void''),
    Field ''bio_list'' (Ptr ''struct bio_list''),
    When (Defined ''CONFIG_BLOCK'') [
      Field ''plug'' (Ptr ''struct blk_plug'')],
    Field ''reclaim_state'' (Ptr ''struct reclaim_state''),
    Field ''backing_dev_info'' (Ptr ''struct backing_dev_info''),
    Field ''io_context'' (Ptr ''struct io_context''),
    Field ''ptrace_message'' (Prim Ulong_t),
    Field ''last_siginfo'' (Ptr ''siginfo_t''),
    Field ''ioac'' (Ext ''struct task_io_accounting''),
    When (Defined ''CONFIG_TASK_XACCT'') [
      Field ''acct_rss_mem1'' (Prim U64_t),
      Field ''acct_vm_mem1'' (Prim U64_t),
      Field ''acct_timexpd'' (Prim U64_t)],
    When (Defined ''CONFIG_CPUSETS'') [
      Field ''mems_allowed'' (Ext ''nodemask_t''),
      Field ''mems_allowed_seq'' (Ext ''seqcount_t''),
      Field ''cpuset_mem_spread_rotor'' (Prim Int_t),
      Field ''cpuset_slab_spread_rotor'' (Prim Int_t)],
    When (Defined ''CONFIG_CGROUPS'') [
      Field ''cgroups'' (Ptr ''struct css_set''),
      Field ''cg_list'' (Ext ''struct list_head'')],
    When (Defined ''CONFIG_INTEL_RDT'') [
      Field ''closid'' (Prim U32_t),
      Field ''rmid'' (Prim U32_t)],
    When (Defined ''CONFIG_FUTEX'') [
      Field ''robust_list'' (Ptr ''struct robust_list_head''),
      When (Defined ''CONFIG_COMPAT'') [
        Field ''compat_robust_list'' (Ptr ''struct compat_robust_list_head'')],
      Field ''pi_state_list'' (Ext ''struct list_head''),
      Field ''pi_state_cache'' (Ptr ''struct futex_pi_state'')]]"

definition task_accounting :: "member list" where
  "task_accounting = [
    When (Defined ''CONFIG_PERF_EVENTS'') [
      Field ''perf_event_ctxp'' (Arr (Ptr ''struct perf_event_context'') (Const ''perf_nr_task_contexts'')),
      Field ''perf_event_mutex'' (Ext ''struct mutex''),
      Field ''perf_event_list'' (Ext ''struct list_head'')],
    When (Defined ''CONFIG_DEBUG_PREEMPT'') [
      Field ''preempt_disable_ip'' (Prim Ulong_t)],
    When (Defined ''CONFIG_NUMA'') [
      Field ''mempolicy'' (Ptr ''struct mempolicy''),
      Field ''il_prev'' (Prim Short_t),
      Field ''pref_node_fork'' (Prim Short_t)],
    When (Defined ''CONFIG_NUMA_BALANCING'') [
      Field ''numa_scan_seq'' (Prim Int_t),
      Field ''numa_scan_period'' (Prim Uint_t),
      Field ''numa_scan_period_max'' (Prim Uint_t),
      Field ''numa_preferred_nid'' (Prim Int_t),
      Field ''numa_migrate_retry'' (Prim Ulong_t),
      Field ''node_stamp'' (Prim U64_t),
      Field ''last_task_numa_placement'' (Prim U64_t),
      Field ''last_sum_exec_runtime'' (Prim U64_t),
      Field ''numa_work'' (Ext ''struct callback_head''),
      Field ''numa_entry'' (Ext ''struct list_head''),
      Field ''numa_group'' (Ptr ''struct numa_group''),
      Field ''numa_faults'' (Ptr ''unsigned long''),
      Field ''total_numa_faults'' (Prim Ulong_t),
      Field ''numa_faults_locality'' (Arr (Prim Ulong_t) (Num 3)),
      Field ''numa_pages_migrated'' (Prim Ulong_t)],
    Field ''tlb_ubc'' (Ext ''struct tlbflush_unmap_batch''),
    Field ''rcu'' (Ext ''struct rcu_head''),
    Field ''splice_pipe'' (Ptr ''struct pipe_inode_info''),
    Field ''task_frag'' (Ext ''struct page_frag''),
    When (Defined ''CONFIG_TASK_DELAY_ACCT'') [
      Field ''delays'' (Ptr ''struct task_delay_info'')],
    When (Defined ''CONFIG_FAULT_INJECTION'') [
      Field ''make_it_fail'' (Prim Int_t),
      Field ''fail_nth'' (Prim Uint_t)],
    Field ''nr_dirtied'' (Prim Int_t),
    Field ''nr_dirtied_pause'' (Prim Int_t),
    Field ''dirty_paused_when'' (Prim Ulong_t),
    When (Defined ''CONFIG_LATENCYTOP'') [
      Field ''latency_record_count'' (Prim Int_t),
      Field ''latency_record'' (Arr (Ext ''struct latency_record'') (Const ''LT_SAVECOUNT''))],
    Field ''timer_slack_ns'' (Prim U64_t),
    Field ''default_timer_slack_ns'' (Prim U64_t),
    When (Defined ''CONFIG_KASAN'') [
      Field ''kasan_depth'' (Prim Uint_t)],
    When (Defined ''CONFIG_FUNCTION_GRAPH_TRACER'') [
      Field ''curr_ret_stack'' (Prim Int_t),
      Field ''ret_stack'' (Ptr ''struct ftrace_ret_stack''),
      Field ''ftrace_timestamp'' (Prim Ullong_t),
      Field ''trace_overrun'' (Ext ''atomic_t''),
      Field ''tracing_graph_pause'' (Ext ''atomic_t'')]]"

definition task_tracing :: "member list" where
  "task_tracing = [
    When (Defined ''CONFIG_TRACING'') [
      Field ''trace'' (Prim Ulong_t),
      Field ''trace_recursion'' (Prim Ulong_t)],
    When (Defined ''CONFIG_KCOV'') [
      Field ''kcov_mode'' (Enum ''kcov_mode''),
      Field ''kcov_size'' (Prim Uint_t),
      Field ''kcov_area'' (Ptr ''void''),
      Field ''kcov'' (Ptr ''struct kcov'')],
    When (Defined ''CONFIG_MEMCG'') [
      Field ''memcg_in_oom'' (Ptr ''struct mem_cgroup''),
      Field ''memcg_oom_gfp_mask'' (Ext ''gfp_t''),
      Field ''memcg_oom_order'' (Prim Int_t),
      Field ''memcg_nr_pages_over_high'' (Prim Uint_t)],
    When (Defined ''CONFIG_UPROBES'') [
      Field ''utask'' (Ptr ''struct uprobe_task'')],
    When (Either (Defined ''CONFIG_BCACHE'') (Defined ''CONFIG_BCACHE_MODULE'')) [
      Field ''sequential_io'' (Prim Uint_t),
      Field ''sequential_io_avg'' (Prim Uint_t)],
    When (Defined ''CONFIG_DEBUG_ATOMIC_SLEEP'') [
      Field ''task_state_change'' (Prim Ulong_t)],
    Field ''pagefault_disabled'' (Prim Int_t),
    When (Defined ''CONFIG_MMU'') [
      Field ''oom_reaper_list'' (Ptr ''struct task_struct'')],
    When (Defined ''CONFIG_VMAP_STACK'') [
      Field ''stack_vm_area'' (Ptr ''struct vm_struct'')],
    When (Defined ''CONFIG_THREAD_INFO_IN_TASK'') [
      Field ''stack_refcount'' (Ext ''atomic_t'')],
    When (Defined ''CONFIG_LIVEPATCH'') [
      Field ''patch_state'' (Prim Int_t)],
    When (Defined ''CONFIG_SECURITY'') [
      Field ''security'' (Ptr ''void'')]]"

definition task_head :: "member list" where
  "task_head = [
    When (Defined ''CONFIG_THREAD_INFO_IN_TASK'') [
      Field ''thread_info'' (Ext ''struct thread_info'')],
    Field ''state'' (Prim Long_t)]"

definition struct_task_struct :: ctype where
  "struct_task_struct = Struct (task_head @ [
    Region (task_scheduling @ task_identity @ task_resources @ task_accounting @ task_tracing)] @ [
    Field ''thread'' (Ext ''struct thread_struct'')])"

section \<open>Properties of the layouts\<close>



end
