(* ===== verification/Sk_Buff.thy ===== *)
theory Sk_Buff
  imports C_Layout
begin

text \<open>
  The socket buffer of \<open>skbuff.h\<close>, in three groups of members: control, the headers that are
  copied as one block, and the buffer; and the masks of its two bit-fields that have one.
\<close>

definition skb_control :: "member list" where
  "skb_control = [
    Field '''' (Union [
      Field '''' (Struct [
        Field ''next'' (Ptr ''struct sk_buff''),
        Field ''prev'' (Ptr ''struct sk_buff''),
        Field '''' (Union [
          Field ''dev'' (Ptr ''struct net_device''),
          Field ''dev_scratch'' (Prim Ulong_t)])]),
      Field ''rbnode'' (Ext ''struct rb_node'')]),
    Field ''sk'' (Ptr ''struct sock''),
    Field '''' (Union [
      Field ''tstamp'' (Ext ''ktime_t''),
      Field ''skb_mstamp'' (Prim U64_t)]),
    Field ''cb'' (Aligned (Num 8) (Arr (Prim Char_t) (Num 48))),
    Field '''' (Union [
      Field '''' (Struct [
        Field ''_skb_refdst'' (Prim Ulong_t),
        Field ''destructor'' Fn]),
      Field ''tcp_tsorted_anchor'' (Ext ''struct list_head'')]),
    When (Defined ''CONFIG_XFRM'') [
      Field ''sp'' (Ptr ''struct sec_path'')],
    When (Either (Defined ''CONFIG_NF_CONNTRACK'') (Defined ''CONFIG_NF_CONNTRACK_MODULE'')) [
      Field ''_nfct'' (Prim Ulong_t)],
    When (Either (Defined ''CONFIG_BRIDGE_NETFILTER'') (Defined ''CONFIG_BRIDGE_NETFILTER_MODULE'')) [
      Field ''nf_bridge'' (Ptr ''struct nf_bridge_info'')],
    Field ''len'' (Prim Uint_t),
    Field ''data_len'' (Prim Uint_t),
    Field ''mac_len'' (Prim U16_t),
    Field ''hdr_len'' (Prim U16_t),
    Field ''queue_mapping'' (Prim U16_t),
    Field ''__cloned_offset'' (Arr (Prim U8_t) (Num 0)),
    Bits ''cloned'' U8_t 1,
    Bits ''nohdr'' U8_t 1,
    Bits ''fclone'' U8_t 2,
    Bits ''peeked'' U8_t 1,
    Bits ''head_frag'' U8_t 1,
    Bits ''xmit_more'' U8_t 1,
    Bits ''__unused'' U8_t 1]"

definition skb_headers :: "member list" where
  "skb_headers = [
    Field ''headers_start'' (Arr (Prim U32_t) (Num 0)),
    Field ''__pkt_type_offset'' (Arr (Prim U8_t) (Num 0)),
    Bits ''pkt_type'' U8_t 3,
    Bits ''pfmemalloc'' U8_t 1,
    Bits ''ignore_df'' U8_t 1,
    Bits ''nf_trace'' U8_t 1,
    Bits ''ip_summed'' U8_t 2,
    Bits ''ooo_okay'' U8_t 1,
    Bits ''l4_hash'' U8_t 1,
    Bits ''sw_hash'' U8_t 1,
    Bits ''wifi_acked_valid'' U8_t 1,
    Bits ''wifi_acked'' U8_t 1,
    Bits ''no_fcs'' U8_t 1,
    Bits ''encapsulation'' U8_t 1,
    Bits ''encap_hdr_csum'' U8_t 1,
    Bits ''csum_valid'' U8_t 1,
    Bits ''csum_complete_sw'' U8_t 1,
    Bits ''csum_level'' U8_t 2,
    Bits ''csum_not_inet'' U8_t 1,
    Bits ''dst_pending_confirm'' U8_t 1,
    When (Defined ''CONFIG_IPV6_NDISC_NODETYPE'') [
      Bits ''ndisc_nodetype'' U8_t 2],
    Bits ''ipvs_property'' U8_t 1,
    Bits ''inner_protocol_type'' U8_t 1,
    Bits ''remcsum_offload'' U8_t 1,
    When (Defined ''CONFIG_NET_SWITCHDEV'') [
      Bits ''offload_fwd_mark'' U8_t 1,
      Bits ''offload_mr_fwd_mark'' U8_t 1],
    When (Defined ''CONFIG_NET_CLS_ACT'') [
      Bits ''tc_skip_classify'' U8_t 1,
      Bits ''tc_at_ingress'' U8_t 1,
      Bits ''tc_redirected'' U8_t 1,
      Bits ''tc_from_ingress'' U8_t 1],
    When (Defined ''CONFIG_NET_SCHED'') [
      Field ''tc_index'' (Prim U16_t)],
    Field '''' (Union [
      Field ''csum'' (Ext ''__wsum''),
      Field '''' (Struct [
        Field ''csum_start'' (Prim U16_t),
        Field ''csum_offset'' (Prim U16_t)])]),
    Field ''priority'' (Prim U32_t),
    Field ''skb_iif'' (Prim Int_t),
    Field ''hash'' (Prim U32_t),
    Field ''vlan_proto'' (Ext ''__be16''),
    Field ''vlan_tci'' (Prim U16_t),
    When (Either (Defined ''CONFIG_NET_RX_BUSY_POLL'') (Defined ''CONFIG_XPS'')) [
      Field '''' (Union [
        Field ''napi_id'' (Prim Uint_t),
        Field ''sender_cpu'' (Prim Uint_t)])],
    When (Defined ''CONFIG_NETWORK_SECMARK'') [
      Field ''secmark'' (Prim U32_t)],
    Field '''' (Union [
      Field ''mark'' (Prim U32_t),
      Field ''reserved_tailroom'' (Prim U32_t)]),
    Field '''' (Union [
      Field ''inner_protocol'' (Ext ''__be16''),
      Field ''inner_ipproto'' (Prim U8_t)]),
    Field ''inner_transport_header'' (Prim U16_t),
    Field ''inner_network_header'' (Prim U16_t),
    Field ''inner_mac_header'' (Prim U16_t),
    Field ''protocol'' (Ext ''__be16''),
    Field ''transport_header'' (Prim U16_t),
    Field ''network_header'' (Prim U16_t),
    Field ''mac_header'' (Prim U16_t),
    Field ''headers_end'' (Arr (Prim U32_t) (Num 0))]"

definition skb_buffer :: "member list" where
  "skb_buffer = [
    Field ''tail'' (Ext ''sk_buff_data_t''),
    Field ''end'' (Ext ''sk_buff_data_t''),
    Field ''head'' (Ptr ''unsigned char''),
    Field ''data'' (Ptr ''unsigned char''),
    Field ''truesize'' (Prim Uint_t),
    Field ''users'' (Ext ''refcount_t'')]"

definition struct_sk_buff :: ctype where
  "struct_sk_buff = Struct (skb_control @ skb_headers @ skb_buffer)"

section \<open>Properties of the layouts\<close>

definition CLONED_MASK :: "bool \<Rightarrow> nat" where
  "CLONED_MASK big_endian_bitfield = (if big_endian_bitfield then push_bit 7 1 else 1)"

definition PKT_TYPE_MAX :: "bool \<Rightarrow> nat" where
  "PKT_TYPE_MAX big_endian_bitfield = (if big_endian_bitfield then push_bit 5 7 else 7)"

definition CLONED_OFFSET :: "env \<Rightarrow> nat option" where
  "CLONED_OFFSET E = offset_of E struct_sk_buff ''__cloned_offset''"

definition PKT_TYPE_OFFSET :: "env \<Rightarrow> nat option" where
  "PKT_TYPE_OFFSET E = offset_of E struct_sk_buff ''__pkt_type_offset''"

text \<open>C26: In every configuration a socket buffer starts with the two links of the list it is on, \<open>next\<close> at 0 and
  \<open>prev\<close> at 8, and the red-black tree node that can take their place is at the same address.\<close>

theorem sk_buff_starts_with_links:
  "offset_of E struct_sk_buff ''next'' = Some 0 \<and> offset_of E struct_sk_buff ''prev'' = Some 8
   \<and> offset_of E struct_sk_buff ''rbnode'' = Some 0"
proof -
  have *: "offset_of E struct_sk_buff m = Some (off div 8)"
    if "map_of (names_of E (Union [Field [] (Struct [Field ''next'' (Ptr ''struct sk_buff''),
        Field ''prev'' (Ptr ''struct sk_buff''),
        Field [] (Union [Field ''dev'' (Ptr ''struct net_device''), Field ''dev_scratch'' (Prim Ulong_t)])]),
      Field ''rbnode'' (Ext ''struct rb_node'')])) m = Some (off, len)" for m off len
    unfolding struct_sk_buff_def skb_control_def append_Cons by (rule offset_in_first [OF that])
  have "offset_of E struct_sk_buff ''next'' = Some (0 div 8)"
    by (rule *) (simp add: layout_compute del: slots.simps layout.simps)
  moreover have "offset_of E struct_sk_buff ''prev'' = Some (64 div 8)"
    by (rule *) (simp add: layout_compute del: slots.simps layout.simps)
  moreover have "offset_of E struct_sk_buff ''rbnode'' = Some (0 div 8)"
    by (rule *) (simp add: layout_compute del: slots.simps layout.simps)
  ultimately show ?thesis by simp
qed

lemma skb_control_split:
  "skb_control = take 13 skb_control @ Field ''__cloned_offset'' (Arr (Prim U8_t) (Num 0)) # Bits ''cloned'' U8_t 1
     # drop 15 skb_control"
  by (simp add: skb_control_def)

lemma skb_headers_split:
  "skb_headers = Field ''headers_start'' (Arr (Prim U32_t) (Num 0)) # Field ''__pkt_type_offset'' (Arr (Prim U8_t) (Num 0))
     # Bits ''pkt_type'' U8_t 3 # butlast (drop 3 skb_headers) @ [Field ''headers_end'' (Arr (Prim U32_t) (Num 0))]"
  by (simp add: skb_headers_def)

text \<open>Where the two groups begin and end.\<close>

abbreviation sl :: "env \<Rightarrow> member list \<Rightarrow> slot list" where
  "sl E ms \<equiv> concat (map (slots E) ms)"

lemma names_of_sk_buff:
  "names_of E struct_sk_buff = placed_names 0 (sl E skb_control)
     @ placed_names (place_end 0 (sl E skb_control)) (sl E skb_headers)
     @ placed_names (place_end 0 (sl E (skb_control @ skb_headers))) (sl E skb_buffer)"
  by (simp add: struct_sk_buff_def names_of_struct placed_names_append place_end_append)

lemma cloned_place:
  defines "pos \<equiv> \<lambda>E. align_up 8 (place_end 0 (sl E (take 13 skb_control)))"
  shows "\<exists>rest. placed_names 0 (sl E skb_control) =
    placed_names 0 (sl E (take 13 skb_control)) @ (''__cloned_offset'', pos E, 0) # (''cloned'', pos E, 1) # rest"
proof -
  let ?P = "place_end 0 (sl E (take 13 skb_control))"
  have b: "slot_place (align_up 8 ?P) (Bitslot n (Suc 0) (Suc 0)) = (align_up 8 ?P, Suc (align_up 8 ?P))" for n
    using bit_slot_place [of "align_up 8 ?P" 1] by simp
  have eq: "placed_names 0 (sl E skb_control) = placed_names 0 (sl E (take 13 skb_control
      @ Field ''__cloned_offset'' (Arr (Prim U8_t) (Num 0)) # Bits ''cloned'' U8_t 1 # drop 15 skb_control))"
    by (rule arg_cong [OF skb_control_split])
  have "\<exists>rest. placed_names 0 (sl E (take 13 skb_control
      @ Field ''__cloned_offset'' (Arr (Prim U8_t) (Num 0)) # Bits ''cloned'' U8_t 1 # drop 15 skb_control))
    = placed_names 0 (sl E (take 13 skb_control)) @ (''__cloned_offset'', pos E, 0) # (''cloned'', pos E, 1) # rest"
    by (simp add: placed_names_append zero_slot_place b pos_def del: slot_place.simps)
  then show ?thesis unfolding eq [symmetric] .
qed

lemma pkt_type_place:
  "\<exists>rest. placed_names p (sl E skb_headers) =
    (''headers_start'', align_up 32 p, 0) # (''__pkt_type_offset'', align_up 32 p, 0) # (''pkt_type'', align_up 32 p, 3) # rest"
proof -
  have a: "align_up 8 (align_up 32 p) = align_up 32 p" by (rule align_up_multiple) simp_all
  have d: "8 dvd align_up 32 p" by (rule dvd_trans [of _ 32]) simp_all
  have b: "slot_place (align_up 32 p) (Bitslot n (Suc 0) 3) = (align_up 32 p, align_up 32 p + 3)" for n
    by (rule bit_slot_place) (simp_all add: d)
  show ?thesis
    by (subst skb_headers_split)
      (simp add: zero_slot_place a b del: slot_place.simps)
qed

lemma control_names:
  "''__pkt_type_offset'' \<notin> set (concat (map member_names skb_control))"
  "''__cloned_offset'' \<notin> set (concat (map member_names (take 13 skb_control)))"
  by (simp_all add: skb_control_def)

text \<open>On either endianness the masks fit the bit-fields they are for: \<open>cloned\<close> and \<open>pkt_type\<close> start in the
  bytes \<open>CLONED_OFFSET\<close> and \<open>PKT_TYPE_OFFSET\<close>, at the first bit of the byte that is allocated, and
  the masks select exactly them there.\<close>

lemma sk_buff_masks_in_bytes:
  assumes "env_ok E"
  shows "\<exists>c p. CLONED_OFFSET E = Some c \<and> (''cloned'', 8 * c, 1) \<in> set (names_of E struct_sk_buff)
    \<and> CLONED_MASK big_endian = field_mask big_endian (8 * c) 1
    \<and> PKT_TYPE_OFFSET E = Some p \<and> (''pkt_type'', 8 * p, 3) \<in> set (names_of E struct_sk_buff)
    \<and> PKT_TYPE_MAX big_endian = field_mask big_endian (8 * p) 3"
proof -
  let ?P = "align_up 8 (place_end 0 (sl E (take 13 skb_control)))"
  let ?Q = "align_up 32 (place_end 0 (sl E skb_control))"
  obtain r1 where control: "placed_names 0 (sl E skb_control) = placed_names 0 (sl E (take 13 skb_control))
      @ (''__cloned_offset'', ?P, 0) # (''cloned'', ?P, 1) # r1"
    using cloned_place by blast
  obtain r2 where headers: "placed_names (place_end 0 (sl E skb_control)) (sl E skb_headers)
      = (''headers_start'', ?Q, 0) # (''__pkt_type_offset'', ?Q, 0) # (''pkt_type'', ?Q, 3) # r2"
    using pkt_type_place by blast
  have "8 dvd ?P" by simp
  then obtain c where c: "?P = 8 * c" by blast
  have "8 dvd ?Q" by (rule dvd_trans [of _ 32]) simp_all
  then obtain p where p: "?Q = 8 * p" by blast
  have no1: "''__cloned_offset'' \<notin> fst ` set (placed_names 0 (sl E (take 13 skb_control)))"
    by (rule placed_names_declared [OF assms control_names(2)])
  have no2: "''__pkt_type_offset'' \<notin> fst ` set (placed_names 0 (sl E skb_control))"
    by (rule placed_names_declared [OF assms control_names(1)])
  have "map_of (names_of E struct_sk_buff) ''__cloned_offset'' = Some (8 * c, 0)"
    by (simp only: names_of_sk_buff control append_assoc map_of_skip [OF no1] c) simp
  then have "CLONED_OFFSET E = Some c" by (simp add: CLONED_OFFSET_def offset_of_def)
  moreover have "map_of (names_of E struct_sk_buff) ''__pkt_type_offset'' = Some (8 * p, 0)"
    by (simp only: names_of_sk_buff headers map_of_skip [OF no2] p) simp
  then have "PKT_TYPE_OFFSET E = Some p" by (simp add: PKT_TYPE_OFFSET_def offset_of_def)
  moreover have "(''cloned'', 8 * c, 1) \<in> set (names_of E struct_sk_buff)"
    by (simp add: names_of_sk_buff control c)
  moreover have "(''pkt_type'', 8 * p, 3) \<in> set (names_of E struct_sk_buff)"
    by (simp add: names_of_sk_buff headers p)
  ultimately show ?thesis by (auto simp: CLONED_MASK_def PKT_TYPE_MAX_def field_mask_def mask_eq_exp_minus_1)
qed

text \<open>The members declared between \<open>headers_start\<close> and \<open>headers_end\<close>, and only they, lie between the two
  marks, which are on 4-byte boundaries. The six members of the buffer follow it.\<close>

lemma sk_buff_headers_are_a_block:
  assumes "env_ok E"
  shows "\<exists>A H C s e. names_of E struct_sk_buff = A @ (''headers_start'', s, 0) # H @ (''headers_end'', e, 0) # C
    \<and> list_all (\<lambda>(m, off, len). off + len \<le> s) A
    \<and> list_all (\<lambda>(m, off, len). s \<le> off \<and> off + len \<le> e) H
    \<and> list_all (\<lambda>(m, off, len). e \<le> off) C \<and> 32 dvd s \<and> 32 dvd e \<and> s \<le> e
    \<and> map fst C = [''tail'', ''end'', ''head'', ''data'', ''truesize'', ''users'']
    \<and> fst ` set A \<subseteq> set (concat (map member_names skb_control))
    \<and> fst ` set H \<subseteq> set (concat (map member_names skb_headers))"
proof -
  let ?p = "place_end 0 (sl E skb_control)"
  let ?s = "align_up 32 ?p"
  let ?inner = "butlast (tl skb_headers)"
  let ?q = "place_end ?s (sl E ?inner)"
  let ?e = "align_up 32 ?q"
  have split: "skb_headers = Field ''headers_start'' (Arr (Prim U32_t) (Num 0)) # ?inner
      @ [Field ''headers_end'' (Arr (Prim U32_t) (Num 0))]"
    by (simp add: skb_headers_def)
  have eq: "placed_names ?p (sl E skb_headers) = placed_names ?p (sl E (Field ''headers_start'' (Arr (Prim U32_t) (Num 0))
      # ?inner @ [Field ''headers_end'' (Arr (Prim U32_t) (Num 0))]))"
    by (rule arg_cong [OF split])
  have headers: "placed_names ?p (sl E skb_headers) = (''headers_start'', ?s, 0) # placed_names ?s (sl E ?inner)
      @ [(''headers_end'', ?e, 0)]"
    by (subst eq) (simp add: placed_names_append zero_slot_place del: slot_place.simps)
  have "place_end 0 (sl E (skb_control @ skb_headers)) = place_end ?p (sl E (Field ''headers_start'' (Arr (Prim U32_t) (Num 0))
      # ?inner @ [Field ''headers_end'' (Arr (Prim U32_t) (Num 0))]))"
    by (simp only: map_append concat_append place_end_append split [symmetric])
  also have "\<dots> = ?e" by (simp add: place_end_append zero_slot_place del: slot_place.simps)
  finally have tail: "place_end 0 (sl E (skb_control @ skb_headers)) = ?e" .
  have ok: "list_all slot_ok (sl E ms)" for ms by (rule members_ok [OF assms])
  have q: "?q \<le> ?e" by (simp add: align_up_ge)
  have order: "?s \<le> ?e" using place_end_ge [OF ok, of ?s ?inner] q by simp
  have A: "list_all (\<lambda>(m, off, len). off + len \<le> ?s) (placed_names 0 (sl E skb_control))"
  proof -
    have "?p \<le> ?s" by (simp add: align_up_ge)
    then show ?thesis using placed_names_bounds [OF ok, of _ _ _ 0 skb_control] by (fastforce simp: list_all_iff)
  qed
  have H: "list_all (\<lambda>(m, off, len). ?s \<le> off \<and> off + len \<le> ?e) (placed_names ?s (sl E ?inner))"
    using placed_names_bounds [OF ok, of _ _ _ ?s ?inner] q by (fastforce simp: list_all_iff)
  have C: "list_all (\<lambda>(m, off, len). ?e \<le> off) (placed_names ?e (sl E skb_buffer))"
    using placed_names_bounds [OF ok, of _ _ _ ?e skb_buffer] by (fastforce simp: list_all_iff)
  have last: "map fst (placed_names ?e (sl E skb_buffer)) = [''tail'', ''end'', ''head'', ''data'', ''truesize'', ''users'']"
    by (simp add: skb_buffer_def)
  have A': "fst ` set (placed_names 0 (sl E skb_control)) \<subseteq> set (concat (map member_names skb_control))"
    using placed_names_declared [OF assms] by blast
  have "set (concat (map member_names ?inner)) \<subseteq> set (concat (map member_names skb_headers))"
    by (subst (2) split) auto
  then have H': "fst ` set (placed_names ?s (sl E ?inner)) \<subseteq> set (concat (map member_names skb_headers))"
    using placed_names_declared [OF assms] by blast
  show ?thesis
    by (intro exI conjI) (rule trans [OF names_of_sk_buff], simp only: headers tail append_Cons append_assoc append_Nil,
      (rule A H C last align_up_dvd order A' H')+)
qed

end
