(* ===== verification/C_Memory.thy ===== *)
theory C_Memory
  imports C_Layout
begin

text \<open>
  Reading and writing the members of a structure in memory. Memory is bytes by address; the bits
  of an object are counted from its first byte on, least significant first, as the layout counts
  them. The contract of reading and writing named members is a locale; a structure in memory
  keeps it for members that do not share a union. Which members these are is decided on the
  declaration alone, and holds in every configuration and order.
\<close>

section \<open>Bits in memory\<close>

type_synonym mem = "addr \<Rightarrow> u8"

definition bit_at :: "mem \<Rightarrow> addr \<Rightarrow> nat \<Rightarrow> bool" where
  "bit_at M p k = bit (M (p + of_nat (k div 8))) (k mod 8)"

definition write_bit :: "addr \<Rightarrow> nat \<Rightarrow> bool \<Rightarrow> mem \<Rightarrow> mem" where
  "write_bit p k v M = (let a = p + of_nat (k div 8) in M(a := (if v then set_bit else unset_bit) (k mod 8) (M a)))"

definition read_bits :: "mem \<Rightarrow> addr \<Rightarrow> nat \<Rightarrow> nat \<Rightarrow> bool list" where
  "read_bits M p off len = map (\<lambda>i. bit_at M p (off + i)) [0 ..< len]"

fun write_bits :: "addr \<Rightarrow> nat \<Rightarrow> bool list \<Rightarrow> mem \<Rightarrow> mem" where
  "write_bits p off [] M = M"
| "write_bits p off (v # vs) M = write_bits p (Suc off) vs (write_bit p off v M)"

text \<open>The bits of an object that fits the address space have different places.\<close>

definition bit_limit :: nat where
  "bit_limit = 8 * 2 ^ 64"

lemma same_byte:
  assumes "j < bit_limit" and "k < bit_limit"
  shows "(of_nat (j div 8) :: addr) = of_nat (k div 8) \<longleftrightarrow> j div 8 = k div 8"
proof -
  have "j div 8 < 2 ^ LENGTH(64)" and "k div 8 < 2 ^ LENGTH(64)"
    using assms by (simp_all add: bit_limit_def)
  then show ?thesis by (simp only: word_of_nat_eq_iff take_bit_nat_eq_self)
qed

lemma bit_at_write_bit:
  assumes "j < bit_limit" and "k < bit_limit"
  shows "bit_at (write_bit p k v M) p j \<longleftrightarrow> (if j = k then v else bit_at M p j)"
proof -
  have "j = k \<longleftrightarrow> j div 8 = k div 8 \<and> j mod 8 = k mod 8" by (metis div_mult_mod_eq)
  moreover have "k mod 8 < 8" by simp
  ultimately show ?thesis
    by (auto simp: bit_at_def write_bit_def Let_def same_byte [OF assms] bit_set_bit_iff bit_unset_bit_iff)
qed

lemma bit_at_write_bits:
  assumes "off + length vs \<le> bit_limit" and "j < bit_limit"
  shows "bit_at (write_bits p off vs M) p j \<longleftrightarrow>
    (if off \<le> j \<and> j < off + length vs then vs ! (j - off) else bit_at M p j)"
  using assms(1)
proof (induction vs arbitrary: off M)
  case (Cons v vs)
  then have "bit_at (write_bits p (Suc off) vs (write_bit p off v M)) p j \<longleftrightarrow>
      (if Suc off \<le> j \<and> j < Suc off + length vs then vs ! (j - Suc off) else bit_at (write_bit p off v M) p j)"
    by simp
  then show ?case using Cons.prems bit_at_write_bit [OF assms(2), of off p v M]
    by (auto simp: nth_Cons' Suc_diff_Suc)
qed auto

lemma length_read_bits [simp]: "length (read_bits M p off len) = len"
  by (simp add: read_bits_def)

lemma read_write_same:
  "off + length vs \<le> bit_limit \<Longrightarrow> read_bits (write_bits p off vs M) p off (length vs) = vs"
  by (rule nth_equalityI) (simp_all add: read_bits_def bit_at_write_bits)

lemma read_write_apart:
  assumes "off + length vs \<le> bit_limit" and "off' + len \<le> bit_limit"
    and "off + length vs \<le> off' \<or> off' + len \<le> off"
  shows "read_bits (write_bits p off vs M) p off' len = read_bits M p off' len"
  using assms by (auto simp: read_bits_def bit_at_write_bits)

section \<open>Blocks of memory\<close>

text \<open>The addresses of a number of bytes from an address on; they wrap around at the end of the address space.\<close>

definition block :: "addr \<Rightarrow> nat \<Rightarrow> addr set" where
  "block p n = (\<lambda>i. p + of_nat i) ` {..< n}"

lemma block_Suc: "block p (Suc n) = insert p (block (p + 1) n)"
proof -
  have "block p (Suc n) = insert (p + of_nat 0) ((\<lambda>i. p + of_nat (Suc i)) ` {..< n})"
    unfolding block_def lessThan_Suc_eq_insert_0 by (simp add: image_image)
  then show ?thesis by (simp add: block_def algebra_simps)
qed

lemma in_block: "i < n \<Longrightarrow> p + of_nat i \<in> block p n"
  by (auto simp: block_def)

lemma block_part: "a + n \<le> m \<Longrightarrow> block (p + of_nat a) n \<subseteq> block p m"
proof
  fix x
  assume a: "a + n \<le> m" and "x \<in> block (p + of_nat a) n"
  then obtain i where "i < n" "x = p + of_nat (a + i)" by (auto simp: block_def add.assoc)
  then show "x \<in> block p m" using a in_block [of "a + i" m p] by simp
qed

lemma start_not_in_rest:
  assumes "Suc n \<le> 2 ^ 64"
  shows "p \<notin> block (p + 1) n"
proof
  assume "p \<in> block (p + 1) n"
  then obtain i where i: "i < n" "p = p + 1 + of_nat i" by (auto simp: block_def)
  then have "(of_nat (Suc i) :: addr) = 0" by (simp add: add.assoc)
  then have "2 ^ 64 dvd Suc i" by (simp only: word_of_nat_eq_0_iff) (simp add: dvd_def)
  then show False using i(1) assms by (auto dest: dvd_imp_le)
qed

lemma outside_block:
  assumes "s \<le> e" and "e \<le> 2 ^ 64" and "i < 2 ^ 64" and "i < s \<or> e \<le> i"
  shows "q + of_nat i \<notin> block (q + of_nat s) (e - s)"
proof
  assume "q + of_nat i \<in> block (q + of_nat s) (e - s)"
  then obtain j where j: "j < e - s" "(of_nat i :: addr) = of_nat (s + j)" by (auto simp: block_def add.assoc)
  have "i < 2 ^ LENGTH(64)" "s + j < 2 ^ LENGTH(64)" using assms j(1) by auto
  then have "i = s + j" using j(2) by (simp only: word_of_nat_eq_iff take_bit_nat_eq_self)
  then show False using assms(4) j(1) by simp
qed

lemma blocks_apart:
  assumes "n \<le> k" and "k + m \<le> 2 ^ 64"
  shows "block p n \<inter> block (p + of_nat k) m = {}"
proof -
  have "p + of_nat i \<notin> block (p + of_nat k) m" if "i < n" for i
    using outside_block [of k "k + m" i p] that assms by simp
  then show ?thesis by (auto simp: block_def [of p n])
qed

section \<open>Members that share no storage\<close>

text \<open>Two names of a declaration are separate if they are in different members of a structure; inside an
  anonymous member, or a part under a condition, that member or part decides.\<close>

fun is_field :: "member \<Rightarrow> bool" where
  "is_field (Field k T) = True" | "is_field _ = False"

fun type_sep :: "ctype \<Rightarrow> string \<Rightarrow> string \<Rightarrow> bool"
and member_sep :: "member \<Rightarrow> string \<Rightarrow> string \<Rightarrow> bool"
and list_sep :: "member list \<Rightarrow> string \<Rightarrow> string \<Rightarrow> bool" where
  "type_sep (Struct ms) m n = list_sep ms m n"
| "type_sep (Shuffled ms) m n = list_sep ms m n"
| "type_sep (Union ms) m n = list_ex (\<lambda>x. is_field x \<and> member_sep x m n) ms"
| "type_sep (Aligned k T) m n = type_sep T m n"
| "type_sep _ m n = False"
| "member_sep (Field k T) m n = (k = [] \<and> type_sep T m n)"
| "member_sep (Bits k p w) m n = False"
| "member_sep (When c ms) m n = list_sep ms m n"
| "member_sep (Region ms) m n = list_sep ms m n"
| "list_sep [] m n = False"
| "list_sep (x # xs) m n =
     (member_sep x m n \<or> list_sep xs m n
      \<or> (m \<in> set (member_names x) \<and> n \<in> set (concat (map member_names xs)))
      \<or> (n \<in> set (member_names x) \<and> m \<in> set (concat (map member_names xs))))"

definition apart :: "names \<Rightarrow> string \<Rightarrow> string \<Rightarrow> bool" where
  "apart ns m n \<longleftrightarrow> (\<forall>o1 l1 o2 l2. (m, o1, l1) \<in> set ns \<longrightarrow> (n, o2, l2) \<in> set ns \<longrightarrow> o1 + l1 \<le> o2 \<or> o2 + l2 \<le> o1)"

lemma sep_declared:
  "type_sep T m n \<Longrightarrow> m \<in> set (type_names T) \<and> n \<in> set (type_names T)"
  "member_sep x m n \<Longrightarrow> m \<in> set (member_names x) \<and> n \<in> set (member_names x)"
  "list_sep xs m n \<Longrightarrow> m \<in> set (concat (map member_names xs)) \<and> n \<in> set (concat (map member_names xs))"
  by (induction T m n and x m n and xs m n rule: type_sep_member_sep_list_sep.induct) (auto simp: list_ex_iff)

lemma apart_shift:
  assumes "apart ns m n"
  shows "apart (shift b ns) m n"
  unfolding apart_def
proof (intro allI impI)
  fix o1 l1 o2 l2
  assume "(m, o1, l1) \<in> set (shift b ns)" and "(n, o2, l2) \<in> set (shift b ns)"
  then obtain p1 p2 where "o1 = b + p1" "(m, p1, l1) \<in> set ns" "o2 = b + p2" "(n, p2, l2) \<in> set ns" by auto
  then show "o1 + l1 \<le> o2 \<or> o2 + l2 \<le> o1" using assms unfolding apart_def by fastforce
qed

text \<open>In a structure whose slots keep the two names apart each by itself, they are apart.\<close>

lemma apart_placed:
  assumes "list_all slot_ok xs" and "\<And>x. x \<in> set xs \<Longrightarrow> apart (slot_names x) m n"
  shows "apart (placed_names pos xs) m n"
  unfolding apart_def
proof (intro allI impI)
  fix o1 l1 o2 l2
  assume 1: "(m, o1, l1) \<in> set (placed_names pos xs)" and 2: "(n, o2, l2) \<in> set (placed_names pos xs)"
  show "o1 + l1 \<le> o2 \<or> o2 + l2 \<le> o1"
    using assms 1 2
  proof (induction xs arbitrary: pos)
    case (Cons x xs)
    let ?b = "fst (slot_place pos x)" and ?e = "snd (slot_place pos x)"
    have here: "?b \<le> off \<and> off + len \<le> ?e" if "(k, off, len) \<in> set (shift ?b (slot_names x))" for k off len
      using that slot_names_inside [of x _ _ _ pos] Cons.prems(1) by auto
    have rest: "?e \<le> off" if "(k, off, len) \<in> set (placed_names ?e xs)" for k off len
      using placed_names_bounds [OF _ that] Cons.prems(1) by simp
    consider "(m, o1, l1) \<in> set (shift ?b (slot_names x))" "(n, o2, l2) \<in> set (shift ?b (slot_names x))"
      | "(m, o1, l1) \<in> set (shift ?b (slot_names x))" "(n, o2, l2) \<in> set (placed_names ?e xs)"
      | "(m, o1, l1) \<in> set (placed_names ?e xs)" "(n, o2, l2) \<in> set (shift ?b (slot_names x))"
      | "(m, o1, l1) \<in> set (placed_names ?e xs)" "(n, o2, l2) \<in> set (placed_names ?e xs)"
      using Cons.prems(3,4) by auto
    then show ?case
    proof cases
      case 1
      then show ?thesis using apart_shift [OF Cons.prems(2) [of x], of ?b] unfolding apart_def by simp
    next
      case 2
      then show ?thesis using here rest by (meson order_trans)
    next
      case 3
      then show ?thesis using here rest by (meson order_trans)
    next
      case 4
      then show ?thesis using Cons.IH [of ?e] Cons.prems(1,2) by simp
    qed
  qed simp
qed

lemma apart_absent: "m \<notin> fst ` set ns \<or> n \<notin> fst ` set ns \<Longrightarrow> apart ns m n"
  unfolding apart_def by force

lemma slot_apart_absent:
  assumes "env_ok E" and "s \<in> set (slots E x)" and "m \<notin> set (member_names x) \<or> n \<notin> set (member_names x)"
  shows "apart (slot_names s) m n"
proof (rule apart_absent)
  have "fst ` set (slot_names s) \<subseteq> slots_names (slots E x)" using assms(2) by (auto simp: slots_names_def)
  also have "\<dots> \<subseteq> set (member_names x)" by (rule names_declared(2) [OF assms(1)])
  finally show "m \<notin> fst ` set (slot_names s) \<or> n \<notin> fst ` set (slot_names s)" using assms(3) by auto
qed

lemma list_apart:
  assumes E: "env_ok E"
    and "\<And>x s. x \<in> set ms \<Longrightarrow> member_sep x m n \<Longrightarrow> distinct (member_names x) \<Longrightarrow> s \<in> set (slots E x) \<Longrightarrow> apart (slot_names s) m n"
    and "list_sep ms m n" and "distinct (concat (map member_names ms))"
    and "s \<in> set (concat (map (slots E) ms))"
  shows "apart (slot_names s) m n"
  using assms(2-5)
proof (induction ms)
  case (Cons x xs)
  let ?nx = "set (member_names x)" and ?nxs = "set (concat (map member_names xs))"
  have disj: "?nx \<inter> ?nxs = {}" using Cons.prems(3) by (simp only: list.map concat.simps distinct_append)
  have absent: "apart (slot_names t) m n"
    if "t \<in> set (concat (map (slots E) xs))" and "m \<notin> ?nxs \<or> n \<notin> ?nxs" for t
  proof -
    from that(1) obtain y where "y \<in> set xs" "t \<in> set (slots E y)" by auto
    then show ?thesis using that(2) by (intro slot_apart_absent [OF E, of t y]) auto
  qed
  from Cons.prems(4) consider (here) "s \<in> set (slots E x)" | (rest) "s \<in> set (concat (map (slots E) xs))" by auto
  then show ?case
  proof cases
    case here
    show ?thesis
    proof (cases "m \<in> ?nx \<and> n \<in> ?nx")
      case True
      then have "m \<notin> ?nxs" "n \<notin> ?nxs" using disj by auto
      then have "member_sep x m n" using Cons.prems(2) sep_declared(3) [of xs m n] by auto
      then show ?thesis using Cons.prems(1) [of x s] Cons.prems(3) here by simp
    next
      case False
      then show ?thesis using slot_apart_absent [OF E here] by blast
    qed
  next
    case rest
    show ?thesis
    proof (cases "m \<in> ?nxs \<and> n \<in> ?nxs")
      case True
      then have "m \<notin> ?nx" "n \<notin> ?nx" using disj by auto
      then have "list_sep xs m n" using Cons.prems(2) sep_declared(2) [of x m n] by auto
      show ?thesis
      proof (rule Cons.IH [OF _ \<open>list_sep xs m n\<close> _ rest])
        show "distinct (concat (map member_names xs))" using Cons.prems(3) by simp
        show "apart (slot_names t) m n"
          if "y \<in> set xs" "member_sep y m n" "distinct (member_names y)" "t \<in> set (slots E y)" for y t
          using that by (intro Cons.prems(1) [of y t]) auto
      qed
    next
      case False
      then show ?thesis using absent [OF rest] by blast
    qed
  qed
qed simp

lemma distinct_part: "distinct (concat (map f xs)) \<Longrightarrow> x \<in> set xs \<Longrightarrow> distinct (f x)"
  by (induction xs) auto

lemma same_member:
  "distinct (concat (map f xs)) \<Longrightarrow> x \<in> set xs \<Longrightarrow> y \<in> set xs \<Longrightarrow> k \<in> set (f x) \<Longrightarrow> k \<in> set (f y) \<Longrightarrow> x = y"
  by (induction xs) auto

lemma field_slot: "is_field x \<Longrightarrow> \<exists>s. slots E x = [s]"
  by (cases x) (auto split: prod.splits)

text \<open>In a union only the names inside one of its members can be separate.\<close>

lemma union_apart:
  assumes E: "env_ok E"
    and "\<And>x s. x \<in> set ms \<Longrightarrow> member_sep x m n \<Longrightarrow> distinct (member_names x) \<Longrightarrow> s \<in> set (slots E x) \<Longrightarrow> apart (slot_names s) m n"
    and x: "x \<in> set ms" "is_field x" "member_sep x m n" and d: "distinct (concat (map member_names ms))"
  shows "apart (concat (map slot_names (concat (map (slots E) ms)))) m n"
  unfolding apart_def
proof (intro allI impI)
  have own: "s \<in> set (slots E x)"
    if s: "s \<in> set (concat (map (slots E) ms))" "k \<in> fst ` set (slot_names s)" "k \<in> {m, n}" for s k
  proof -
    from s(1) obtain y where y: "y \<in> set ms" "s \<in> set (slots E y)" by auto
    have "k \<in> set (member_names y)" using names_declared(2) [OF E, of y] y(2) s(2) by (auto simp: slots_names_def)
    moreover have "k \<in> set (member_names x)" using sep_declared(2) [OF x(3)] s(3) by auto
    ultimately have "y = x" using same_member [OF d y(1) x(1)] by blast
    then show ?thesis using y(2) by simp
  qed
  fix o1 l1 o2 l2
  assume "(m, o1, l1) \<in> set (concat (map slot_names (concat (map (slots E) ms))))"
    and "(n, o2, l2) \<in> set (concat (map slot_names (concat (map (slots E) ms))))"
  then obtain s1 s2 where s1: "s1 \<in> set (concat (map (slots E) ms))" "(m, o1, l1) \<in> set (slot_names s1)"
    and s2: "s2 \<in> set (concat (map (slots E) ms))" "(n, o2, l2) \<in> set (slot_names s2)"
    unfolding set_concat set_map by blast
  have "s1 \<in> set (slots E x)" "s2 \<in> set (slots E x)"
    using own [OF s1(1), of m] own [OF s2(1), of n] s1(2) s2(2) by force+
  moreover from this have "s1 = s2" using field_slot [OF x(2), of E] by auto
  moreover have "distinct (member_names x)" using distinct_part [OF d x(1)] .
  ultimately show "o1 + l1 \<le> o2 \<or> o2 + l2 \<le> o1" using assms(2) [OF x(1,3), of s1] s1(2) s2(2) unfolding apart_def by blast
qed

lemma struct_apart:
  assumes "env_ok E" and "list_all slot_ok xs" and "\<And>s. s \<in> set xs \<Longrightarrow> apart (slot_names s) m n"
  shows "apart (snd (snd (struct_layout xs))) m n"
  using apart_placed [OF assms(2,3), of 0] by (simp add: struct_layout_def placed_names_def)

text \<open>So separate names are apart, in every environment.\<close>

lemma layout_apart:
  assumes E: "env_ok E"
  shows "type_sep T m n \<Longrightarrow> distinct (type_names T) \<Longrightarrow> apart (snd (snd (layout E T))) m n"
    and "member_sep x m n \<Longrightarrow> distinct (member_names x) \<Longrightarrow> s \<in> set (slots E x) \<Longrightarrow> apart (slot_names s) m n"
proof (induction E\<equiv>E T and E\<equiv>E x arbitrary: and s rule: layout_slots.induct)
  case (7 ms)
  then show ?case using list_apart [OF E, of ms m n] by (auto intro!: struct_apart [OF E] members_ok [OF E])
next
  case (8 ms)
  let ?xs = "concat (map (slots E) ms)"
  have "list_all slot_ok (shuffle E ?xs)" using members_ok [OF E, of ms] set_shuffle [OF E] by (auto simp: list_all_iff)
  moreover have "apart (slot_names t) m n" if "t \<in> set ?xs" for t
    using list_apart [OF E, of ms m n t] 8 that by auto
  ultimately show ?case
    using members_ok [OF E, of ms] set_shuffle [OF E] by (auto simp: Let_def intro!: struct_apart [OF E])
next
  case (10 k T)
  then show ?case by (cases "layout E T") auto
next
  case (11 k T)
  then show ?case by (cases "layout E T") (auto split: if_splits)
next
  case (13 c ms)
  then show ?case using list_apart [OF E, of ms m n s] by (auto split: if_splits)
next
  case (9 ms)
  then obtain x where "x \<in> set ms" "is_field x" "member_sep x m n" by (auto simp: list_ex_iff)
  then show ?case using union_apart [OF E, of ms m n x] 9 by (simp add: union_layout_def)
next
  case (14 ms)
  let ?xs = "concat (map (slots E) ms)"
  have ap: "apart (slot_names t) m n" if "t \<in> set ?xs" for t
    using list_apart [OF E, of ms m n t] 14 that by auto
  show ?case
  proof (cases "randomize E")
    case True
    obtain s' a ns where l: "struct_layout (shuffle E ?xs) = (s', a, ns)" using prod_cases3 by blast
    have "list_all slot_ok (shuffle E ?xs)" using members_ok [OF E, of ms] set_shuffle [OF E] by (auto simp: list_all_iff)
    then have "apart ns m n" using struct_apart [OF E, of "shuffle E ?xs"] ap set_shuffle [OF E] by (simp add: l)
    then show ?thesis using 14(4) True by (simp add: Let_def l)
  next
    case False
    then show ?thesis using 14(4) ap by (simp add: Let_def)
  qed
qed auto

lemma apart_sym: "apart ns m n \<Longrightarrow> apart ns n m"
  unfolding apart_def by blast

section \<open>Names in every configuration\<close>

text \<open>The names a declaration has in a configuration are among those it can have, each as often.\<close>

definition slots_mset :: "slot list \<Rightarrow> string multiset" where
  "slots_mset xs = sum_mset (image_mset (\<lambda>x. mset (map fst (slot_names x))) (mset xs))"

lemma slots_mset_simps [simp]:
  "slots_mset [] = {#}" "slots_mset (x # xs) = mset (map fst (slot_names x)) + slots_mset xs"
  "slots_mset (xs @ ys) = slots_mset xs + slots_mset ys"
  by (simp_all add: slots_mset_def)

lemma fst_shift [simp]: "map fst (shift b ns) = map fst ns"
  by (simp add: shift_def case_prod_unfold)

lemma mset_placed: "mset (map fst (placed_names pos xs)) = slots_mset xs"
  by (induction xs arbitrary: pos) (simp_all flip: mset_map)

lemma mset_layouts:
  "mset (map fst (snd (snd (struct_layout xs)))) = slots_mset xs"
  "mset (map fst (snd (snd (union_layout xs)))) = slots_mset xs"
proof -
  show "mset (map fst (snd (snd (struct_layout xs)))) = slots_mset xs"
    using mset_placed [of 0 xs] by (simp add: struct_layout_def placed_names_def)
  show "mset (map fst (snd (snd (union_layout xs)))) = slots_mset xs"
    unfolding union_layout_def by (induction xs) simp_all
qed

lemma slots_mset_shuffle: "env_ok E \<Longrightarrow> slots_mset (shuffle E xs) = slots_mset xs"
  by (simp add: slots_mset_def env_ok_def)

lemma slots_mset_members:
  "(\<And>m. m \<in> set ms \<Longrightarrow> slots_mset (slots E m) \<subseteq># mset (member_names m)) \<Longrightarrow>
    slots_mset (concat (map (slots E) ms)) \<subseteq># mset (concat (map member_names ms))"
  by (induction ms) (auto intro: subset_mset.add_mono)

lemma names_counted:
  assumes E: "env_ok E"
  shows "mset (map fst (snd (snd (layout E T)))) \<subseteq># mset (type_names T)"
    and "slots_mset (slots E m) \<subseteq># mset (member_names m)"
proof (induction E\<equiv>E T and E\<equiv>E m rule: layout_slots.induct)
  case (7 ms)
  then show ?case using slots_mset_members [of ms E] by (simp add: mset_layouts del: mset_map)
next
  case (8 ms)
  then show ?case using slots_mset_members [of ms E]
    by (simp add: mset_layouts Let_def slots_mset_shuffle [OF E] del: mset_map)
next
  case (9 ms)
  then show ?case using slots_mset_members [of ms E] by (simp add: mset_layouts del: mset_map)
next
  case (10 k T)
  then show ?case by (cases "layout E T") simp
next
  case (11 n T)
  then show ?case by (cases "layout E T") simp
next
  case (13 c ms)
  then show ?case using slots_mset_members [of ms E] by simp
next
  case (14 ms)
  let ?xs = "concat (map (slots E) ms)"
  obtain s a ns where l: "struct_layout (shuffle E ?xs) = (s, a, ns)" using prod_cases3 by blast
  have "mset (map fst ns) = slots_mset ?xs" using mset_layouts(1) [of "shuffle E ?xs"] by (simp add: l slots_mset_shuffle [OF E])
  then show ?case using 14 slots_mset_members [of ms E] by (simp add: Let_def l del: mset_map)
qed (auto split: prod.splits)

lemma distinct_submset: "mset xs \<subseteq># mset ys \<Longrightarrow> distinct ys \<Longrightarrow> distinct xs"
proof (induction xs arbitrary: ys)
  case (Cons x xs)
  then have "x \<in> set ys" by (metis list.set_intros(1) mset_subset_eqD set_mset_mset)
  then have "mset xs \<subseteq># mset (remove1 x ys)" using Cons.prems(1) by (simp add: insert_subset_eq_iff)
  moreover from this have "x \<notin> set xs" using Cons.prems(2) by (metis mset_subset_eqD set_mset_mset distinct_remove1 in_set_remove1 set_remove1_eq DiffE singletonI)
  ultimately show ?case using Cons.IH [of "remove1 x ys"] Cons.prems(2) by simp
qed simp

lemma distinct_names: "env_ok E \<Longrightarrow> distinct (type_names T) \<Longrightarrow> distinct (map fst (names_of E T))"
  using names_counted(1) [of E T] unfolding names_of_def by (rule distinct_submset)

section \<open>Access by name\<close>

text \<open>The contract: what was put is read back, and a put leaves the members alone that are
  independent of the one it writes.\<close>

locale member_access =
  fixes get :: "'n \<Rightarrow> 's \<Rightarrow> 'v option"
    and put :: "'n \<Rightarrow> 'v \<Rightarrow> 's \<Rightarrow> 's option"
    and indep :: "'n \<Rightarrow> 'n \<Rightarrow> bool"
  assumes get_put: "put n v s = Some s' \<Longrightarrow> get n s' = Some v"
    and get_put_indep: "put n v s = Some s' \<Longrightarrow> indep n m \<Longrightarrow> get m s' = get m s"
begin

fun puts :: "('n \<times> 'v) list \<Rightarrow> 's \<Rightarrow> 's option" where
  "puts [] s = Some s"
| "puts ((n, v) # xs) s = (case put n v s of None \<Rightarrow> None | Some s' \<Rightarrow> puts xs s')"

lemma get_puts_indep: "puts xs s = Some s' \<Longrightarrow> \<forall>(n, v) \<in> set xs. indep n m \<Longrightarrow> get m s' = get m s"
proof (induction xs arbitrary: s)
  case (Cons x xs)
  obtain n v where x: "x = (n, v)" by fastforce
  from Cons.prems obtain t where "put n v s = Some t" "puts xs t = Some s'" by (auto simp: x split: option.splits)
  then show ?case using Cons.IH [of t] Cons.prems(2) get_put_indep [of n v s t m] by (simp add: x)
qed simp

text \<open>After a sequence of puts a member holds what was put into it, when the later ones are independent.\<close>

lemma get_puts:
  assumes "puts (xs @ (n, v) # ys) s = Some s'" and "\<forall>(k, w) \<in> set ys. indep k n"
  shows "get n s' = Some v"
  using assms(1)
proof (induction xs arbitrary: s)
  case Nil
  then obtain t where "put n v s = Some t" "puts ys t = Some s'" by (auto split: option.splits)
  then show ?case using get_puts_indep [of ys t s' n] get_put [of n v s t] assms(2) by simp
next
  case (Cons x xs)
  then show ?case by (cases x) (auto split: option.splits)
qed

end

text \<open>A structure at an address. A value is the bits it has in memory; a value of another length is not
  one of the member's type, and an object beyond the address space does not exist.\<close>

definition get_member :: "env \<Rightarrow> ctype \<Rightarrow> addr \<Rightarrow> string \<Rightarrow> mem \<Rightarrow> bool list option" where
  "get_member E T p m M = (case map_of (names_of E T) m of
     None \<Rightarrow> None
   | Some (off, len) \<Rightarrow> if 8 * size_of E T \<le> bit_limit then Some (read_bits M p off len) else None)"

definition set_member :: "env \<Rightarrow> ctype \<Rightarrow> addr \<Rightarrow> string \<Rightarrow> bool list \<Rightarrow> mem \<Rightarrow> mem option" where
  "set_member E T p m v M = (case map_of (names_of E T) m of
     None \<Rightarrow> None
   | Some (off, len) \<Rightarrow>
       if 8 * size_of E T \<le> bit_limit \<and> length v = len then Some (write_bits p off v M) else None)"

definition separate :: "env \<Rightarrow> ctype \<Rightarrow> string \<Rightarrow> string \<Rightarrow> bool" where
  "separate E T m n \<longleftrightarrow> distinct (type_names T) \<and> (type_sep T m n \<or> type_sep T n m)"

lemma lookup_inside:
  "env_ok E \<Longrightarrow> map_of (names_of E T) m = Some (off, len) \<Longrightarrow> off + len \<le> 8 * size_of E T"
  by (blast dest: map_of_SomeD names_inside)

lemma set_memberE:
  assumes "env_ok E" and "set_member E T p m v M = Some M'"
  obtains off where "map_of (names_of E T) m = Some (off, length v)" "off + length v \<le> 8 * size_of E T"
    "8 * size_of E T \<le> bit_limit" "M' = write_bits p off v M"
  using assms lookup_inside [of E T m] by (auto simp: set_member_def split: option.splits if_splits)

lemma separate_lookup:
  assumes "env_ok E" "separate E T m n"
    and "map_of (names_of E T) m = Some (o1, l1)" "map_of (names_of E T) n = Some (o2, l2)"
  shows "o1 + l1 \<le> o2 \<or> o2 + l2 \<le> o1"
proof -
  have "apart (names_of E T) m n"
    using assms(2) layout_apart(1) [OF assms(1)] apart_sym unfolding separate_def names_of_def by blast
  then show ?thesis using assms(3,4) unfolding apart_def by (blast dest: map_of_SomeD)
qed

lemma get_set_member:
  assumes "env_ok E" and "set_member E T p m v M = Some M'"
  shows "get_member E T p m M' = Some v"
  by (rule set_memberE [OF assms]) (simp add: get_member_def read_write_same)

lemma get_set_separate:
  assumes E: "env_ok E" and s: "set_member E T p m v M = Some M'" and sep: "separate E T m n"
  shows "get_member E T p n M' = get_member E T p n M"
proof (rule set_memberE [OF E s])
  fix off
  assume m: "map_of (names_of E T) m = Some (off, length v)" and M': "M' = write_bits p off v M"
    and le: "off + length v \<le> 8 * size_of E T" "8 * size_of E T \<le> bit_limit"
  show ?thesis
  proof (cases "map_of (names_of E T) n")
    case (Some r)
    obtain o2 l2 where n: "map_of (names_of E T) n = Some (o2, l2)" using Some by (cases r) auto
    have "read_bits M' p o2 l2 = read_bits M p o2 l2"
      unfolding M' using separate_lookup [OF E sep m n] lookup_inside [OF E n] le by (intro read_write_apart) auto
    then show ?thesis by (simp add: get_member_def n)
  qed (simp add: get_member_def)
qed

text \<open>Only the bytes of the structure change.\<close>

lemma write_bits_outside:
  "(\<And>k. off \<le> k \<Longrightarrow> k < off + length v \<Longrightarrow> a \<noteq> p + of_nat (k div 8)) \<Longrightarrow> write_bits p off v M a = M a"
proof (induction v arbitrary: off M)
  case (Cons b v)
  have "write_bits p (Suc off) v (write_bit p off b M) a = write_bit p off b M a"
    by (rule Cons.IH) (use Cons.prems in simp)
  also have "\<dots> = M a" using Cons.prems [of off] by (simp add: write_bit_def Let_def)
  finally show ?case by simp
qed simp

lemma set_member_outside:
  assumes E: "env_ok E" and s: "set_member E T p m v M = Some M'" and a: "\<And>i. i < size_of E T \<Longrightarrow> a \<noteq> p + of_nat i"
  shows "M' a = M a"
  by (rule set_memberE [OF E s]) (auto intro!: write_bits_outside a)

interpretation struct_mem: member_access
  "\<lambda>m. if env_ok E then get_member E T p m else (\<lambda>M. None)" "\<lambda>m v. if env_ok E then set_member E T p m v else (\<lambda>M. None)" "separate E T"
  for E T p
  by unfold_locales (auto simp: get_set_member get_set_separate split: if_splits)

text \<open>Without unions every two different names are separate.\<close>

fun no_union :: "ctype \<Rightarrow> bool" and no_union_member :: "member \<Rightarrow> bool" where
  "no_union (Struct ms) = list_all no_union_member ms"
| "no_union (Shuffled ms) = list_all no_union_member ms"
| "no_union (Union ms) = False"
| "no_union (Aligned k T) = no_union T"
| "no_union _ = True"
| "no_union_member (Field k T) = (k \<noteq> [] \<or> no_union T)"
| "no_union_member (Bits k p w) = True"
| "no_union_member (When c ms) = list_all no_union_member ms"
| "no_union_member (Region ms) = list_all no_union_member ms"

lemma list_no_union_sep:
  assumes "list_all no_union_member ms"
    and "\<And>x. x \<in> set ms \<Longrightarrow> no_union_member x \<Longrightarrow> m \<in> set (member_names x) \<Longrightarrow> n \<in> set (member_names x) \<Longrightarrow> member_sep x m n"
    and "m \<in> set (concat (map member_names ms))" "n \<in> set (concat (map member_names ms))"
  shows "list_sep ms m n"
  using assms by (induction ms) auto

lemma no_union_sep:
  assumes "m \<noteq> n"
  shows "no_union T \<Longrightarrow> m \<in> set (type_names T) \<Longrightarrow> n \<in> set (type_names T) \<Longrightarrow> type_sep T m n"
    and "no_union_member x \<Longrightarrow> m \<in> set (member_names x) \<Longrightarrow> n \<in> set (member_names x) \<Longrightarrow> member_sep x m n"
  by (induction T and x rule: no_union_no_union_member.induct)
    (use assms in \<open>auto intro!: list_no_union_sep split: if_splits\<close>)

end
