(* ===== verification/Struct_Access.thy ===== *)
theory Struct_Access
  imports C_Memory Fs_Structs Device_Structs Bus_Structs Input_Structs Media_Structs Task_Struct Sk_Buff
begin

text \<open>
  The structures of the repository in memory: that the compiler accepts every declaration, and
  that a write to a member disturbs no member it shares no storage with.
\<close>

section \<open>Well-formed declarations\<close>

text \<open>What the compiler asks of a declaration: the names that can be accessed in it are different, a
  bit-field is no wider than its type, one of width 0 has no name, and a member without a name is a structure
  or union that brings names of its own.\<close>

fun anonymous_ok :: "ctype \<Rightarrow> bool" where
  "anonymous_ok (Struct ms) = True" | "anonymous_ok (Union ms) = True" | "anonymous_ok (Shuffled ms) = True"
| "anonymous_ok (Aligned k T) = anonymous_ok T"
| "anonymous_ok _ = False"

fun wf_type :: "ctype \<Rightarrow> bool" and wf_member :: "member \<Rightarrow> bool" where
  "wf_type (Struct ms) = (distinct (type_names (Struct ms)) \<and> list_all wf_member ms)"
| "wf_type (Shuffled ms) = (distinct (type_names (Shuffled ms)) \<and> list_all wf_member ms)"
| "wf_type (Union ms) = (distinct (type_names (Union ms)) \<and> list_all wf_member ms)"
| "wf_type (Arr T k) = wf_type T"
| "wf_type (Aligned k T) = wf_type T"
| "wf_type _ = True"
| "wf_member (Field n T) = (wf_type T \<and> (n = [] \<longrightarrow> anonymous_ok T))"
| "wf_member (Bits n p w) = (w \<le> 8 * prim_size p \<and> (w = 0 \<longrightarrow> n = []))"
| "wf_member (When c ms) = list_all wf_member ms"
| "wf_member (Region ms) = list_all wf_member ms"

text \<open>Whether the names of a long declaration are different is decided after sorting them into classes.\<close>

fun distinct_split :: "('a \<Rightarrow> bool) list \<Rightarrow> 'a list \<Rightarrow> bool" where
  "distinct_split [] xs = distinct xs"
| "distinct_split (P # Ps) xs = (distinct_split Ps (filter P xs) \<and> distinct_split Ps (filter (\<lambda>x. \<not> P x) xs))"

lemma distinct_filters: "distinct xs \<longleftrightarrow> distinct (filter P xs) \<and> distinct (filter (\<lambda>x. \<not> P x) xs)"
proof -
  have "mset xs = mset (filter P xs @ filter (\<lambda>x. \<not> P x) xs)" by (induction xs) auto
  then have "distinct xs \<longleftrightarrow> distinct (filter P xs @ filter (\<lambda>x. \<not> P x) xs)" by (rule mset_eq_imp_distinct_iff)
  then show ?thesis by (auto simp del: distinct_filter)
qed

lemma distinct_split_iff: "distinct xs \<longleftrightarrow> distinct_split Ps xs"
proof (induction Ps arbitrary: xs)
  case (Cons P Ps)
  show ?case unfolding distinct_split.simps Cons.IH [symmetric] by (rule distinct_filters)
qed simp

fun char_at :: "nat \<Rightarrow> (char \<Rightarrow> bool) \<Rightarrow> string \<Rightarrow> bool" where
  "char_at i P [] = False"
| "char_at 0 P (c # s) = P c"
| "char_at (Suc i) P (c # s) = char_at i P s"

definition name_classes :: "(string \<Rightarrow> bool) list" where
  "name_classes = [char_at 0 digit0, char_at 0 digit1, char_at 0 digit2, char_at 0 digit3, char_at 0 digit4,
     char_at 2 digit0, char_at 2 digit1, char_at 2 digit2, char_at 2 digit3]"

named_theorems wf_structs \<open>the declarations of the repository are well-formed\<close>

lemma wf_distinct: "wf_type T \<Longrightarrow> distinct (type_names T)"
  by (induction T) auto

definition repo_structs :: "ctype list" where
  "repo_structs =
    [struct_person, struct_file_operations, struct_inode, struct_file, struct_file_handle,
     struct_resource, struct_bus_type, struct_device_driver, struct_device, struct_bus_attribute,
     struct_gpio_irq_chip, struct_gpio_chip, struct_driver_attribute, struct_class_attribute, struct_device_attribute,
     struct_platform_device, struct_platform_driver, struct_irq_chip, struct_irq_common_data, struct_irq_data,
     struct_irq_desc, struct_i2c_driver, struct_i2c_client, struct_spi_device, struct_spi_driver,
     struct_regmap_config, struct_rtc_time, struct_rtc_class_ops, struct_rtc_device, struct_input_value,
     struct_input_dev, struct_input_polled_dev, struct_bma150_cfg, struct_bma150_platform_data, struct_bma150_data,
     struct_fb_fix_screeninfo, struct_fb_var_screeninfo, struct_fb_cmap, struct_fb_info, struct_fb_ops,
     struct_iio_dev, struct_iio_buffer_setup_ops, struct_iio_info, struct_iio_chan_spec, struct_pwm_args,
     struct_pwm_state, struct_pwm_device, struct_pwm_ops, struct_pwm_chip, struct_aperture,
     struct_apertures_struct, struct_task_struct, struct_sk_buff]"

lemma wf_struct_person [wf_structs]: "wf_type struct_person"
  by code_simp

lemma wf_struct_file_operations [wf_structs]: "wf_type struct_file_operations"
  by code_simp

lemma wf_struct_inode [wf_structs]: "wf_type struct_inode"
  by code_simp

lemma wf_struct_file [wf_structs]: "wf_type struct_file"
  by code_simp

lemma wf_struct_file_handle [wf_structs]: "wf_type struct_file_handle"
  by code_simp

lemma wf_struct_resource [wf_structs]: "wf_type struct_resource"
  by code_simp

lemma wf_struct_bus_type [wf_structs]: "wf_type struct_bus_type"
  by code_simp

lemma wf_struct_device_driver [wf_structs]: "wf_type struct_device_driver"
  by code_simp

lemma wf_struct_device [wf_structs]: "wf_type struct_device"
  by code_simp

lemma wf_struct_bus_attribute [wf_structs]: "wf_type struct_bus_attribute"
  by code_simp

lemma wf_struct_gpio_irq_chip [wf_structs]: "wf_type struct_gpio_irq_chip"
  by code_simp

lemma wf_struct_gpio_chip [wf_structs]: "wf_type struct_gpio_chip"
  by code_simp

lemma wf_struct_driver_attribute [wf_structs]: "wf_type struct_driver_attribute"
  by code_simp

lemma wf_struct_class_attribute [wf_structs]: "wf_type struct_class_attribute"
  by code_simp

lemma wf_struct_device_attribute [wf_structs]: "wf_type struct_device_attribute"
  by code_simp

lemma wf_struct_platform_device [wf_structs]: "wf_type struct_platform_device"
  by code_simp

lemma wf_struct_platform_driver [wf_structs]: "wf_type struct_platform_driver"
  by code_simp

lemma wf_struct_irq_chip [wf_structs]: "wf_type struct_irq_chip"
  by code_simp

lemma wf_struct_irq_common_data [wf_structs]: "wf_type struct_irq_common_data"
  by code_simp

lemma wf_struct_irq_data [wf_structs]: "wf_type struct_irq_data"
  by code_simp

lemma wf_struct_irq_desc [wf_structs]: "wf_type struct_irq_desc"
  by code_simp

lemma wf_struct_i2c_driver [wf_structs]: "wf_type struct_i2c_driver"
  by code_simp

lemma wf_struct_i2c_client [wf_structs]: "wf_type struct_i2c_client"
  by code_simp

lemma wf_struct_spi_device [wf_structs]: "wf_type struct_spi_device"
  by code_simp

lemma wf_struct_spi_driver [wf_structs]: "wf_type struct_spi_driver"
  by code_simp

lemma wf_struct_regmap_config [wf_structs]: "wf_type struct_regmap_config"
  by code_simp

lemma wf_struct_rtc_time [wf_structs]: "wf_type struct_rtc_time"
  by code_simp

lemma wf_struct_rtc_class_ops [wf_structs]: "wf_type struct_rtc_class_ops"
  by code_simp

lemma wf_struct_rtc_device [wf_structs]: "wf_type struct_rtc_device"
  by code_simp

lemma wf_struct_input_value [wf_structs]: "wf_type struct_input_value"
  by code_simp

lemma wf_struct_input_dev [wf_structs]: "wf_type struct_input_dev"
  by code_simp

lemma wf_struct_input_polled_dev [wf_structs]: "wf_type struct_input_polled_dev"
  by code_simp

lemma wf_struct_bma150_cfg [wf_structs]: "wf_type struct_bma150_cfg"
  by code_simp

lemma wf_struct_bma150_platform_data [wf_structs]: "wf_type struct_bma150_platform_data"
  by code_simp

lemma wf_struct_bma150_data [wf_structs]: "wf_type struct_bma150_data"
  by code_simp

lemma wf_struct_fb_fix_screeninfo [wf_structs]: "wf_type struct_fb_fix_screeninfo"
  by code_simp

lemma wf_struct_fb_var_screeninfo [wf_structs]: "wf_type struct_fb_var_screeninfo"
  by code_simp

lemma wf_struct_fb_cmap [wf_structs]: "wf_type struct_fb_cmap"
  by code_simp

lemma wf_struct_fb_info [wf_structs]: "wf_type struct_fb_info"
  by code_simp

lemma wf_struct_fb_ops [wf_structs]: "wf_type struct_fb_ops"
  by code_simp

lemma wf_struct_iio_dev [wf_structs]: "wf_type struct_iio_dev"
  by code_simp

lemma wf_struct_iio_buffer_setup_ops [wf_structs]: "wf_type struct_iio_buffer_setup_ops"
  by code_simp

lemma wf_struct_iio_info [wf_structs]: "wf_type struct_iio_info"
  by code_simp

lemma wf_struct_iio_chan_spec [wf_structs]: "wf_type struct_iio_chan_spec"
  by code_simp

lemma wf_struct_pwm_args [wf_structs]: "wf_type struct_pwm_args"
  by code_simp

lemma wf_struct_pwm_state [wf_structs]: "wf_type struct_pwm_state"
  by code_simp

lemma wf_struct_pwm_device [wf_structs]: "wf_type struct_pwm_device"
  by code_simp

lemma wf_struct_pwm_ops [wf_structs]: "wf_type struct_pwm_ops"
  by code_simp

lemma wf_struct_pwm_chip [wf_structs]: "wf_type struct_pwm_chip"
  by code_simp

lemma wf_struct_aperture [wf_structs]: "wf_type struct_aperture"
  by code_simp

lemma wf_struct_apertures_struct [wf_structs]: "wf_type struct_apertures_struct"
  by code_simp

lemma wf_struct_task_struct [wf_structs]: "wf_type struct_task_struct"
  unfolding struct_task_struct_def wf_type.simps distinct_split_iff [of _ name_classes] by code_simp

lemma wf_struct_sk_buff [wf_structs]: "wf_type struct_sk_buff"
  by code_simp

lemma repo_structs_wf: "list_all wf_type repo_structs"
  by (simp only: repo_structs_def list.pred_inject wf_structs simp_thms)

lemma repo_struct_distinct: "T \<in> set repo_structs \<Longrightarrow> distinct (type_names T)"
  using repo_structs_wf wf_distinct by (simp add: list_all_iff)

text \<open>The compiler accepts every structure the repository declares: in every configuration, and in every
  order of the randomised members, no two members that can be accessed by name have the same one, no
  bit-field is wider than its type, and every member lies inside its structure.\<close>

theorem repo_structs_well_formed:
  assumes "env_ok E" and "T \<in> set repo_structs"
  shows "wf_type T \<and> distinct (map fst (names_of E T))
    \<and> list_all (\<lambda>(m, off, len). off + len \<le> 8 * size_of E T) (names_of E T)"
  using assms repo_structs_wf distinct_names [OF assms(1) repo_struct_distinct [OF assms(2)]] names_inside [OF assms(1)]
  by (auto simp: list_all_iff)

theorem repo_structs_well_formed_witness:
  "wf_type struct_task_struct \<and> distinct (map fst (names_of sample_env struct_task_struct))"
  using repo_structs_well_formed [OF sample_env_ok, of struct_task_struct] by (simp add: repo_structs_def)

text \<open>A write to a member of a structure is read back, and every member that is not in a union
  with it keeps its value, bit-fields of the same byte included, as does the memory outside the structure:
  for every structure of the repository, in every configuration and order.\<close>

theorem member_writes_are_private:
  assumes "env_ok E" and "T \<in> set repo_structs" and "type_sep T m n \<or> type_sep T n m"
    and "set_member E T p m v M = Some M'"
  shows "get_member E T p m M' = Some v \<and> get_member E T p n M' = get_member E T p n M
    \<and> (\<forall>a. a \<notin> block p (size_of E T) \<longrightarrow> M' a = M a)"
proof -
  have sep: "separate E T m n" using assms(3) repo_struct_distinct [OF assms(2)] by (simp add: separate_def)
  have "get_member E T p n M' = get_member E T p n M"
    using struct_mem.get_put_indep [of E T p m v M M', OF _ sep] assms(1,4) by simp
  then show ?thesis using struct_mem.get_put [of E T p m v M M'] assms(1,4) set_member_outside [OF assms(1,4)]
    by (auto simp: block_def)
qed

text \<open>In a structure without unions all members are separate. In a socket buffer two bit-fields of one byte are;
  the two names of a union are not.\<close>

lemma no_union_separate:
  assumes "T \<in> set repo_structs" and "no_union T" and "m \<in> set (type_names T)" "n \<in> set (type_names T)" "m \<noteq> n"
  shows "separate E T m n"
  using no_union_sep(1) [OF assms(5,2,3,4)] repo_struct_distinct [OF assms(1)] by (simp add: separate_def)

lemma sk_buff_sep: "type_sep struct_sk_buff ''cloned'' ''nohdr''"
  by code_simp

lemma sk_buff_no_sep: "\<not> type_sep struct_sk_buff ''mark'' ''reserved_tailroom''"
  by code_simp

lemma pwm_args_members: "names_of sample_env struct_pwm_args = [(''period'', 0, 32), (''polarity'', 32, 32)]"
  by (simp add: struct_pwm_args_def layout_compute)

text \<open>The period and the polarity of \<open>struct pwm_args\<close>.\<close>

theorem member_writes_are_private_witness:
  "\<exists>M'. set_member sample_env struct_pwm_args 16 ''period'' (replicate 32 True) (\<lambda>a. 0) = Some M'
    \<and> get_member sample_env struct_pwm_args 16 ''polarity'' M' = get_member sample_env struct_pwm_args 16 ''polarity'' (\<lambda>a. 0)"
proof -
  obtain M' where M': "set_member sample_env struct_pwm_args 16 ''period'' (replicate 32 True) (\<lambda>a. 0) = Some M'"
    by (simp add: set_member_def pwm_args_members bit_limit_def struct_pwm_args_def layout_compute)
  have "type_sep struct_pwm_args ''period'' ''polarity''" by code_simp
  then show ?thesis using member_writes_are_private [OF sample_env_ok, of struct_pwm_args "''period''" "''polarity''"] M'
    by (auto simp: repo_structs_def)
qed

end
