(* ===== verification/Skb_Memory.thy ===== *)
theory Skb_Memory
  imports C_Memory Sk_Buff
begin

text \<open>
  Socket buffers in memory: what \<open>skbuff.h\<close> promises of its marks and masks. The masks read the bit-fields
  they are for out of their bytes, and one block copy between the marks copies the headers. Bit-fields
  are allocated from the least significant bit on, as on x86-64.
\<close>

section \<open>Block copies\<close>

text \<open>\<open>memcpy\<close> of the C library on disjoint blocks: byte by byte.\<close>

fun memcpy :: "addr \<Rightarrow> addr \<Rightarrow> nat \<Rightarrow> mem \<Rightarrow> mem" where
  "memcpy dst src 0 M = M"
| "memcpy dst src (Suc n) M = memcpy (dst + 1) (src + 1) n (M(dst := M src))"

lemma memcpy_outside: "a \<notin> block dst n \<Longrightarrow> memcpy dst src n M a = M a"
  by (induction n arbitrary: dst src M) (simp_all add: block_Suc)

lemma memcpy_copies:
  assumes "n \<le> 2 ^ 64" and "block dst n \<inter> block src n = {}" and "i < n"
  shows "memcpy dst src n M (dst + of_nat i) = M (src + of_nat i)"
  using assms
proof (induction n arbitrary: dst src M i)
  case (Suc n)
  let ?M = "M(dst := M src)"
  show ?case
  proof (cases i)
    case 0
    then show ?thesis using memcpy_outside [OF start_not_in_rest [OF Suc.prems(1)], where src = "src + 1" and M = ?M] by simp
  next
    case (Suc j)
    have "memcpy (dst + 1) (src + 1) n ?M (dst + 1 + of_nat j) = ?M (src + 1 + of_nat j)"
      using Suc.prems \<open>i = Suc j\<close> by (intro Suc.IH) (auto simp: block_Suc)
    moreover have "src + 1 + of_nat j \<noteq> dst"
      using Suc.prems(2,3) \<open>i = Suc j\<close> in_block [of j n "src + 1"] by (auto simp: block_Suc)
    ultimately show ?thesis by (simp add: \<open>i = Suc j\<close> algebra_simps)
  qed
qed simp

section \<open>The headers as a block\<close>

abbreviation header_names :: "string list" where
  "header_names \<equiv> concat (map member_names skb_headers)"

text \<open>The copy of the members between the marks, as the comment at the marks describes it.\<close>

definition copy_headers :: "env \<Rightarrow> addr \<Rightarrow> addr \<Rightarrow> mem \<Rightarrow> mem option" where
  "copy_headers E new old M = do {
     s \<leftarrow> offset_of E struct_sk_buff ''headers_start'';
     e \<leftarrow> offset_of E struct_sk_buff ''headers_end'';
     Some (memcpy (new + of_nat s) (old + of_nat s) (e - s) M) }"

lemma sk_buff_names: "type_names struct_sk_buff =
    concat (map member_names skb_control) @ header_names @ concat (map member_names skb_buffer)"
  by (simp add: struct_sk_buff_def)

lemma sk_buff_distinct: "distinct (type_names struct_sk_buff)"
  by code_simp

lemma control_not_header: "set (concat (map member_names skb_control)) \<inter> set header_names = {}"
  using sk_buff_distinct unfolding sk_buff_names distinct_append set_append by blast

lemma sk_buff_lookup: "env_ok E \<Longrightarrow> (m, r) \<in> set (names_of E struct_sk_buff) \<Longrightarrow> map_of (names_of E struct_sk_buff) m = Some r"
  by (simp add: map_of_is_SomeI distinct_names sk_buff_distinct)

lemma header_bounds:
  assumes E: "env_ok E"
  obtains s e where "offset_of E struct_sk_buff ''headers_start'' = Some s"
    and "offset_of E struct_sk_buff ''headers_end'' = Some e" and "s \<le> e" and "e \<le> size_of E struct_sk_buff"
    and "\<And>m off len. map_of (names_of E struct_sk_buff) m = Some (off, len) \<Longrightarrow>
      if m \<in> set header_names then 8 * s \<le> off \<and> off + len \<le> 8 * e else off + len \<le> 8 * s \<or> 8 * e \<le> off"
proof -
  obtain A H C s' e' where n: "names_of E struct_sk_buff = A @ (''headers_start'', s', 0) # H @ (''headers_end'', e', 0) # C"
    and A: "list_all (\<lambda>(m, off, len). off + len \<le> s') A" "fst ` set A \<subseteq> set (concat (map member_names skb_control))"
    and H: "list_all (\<lambda>(m, off, len). s' \<le> off \<and> off + len \<le> e') H" "fst ` set H \<subseteq> set header_names"
    and C: "list_all (\<lambda>(m, off, len). e' \<le> off) C" "map fst C = [''tail'', ''end'', ''head'', ''data'', ''truesize'', ''users'']"
    and "32 dvd s'" "32 dvd e'" and le: "s' \<le> e'"
    using sk_buff_headers_are_a_block [OF E] by (elim exE conjE) (rule that)
  then have "8 dvd s'" "8 dvd e'" by (auto intro: dvd_trans [of 8 32])
  then obtain s e where s: "s' = 8 * s" "e' = 8 * e" by (auto elim!: dvdE)
  have "(''headers_start'', 8 * s, 0) \<in> set (names_of E struct_sk_buff)"
    and "(''headers_end'', 8 * e, 0) \<in> set (names_of E struct_sk_buff)"
    unfolding n s by simp_all
  note marks = this [THEN sk_buff_lookup [OF E]]
  show thesis
  proof (rule that)
    show "offset_of E struct_sk_buff ''headers_start'' = Some s" "offset_of E struct_sk_buff ''headers_end'' = Some e"
      by (simp_all add: offset_of_def marks)
    show "s \<le> e" using le by (simp add: s)
    show "e \<le> size_of E struct_sk_buff" using lookup_inside [OF E marks(2)] by simp
    fix m off len
    assume "map_of (names_of E struct_sk_buff) m = Some (off, len)"
    then have "(m, off, len) \<in> set (names_of E struct_sk_buff)" by (rule map_of_SomeD)
    then consider "(m, off, len) \<in> set A" | "(m, off, len) \<in> set H" | "(m, off, len) \<in> set C"
      | "m = ''headers_start''" "off = s'" "len = 0" | "m = ''headers_end''" "off = e'" "len = 0"
      unfolding n by auto
    then show "if m \<in> set header_names then 8 * s \<le> off \<and> off + len \<le> 8 * e else off + len \<le> 8 * s \<or> 8 * e \<le> off"
    proof cases
      case 1
      then have "m \<in> set (concat (map member_names skb_control))" using A(2) by force
      then have "m \<notin> set header_names" using control_not_header by blast
      then show ?thesis using 1 A(1) by (auto simp: list_all_iff s)
    next
      case 2
      then have "m \<in> set header_names" using H(2) by force
      then show ?thesis using 2 H(1) by (auto simp: list_all_iff s)
    next
      case 3
      then have "m \<in> set (map fst C)" by force
      then have "m \<notin> set header_names" unfolding C(2) by (auto simp: skb_headers_def)
      then show ?thesis using 3 C(1) by (auto simp: list_all_iff s)
    qed (use le in \<open>simp_all add: s skb_headers_def\<close>)
  qed
qed

text \<open>Whole bytes of a copied block, bit by bit.\<close>

lemma bit_at_copied:
  assumes "s \<le> e" and "e \<le> 2 ^ 64" and "block (q + of_nat s) (e - s) \<inter> block (p + of_nat s) (e - s) = {}"
    and "8 * s \<le> k" and "k < 8 * e"
  shows "bit_at (memcpy (q + of_nat s) (p + of_nat s) (e - s) M) q k \<longleftrightarrow> bit_at M p k"
proof -
  let ?i = "k div 8 - s"
  have "s \<le> k div 8" and "k div 8 < e" using assms(4,5) by auto
  then have "?i < e - s" and k: "k div 8 = s + ?i" by auto
  then have "memcpy (q + of_nat s) (p + of_nat s) (e - s) M (q + of_nat s + of_nat ?i) = M (p + of_nat s + of_nat ?i)"
    using assms(2,3) by (intro memcpy_copies) auto
  then have "memcpy (q + of_nat s) (p + of_nat s) (e - s) M (q + of_nat (k div 8)) = M (p + of_nat (k div 8))"
    by (subst (1 2) k) (simp add: add.assoc)
  then show ?thesis by (simp add: bit_at_def)
qed

text \<open>C24: one block copy from the mark \<open>headers_start\<close> to the mark \<open>headers_end\<close> gives a socket buffer every
  member declared between the marks of another one, bit-fields included, and changes no other member
  of it and nothing outside it, the other buffer included: in every configuration.\<close>

theorem headers_copied_as_a_block:
  assumes E: "env_ok E" and size: "size_of E struct_sk_buff \<le> 2 ^ 64"
    and apart: "block new (size_of E struct_sk_buff) \<inter> block old (size_of E struct_sk_buff) = {}"
  shows "\<exists>M'. copy_headers E new old M = Some M'
    \<and> (\<forall>m. get_member E struct_sk_buff new m M' =
          (if m \<in> set header_names then get_member E struct_sk_buff old m M else get_member E struct_sk_buff new m M))
    \<and> (\<forall>a. a \<notin> block new (size_of E struct_sk_buff) \<longrightarrow> M' a = M a)"
proof (rule header_bounds [OF E])
  let ?n = "size_of E struct_sk_buff"
  fix s e
  assume marks: "offset_of E struct_sk_buff ''headers_start'' = Some s" "offset_of E struct_sk_buff ''headers_end'' = Some e"
    and le: "s \<le> e" "e \<le> ?n"
    and where_: "\<And>m off len. map_of (names_of E struct_sk_buff) m = Some (off, len) \<Longrightarrow>
      if m \<in> set header_names then 8 * s \<le> off \<and> off + len \<le> 8 * e else off + len \<le> 8 * s \<or> 8 * e \<le> off"
  let ?M = "memcpy (new + of_nat s) (old + of_nat s) (e - s) M"
  have e: "e \<le> 2 ^ 64" using le(2) size by simp
  have part: "block (q + of_nat s) (e - s) \<subseteq> block q ?n" for q by (rule block_part) (use le in simp)
  have disj: "block (new + of_nat s) (e - s) \<inter> block (old + of_nat s) (e - s) = {}"
    using part [of new] part [of old] apart by blast
  have copied: "bit_at ?M new k \<longleftrightarrow> bit_at M old k" if "8 * s \<le> k" "k < 8 * e" for k
    by (rule bit_at_copied [OF le(1) e disj that])
  have kept: "bit_at ?M new k \<longleftrightarrow> bit_at M new k" if "k < 8 * s \<or> 8 * e \<le> k" "k < bit_limit" for k
  proof -
    have "new + of_nat (k div 8) \<notin> block (new + of_nat s) (e - s)"
      using that by (intro outside_block [OF le(1) e]) (auto simp: bit_limit_def)
    then show ?thesis by (simp add: bit_at_def memcpy_outside)
  qed
  have "get_member E struct_sk_buff new m ?M =
      (if m \<in> set header_names then get_member E struct_sk_buff old m M else get_member E struct_sk_buff new m M)" for m
  proof (cases "map_of (names_of E struct_sk_buff) m")
    case (Some r)
    obtain off len where r: "map_of (names_of E struct_sk_buff) m = Some (off, len)" using Some by (cases r) auto
    have "off + len \<le> bit_limit" using lookup_inside [OF E r] size by (simp add: bit_limit_def)
    then have "read_bits ?M new off len = (if m \<in> set header_names then read_bits M old off len else read_bits M new off len)"
      using where_ [OF r] copied kept by (auto simp: read_bits_def split: if_splits)
    then show ?thesis by (simp add: get_member_def r)
  qed (simp add: get_member_def)
  moreover have "?M a = M a" if "a \<notin> block new ?n" for a
    using that part [of new] by (intro memcpy_outside) blast
  moreover have "copy_headers E new old M = Some ?M" by (simp add: copy_headers_def marks)
  ultimately show ?thesis by blast
qed

section \<open>Reading bit-fields by their masks\<close>

text \<open>C25: the byte at \<open>CLONED_OFFSET\<close> under \<open>CLONED_MASK\<close> tells whether the bit-field \<open>cloned\<close> is set, and the byte
  at \<open>PKT_TYPE_OFFSET\<close> under \<open>PKT_TYPE_MAX\<close> is the value of the bit-field \<open>pkt_type\<close>. On either endianness the masks
  are those of the first bits that are allocated in these bytes.\<close>

theorem masks_read_bit_fields:
  assumes E: "env_ok E" and size: "size_of E struct_sk_buff \<le> 2 ^ 64"
  shows "\<exists>c t. CLONED_OFFSET E = Some c \<and> CLONED_MASK big_endian = field_mask big_endian (8 * c) 1
    \<and> PKT_TYPE_OFFSET E = Some t \<and> PKT_TYPE_MAX big_endian = field_mask big_endian (8 * t) 3
    \<and> get_member E struct_sk_buff p ''cloned'' M = Some [M (p + of_nat c) AND of_nat (CLONED_MASK False) \<noteq> 0]
    \<and> (\<exists>bs. get_member E struct_sk_buff p ''pkt_type'' M = Some bs
        \<and> horner_sum of_bool 2 bs = M (p + of_nat t) AND of_nat (PKT_TYPE_MAX False))"
proof -
  obtain c t where c: "CLONED_OFFSET E = Some c" "(''cloned'', 8 * c, 1) \<in> set (names_of E struct_sk_buff)"
      "CLONED_MASK big_endian = field_mask big_endian (8 * c) 1"
    and t: "PKT_TYPE_OFFSET E = Some t" "(''pkt_type'', 8 * t, 3) \<in> set (names_of E struct_sk_buff)"
      "PKT_TYPE_MAX big_endian = field_mask big_endian (8 * t) 3"
    using sk_buff_masks_in_bytes [OF E, of big_endian] by blast
  have limit: "8 * size_of E struct_sk_buff \<le> bit_limit" using size by (simp add: bit_limit_def)
  have "M (p + of_nat c) AND of_nat (CLONED_MASK False) \<noteq> 0 \<longleftrightarrow> bit (M (p + of_nat c)) 0"
    by (simp add: CLONED_MASK_def and_one_eq odd_iff_mod_2_eq_one bit_0)
  then have "get_member E struct_sk_buff p ''cloned'' M = Some [M (p + of_nat c) AND of_nat (CLONED_MASK False) \<noteq> 0]"
    using sk_buff_lookup [OF E c(2)] limit by (simp add: get_member_def read_bits_def bit_at_def)
  moreover have "get_member E struct_sk_buff p ''pkt_type'' M = Some (map (bit (M (p + of_nat t))) [0 ..< 3])"
    using sk_buff_lookup [OF E t(2)] limit by (simp add: get_member_def read_bits_def bit_at_def)
  moreover have "horner_sum of_bool 2 (map (bit (M (p + of_nat t))) [0 ..< 3]) = M (p + of_nat t) AND of_nat (PKT_TYPE_MAX False)"
    by (simp only: horner_sum_bit_eq_take_bit) (simp add: PKT_TYPE_MAX_def take_bit_eq_mask mask_eq_exp_minus_1)
  ultimately show ?thesis using c(1,3) t(1,3) by blast
qed

text \<open>The two buffers one after the other, in the sample environment.\<close>

lemma sample_sk_buff_size: "size_of sample_env struct_sk_buff = 256"
  by (simp add: struct_sk_buff_def skb_control_def skb_headers_def skb_buffer_def layout_simps slots_named slots_anonymous
    size_union size_align_aligned sample_env_simps align_up_def numeral_2_eq_2 [symmetric] del: slots.simps(1) layout.simps)

theorem headers_copied_as_a_block_witness:
  "\<exists>M'. copy_headers sample_env 0 4096 (\<lambda>a. 7) = Some M'
    \<and> get_member sample_env struct_sk_buff 0 ''ip_summed'' M' = get_member sample_env struct_sk_buff 4096 ''ip_summed'' (\<lambda>a. 7)
    \<and> get_member sample_env struct_sk_buff 0 ''cloned'' M' = get_member sample_env struct_sk_buff 0 ''cloned'' (\<lambda>a. 7)"
proof -
  have "''ip_summed'' \<in> set header_names" "''cloned'' \<notin> set header_names" by (simp_all add: skb_headers_def)
  moreover have "block 0 (size_of sample_env struct_sk_buff) \<inter> block 4096 (size_of sample_env struct_sk_buff) = {}"
    using blocks_apart [of 256 4096 256 0] by (simp add: sample_sk_buff_size)
  ultimately show ?thesis
    using headers_copied_as_a_block [OF sample_env_ok, of 0 4096 "\<lambda>a. 7"] by (auto simp: sample_sk_buff_size)
qed

theorem masks_read_bit_fields_witness:
  "\<exists>c. CLONED_OFFSET sample_env = Some c
    \<and> get_member sample_env struct_sk_buff 4096 ''cloned'' (\<lambda>a. 7) = Some [(7::u8) AND of_nat (CLONED_MASK False) \<noteq> 0]"
  using masks_read_bit_fields [OF sample_env_ok, of True 4096 "\<lambda>a. 7"] by (auto simp: sample_sk_buff_size)

end
