(* ===== verification/List_Memory.thy ===== *)
theory List_Memory
  imports Kernel_List C_Memory Media_Structs
begin

text \<open>
  The list functions of \<open>util.c\<close> on bytes: the same code, with every access to a link a load or a
  store of eight bytes, \<open>next\<close> at the address of the cell and \<open>prev\<close> after it. Which addresses hold a
  \<open>struct list_head\<close> is an argument; another address faults. They refine the functions on the heap of cells,
  and so the abstract lists. What they write is the cells and nothing else, so that the other
  members of the structures that are on the lists keep their values.
\<close>

section \<open>Loads and stores\<close>

definition load64 :: "mem \<Rightarrow> addr \<Rightarrow> addr" where
  "load64 M p = horner_sum of_bool 2 (read_bits M p 0 64)"

definition store64 :: "addr \<Rightarrow> addr \<Rightarrow> mem \<Rightarrow> mem" where
  "store64 p v M = write_bits p 0 (map (bit v) [0 ..< 64]) M"

lemma load_store_same: "load64 (store64 p v M) p = v"
proof -
  have "read_bits (store64 p v M) p 0 64 = map (bit v) [0 ..< 64]"
    using read_write_same [of 0 "map (bit v) [0 ..< 64]" p M] by (simp add: store64_def bit_limit_def)
  then show ?thesis by (simp add: load64_def horner_sum_bit_eq_take_bit take_bit_word_eq_self del: upt_rec_numeral)
qed

lemma store_outside: "a \<notin> block p 8 \<Longrightarrow> store64 p v M a = M a"
  unfolding store64_def by (intro write_bits_outside) (auto simp: block_def)

lemma load_cong:
  assumes "\<And>a. a \<in> block p 8 \<Longrightarrow> M a = M' a"
  shows "load64 M p = load64 M' p"
proof -
  have "bit_at M p k \<longleftrightarrow> bit_at M' p k" if "k < 64" for k
    using assms [OF in_block, of "k div 8"] that by (simp add: bit_at_def)
  then have "read_bits M p 0 64 = read_bits M' p 0 64" by (simp add: read_bits_def del: upt_rec_numeral)
  then show ?thesis by (simp add: load64_def)
qed

lemma load_store_apart: "block p 8 \<inter> block q 8 = {} \<Longrightarrow> load64 (store64 p v M) q = load64 M q"
  by (rule load_cong) (auto intro: store_outside)

section \<open>Cells\<close>

definition cell :: "addr \<Rightarrow> addr set" where
  "cell p = block p 16"

definition cells_apart :: "addr set \<Rightarrow> bool" where
  "cells_apart D \<longleftrightarrow> (\<forall>p \<in> D. \<forall>q \<in> D. p \<noteq> q \<longrightarrow> cell p \<inter> cell q = {})"

text \<open>The heap of cells that memory holds at the addresses \<open>D\<close>.\<close>

definition heap_of :: "addr set \<Rightarrow> mem \<Rightarrow> heap" where
  "heap_of D M p = (if p \<in> D then Some \<lparr>next_ptr = load64 M p, prev_ptr = load64 M (p + 8)\<rparr> else None)"

lemma dom_heap_of [simp]: "dom (heap_of D M) = D"
  by (auto simp: heap_of_def split: if_splits)

lemma cell_parts: "block p 8 \<subseteq> cell p" "block (p + 8) 8 \<subseteq> cell p" "block p 8 \<inter> block (p + 8) 8 = {}"
  using block_part [of 0 8 16 p] block_part [of 8 8 16 p] blocks_apart [of 8 8 8 p] by (simp_all add: cell_def)

lemma store_next:
  assumes "cells_apart D" and "p \<in> D"
  shows "heap_of D (store64 p v M) = upd_next p v (heap_of D M)"
proof
  fix q
  show "heap_of D (store64 p v M) q = upd_next p v (heap_of D M) q"
  proof (cases "q \<in> D \<and> q \<noteq> p")
    case True
    then have "cell p \<inter> cell q = {}" using assms unfolding cells_apart_def by blast
    then have "block p 8 \<inter> block q 8 = {}" "block p 8 \<inter> block (q + 8) 8 = {}"
      using cell_parts [of p] cell_parts [of q] by blast+
    then show ?thesis using True by (simp add: heap_of_def upd_next_def load_store_apart)
  next
    case False
    then consider "q = p" | "q \<noteq> p" "q \<notin> D" by blast
    then show ?thesis
      by cases (use assms(2) in \<open>simp_all add: heap_of_def upd_next_def load_store_same load_store_apart [OF cell_parts(3)]\<close>)
  qed
qed

lemma store_prev:
  assumes "cells_apart D" and "p \<in> D"
  shows "heap_of D (store64 (p + 8) v M) = upd_prev p v (heap_of D M)"
proof
  fix q
  show "heap_of D (store64 (p + 8) v M) q = upd_prev p v (heap_of D M) q"
  proof (cases "q \<in> D \<and> q \<noteq> p")
    case True
    then have "cell p \<inter> cell q = {}" using assms unfolding cells_apart_def by blast
    then have "block (p + 8) 8 \<inter> block q 8 = {}" "block (p + 8) 8 \<inter> block (q + 8) 8 = {}"
      using cell_parts [of p] cell_parts [of q] by blast+
    then show ?thesis using True by (simp add: heap_of_def upd_prev_def load_store_apart)
  next
    case False
    then consider "q = p" | "q \<noteq> p" "q \<notin> D" by blast
    moreover have "load64 (store64 (p + 8) v M) p = load64 M p"
      by (rule load_store_apart) (use cell_parts(3) [of p] in blast)
    ultimately show ?thesis by cases (use assms(2) in \<open>simp_all add: heap_of_def upd_prev_def load_store_same\<close>)
  qed
qed

section \<open>The list functions on bytes\<close>

definition m_get_next :: "addr set \<Rightarrow> addr \<Rightarrow> mem \<Rightarrow> addr option" where
  "m_get_next D p M = (if p \<in> D then Some (load64 M p) else None)"

definition m_get_prev :: "addr set \<Rightarrow> addr \<Rightarrow> mem \<Rightarrow> addr option" where
  "m_get_prev D p M = (if p \<in> D then Some (load64 M (p + 8)) else None)"

definition m_set_next :: "addr set \<Rightarrow> addr \<Rightarrow> addr \<Rightarrow> mem \<Rightarrow> mem option" where
  "m_set_next D p v M = (if p \<in> D then Some (store64 p v M) else None)"

definition m_set_prev :: "addr set \<Rightarrow> addr \<Rightarrow> addr \<Rightarrow> mem \<Rightarrow> mem option" where
  "m_set_prev D p v M = (if p \<in> D then Some (store64 (p + 8) v M) else None)"

definition m_INIT_LIST_HEAD :: "addr set \<Rightarrow> addr \<Rightarrow> mem \<Rightarrow> mem option" where
  "m_INIT_LIST_HEAD D l M = do {
     M \<leftarrow> m_set_next D l l M;
     m_set_prev D l l M }"

definition m_u_list_add :: "list_config \<Rightarrow> addr set \<Rightarrow> addr \<Rightarrow> addr \<Rightarrow> addr \<Rightarrow> mem \<Rightarrow> mem option" where
  "m_u_list_add cfg D new prev nxt M =
     (if \<not> u_list_add_valid cfg new prev nxt (heap_of D M) then Some M
      else do {
        M \<leftarrow> m_set_prev D nxt new M;
        M \<leftarrow> m_set_next D new nxt M;
        M \<leftarrow> m_set_prev D new prev M;
        m_set_next D prev new M })"

definition m_list_add :: "list_config \<Rightarrow> addr set \<Rightarrow> addr \<Rightarrow> addr \<Rightarrow> mem \<Rightarrow> mem option" where
  "m_list_add cfg D new head M = do {
     n \<leftarrow> m_get_next D head M;
     m_u_list_add cfg D new head n M }"

definition m_list_add_tail :: "list_config \<Rightarrow> addr set \<Rightarrow> addr \<Rightarrow> addr \<Rightarrow> mem \<Rightarrow> mem option" where
  "m_list_add_tail cfg D new head M = do {
     p \<leftarrow> m_get_prev D head M;
     m_u_list_add cfg D new p head M }"

definition m_u_list_del :: "addr set \<Rightarrow> addr \<Rightarrow> addr \<Rightarrow> mem \<Rightarrow> mem option" where
  "m_u_list_del D prev nxt M = do {
     M \<leftarrow> m_set_prev D nxt prev M;
     m_set_next D prev nxt M }"

definition m_u_list_del_entry :: "list_config \<Rightarrow> addr set \<Rightarrow> addr \<Rightarrow> mem \<Rightarrow> mem option" where
  "m_u_list_del_entry cfg D entry M =
     (if \<not> u_list_del_entry_valid cfg entry (heap_of D M) then Some M
      else do {
        p \<leftarrow> m_get_prev D entry M;
        n \<leftarrow> m_get_next D entry M;
        m_u_list_del D p n M })"

definition m_list_del :: "list_config \<Rightarrow> addr option \<Rightarrow> addr set \<Rightarrow> addr \<Rightarrow> mem \<Rightarrow> mem option" where
  "m_list_del cfg delta D entry M = do {
     M \<leftarrow> m_u_list_del_entry cfg D entry M;
     M \<leftarrow> m_set_next D entry (LIST_POISON1 delta) M;
     m_set_prev D entry (LIST_POISON2 delta) M }"

section \<open>Refinement\<close>

text \<open>A function on bytes refines one on the heap when they agree through the heap that memory holds.\<close>

named_theorems refines \<open>functions on bytes that refine functions on the heap\<close>

lemma refine_gets [refines]:
  "m_get_next D p M = get_next p (heap_of D M)" "m_get_prev D p M = get_prev p (heap_of D M)"
  by (simp_all add: m_get_next_def m_get_prev_def get_next_def get_prev_def heap_of_def)

lemma refine_sets [refines]:
  assumes "cells_apart D"
  shows "map_option (heap_of D) (m_set_next D p v M) = set_next p v (heap_of D M)"
    and "map_option (heap_of D) (m_set_prev D p v M) = set_prev p v (heap_of D M)"
  by (simp_all add: m_set_next_def m_set_prev_def set_next_eq set_prev_eq store_next [OF assms] store_prev [OF assms])

text \<open>Refinement goes through sequencing.\<close>

lemma refine_bind:
  assumes "map_option a m = m'" and "\<And>M. map_option a (g M) = g' (a M)"
  shows "map_option a (Option.bind m g) = Option.bind m' g'"
  using assms by (cases m) auto

lemma refine_bind_value:
  assumes "m = m'" and "\<And>x. map_option a (g x) = g' x"
  shows "map_option a (Option.bind m g) = Option.bind m' g'"
  using assms by (cases m) auto

lemma refine_INIT_LIST_HEAD:
  "cells_apart D \<Longrightarrow> map_option (heap_of D) (m_INIT_LIST_HEAD D l M) = INIT_LIST_HEAD l (heap_of D M)"
  unfolding m_INIT_LIST_HEAD_def INIT_LIST_HEAD_def by (intro refine_bind refine_sets)

lemma refine_u_list_add:
  "cells_apart D \<Longrightarrow> map_option (heap_of D) (m_u_list_add cfg D new prev nxt M) = u_list_add cfg new prev nxt (heap_of D M)"
  by (auto simp: m_u_list_add_def u_list_add_def intro!: refine_bind refine_sets)

lemma refine_list_add:
  "cells_apart D \<Longrightarrow> map_option (heap_of D) (m_list_add cfg D new head M) = list_add cfg new head (heap_of D M)"
  unfolding m_list_add_def list_add_def by (intro refine_bind_value refine_gets refine_u_list_add)

lemma refine_list_add_tail:
  "cells_apart D \<Longrightarrow> map_option (heap_of D) (m_list_add_tail cfg D new head M) = list_add_tail cfg new head (heap_of D M)"
  unfolding m_list_add_tail_def list_add_tail_def by (intro refine_bind_value refine_gets refine_u_list_add)

lemma refine_u_list_del:
  "cells_apart D \<Longrightarrow> map_option (heap_of D) (m_u_list_del D prev nxt M) = u_list_del prev nxt (heap_of D M)"
  unfolding m_u_list_del_def u_list_del_def by (intro refine_bind refine_sets)

lemma refine_u_list_del_entry:
  "cells_apart D \<Longrightarrow> map_option (heap_of D) (m_u_list_del_entry cfg D entry M) = u_list_del_entry cfg entry (heap_of D M)"
  by (auto simp: m_u_list_del_entry_def u_list_del_entry_def intro!: refine_bind_value refine_gets refine_u_list_del)

lemma refine_list_del:
  "cells_apart D \<Longrightarrow> map_option (heap_of D) (m_list_del cfg delta D entry M) = list_del cfg delta entry (heap_of D M)"
  unfolding m_list_del_def list_del_def by (intro refine_bind refine_sets refine_u_list_del_entry)

text \<open>So the calls on bytes simulate the calls on the heap.\<close>

abbreviation m_list_call :: "addr option \<Rightarrow> addr set \<Rightarrow> addr list_op \<Rightarrow> mem \<Rightarrow> mem option" where
  "m_list_call delta D \<equiv> deque_call (m_INIT_LIST_HEAD D) (m_list_add None D) (m_list_add_tail None D) (m_list_del None delta D)"

lemma refine_call:
  "cells_apart D \<Longrightarrow> map_option (heap_of D) (m_list_call delta D x M) = list_call delta x (heap_of D M)"
  by (cases x) (simp_all add: refine_INIT_LIST_HEAD refine_list_add refine_list_add_tail refine_list_del)

interpretation bytes: simulation "\<lambda>M h. cells_apart D \<and> heap_of D M = h" "list_call delta" "m_list_call delta D"
  for D delta
proof
  fix M h x h'
  assume r: "cells_apart D \<and> heap_of D M = h" and s: "list_call delta x h = Some h'"
  have "map_option (heap_of D) (m_list_call delta D x M) = Some h'" using refine_call [of D delta x M] r s by simp
  then show "\<exists>M'. m_list_call delta D x M = Some M' \<and> cells_apart D \<and> heap_of D M' = h'" using r by auto
qed

section \<open>What is written\<close>

definition keeps :: "addr set \<Rightarrow> mem \<Rightarrow> mem \<Rightarrow> bool" where
  "keeps D M M' \<longleftrightarrow> (\<forall>a. (\<forall>p \<in> D. a \<notin> cell p) \<longrightarrow> M' a = M a)"

definition result_keeps :: "addr set \<Rightarrow> mem \<Rightarrow> mem option \<Rightarrow> bool" where
  "result_keeps D M r \<longleftrightarrow> (\<forall>M'. r = Some M' \<longrightarrow> keeps D M M')"

lemma keeps_Some: "result_keeps D M (Some M)"
  by (simp add: result_keeps_def keeps_def)

lemma keeps_trans: "keeps D M M' \<Longrightarrow> keeps D M' M'' \<Longrightarrow> keeps D M M''"
  by (simp add: keeps_def)

lemma keeps_bind: "result_keeps D M m \<Longrightarrow> (\<And>N. result_keeps D N (g N)) \<Longrightarrow> result_keeps D M (Option.bind m g)"
  unfolding result_keeps_def bind_Some_iff using keeps_trans by blast

lemma keeps_bind_value: "(\<And>x. result_keeps D M (g x)) \<Longrightarrow> result_keeps D M (Option.bind m g)"
  by (cases m) (auto simp: result_keeps_def)

lemma keeps_store: "p \<in> D \<Longrightarrow> block q 8 \<subseteq> cell p \<Longrightarrow> keeps D M (store64 q v M)"
  unfolding keeps_def using store_outside by blast

lemma keeps_sets: "result_keeps D M (m_set_next D p v M)" "result_keeps D M (m_set_prev D p v M)"
  using keeps_store [of p D] cell_parts [of p] by (simp_all add: result_keeps_def m_set_next_def m_set_prev_def)

lemma keeps_u_list_add: "result_keeps D M (m_u_list_add cfg D new prev nxt M)"
  by (auto simp: m_u_list_add_def intro!: keeps_Some keeps_bind keeps_sets)

lemma keeps_u_list_del: "result_keeps D M (m_u_list_del D prev nxt M)"
  unfolding m_u_list_del_def by (intro keeps_bind keeps_sets)

lemma keeps_u_list_del_entry: "result_keeps D M (m_u_list_del_entry cfg D entry M)"
  by (auto simp: m_u_list_del_entry_def intro!: keeps_Some keeps_bind_value keeps_u_list_del)

lemma keeps_list_del: "result_keeps D M (m_list_del cfg delta D entry M)"
  unfolding m_list_del_def by (intro keeps_bind keeps_u_list_del_entry keeps_sets)

lemma keeps_call: "result_keeps D M (m_list_call delta D x M)"
proof (cases x)
  case (Init l)
  have "result_keeps D M (m_INIT_LIST_HEAD D l M)" unfolding m_INIT_LIST_HEAD_def by (intro keeps_bind keeps_sets)
  then show ?thesis by (simp add: Init)
next
  case (Push p l)
  have "result_keeps D M (m_list_add None D p l M)" unfolding m_list_add_def by (intro keeps_bind_value keeps_u_list_add)
  then show ?thesis by (simp add: Push)
next
  case (Enqueue p l)
  have "result_keeps D M (m_list_add_tail None D p l M)"
    unfolding m_list_add_tail_def by (intro keeps_bind_value keeps_u_list_add)
  then show ?thesis by (simp add: Enqueue)
qed (simp add: keeps_list_del)

lemma keeps_calls: "result_keeps D M (run_all (m_list_call delta D) xs M)"
  by (induction xs arbitrary: M) (auto intro: keeps_Some keeps_bind keeps_call)

section \<open>Structures on lists\<close>

text \<open>Structures of type \<open>T\<close> at the addresses \<open>ps\<close>, with a list head as their member \<open>m\<close> at offset \<open>off\<close>, and
  list heads at the addresses \<open>hs\<close>: no two of these objects overlap.\<close>

definition placed_structs :: "env \<Rightarrow> ctype \<Rightarrow> string \<Rightarrow> nat \<Rightarrow> addr set \<Rightarrow> addr set \<Rightarrow> bool" where
  "placed_structs E T m off hs ps \<longleftrightarrow>
     size_of E T \<le> 2 ^ 64 \<and> map_of (names_of E T) m = Some (8 * off, 128)
   \<and> (\<forall>p \<in> ps. \<forall>q \<in> ps. p \<noteq> q \<longrightarrow> block p (size_of E T) \<inter> block q (size_of E T) = {})
   \<and> (\<forall>h \<in> hs. \<forall>k \<in> hs. h \<noteq> k \<longrightarrow> cell h \<inter> cell k = {})
   \<and> (\<forall>h \<in> hs. \<forall>p \<in> ps. cell h \<inter> block p (size_of E T) = {})"

definition list_cells :: "nat \<Rightarrow> addr set \<Rightarrow> addr set \<Rightarrow> addr set" where
  "list_cells off hs ps = hs \<union> (\<lambda>p. p + of_nat off) ` ps"

lemma member_cell:
  assumes "env_ok E" and "placed_structs E T m off hs ps"
  shows "off + 16 \<le> size_of E T" and "cell (p + of_nat off) \<subseteq> block p (size_of E T)"
proof -
  have "map_of (names_of E T) m = Some (8 * off, 128)" using assms(2) unfolding placed_structs_def by blast
  from lookup_inside [OF assms(1) this] have "8 * off + 128 \<le> 8 * size_of E T" .
  then show le: "off + 16 \<le> size_of E T" by simp
  show "cell (p + of_nat off) \<subseteq> block p (size_of E T)" unfolding cell_def by (rule block_part [OF le])
qed

lemma placed_cells_apart:
  assumes E: "env_ok E" and p: "placed_structs E T m off hs ps"
  shows "cells_apart (list_cells off hs ps)"
proof -
  note inside = member_cell(2) [OF E p]
  have "cell a \<inter> cell b = {}" if "a \<in> list_cells off hs ps" "b \<in> list_cells off hs ps" "a \<noteq> b" for a b
  proof -
    consider "a \<in> hs" "b \<in> hs" | q where "a \<in> hs" "q \<in> ps" "b = q + of_nat off"
      | q where "b \<in> hs" "q \<in> ps" "a = q + of_nat off"
      | q r where "q \<in> ps" "r \<in> ps" "a = q + of_nat off" "b = r + of_nat off" "q \<noteq> r"
      using \<open>a \<in> _\<close> \<open>b \<in> _\<close> \<open>a \<noteq> b\<close> unfolding list_cells_def by blast
    then show ?thesis
    proof cases
      case 1
      then show ?thesis using p \<open>a \<noteq> b\<close> unfolding placed_structs_def by blast
    next
      case 2
      then have "cell a \<inter> block q (size_of E T) = {}" using p unfolding placed_structs_def by blast
      then show ?thesis using inside [of q] 2(3) by blast
    next
      case 3
      then have "cell b \<inter> block q (size_of E T) = {}" using p unfolding placed_structs_def by blast
      then show ?thesis using inside [of q] 3(3) by blast
    next
      case 4
      then have "block q (size_of E T) \<inter> block r (size_of E T) = {}" using p unfolding placed_structs_def by blast
      then show ?thesis using inside [of q] inside [of r] 4(3,4) by blast
    qed
  qed
  then show ?thesis unfolding cells_apart_def by blast
qed

text \<open>A byte of a structure that is not in its list member is in no cell.\<close>

lemma byte_kept:
  assumes E: "env_ok E" and p: "placed_structs E T m off hs ps" and q: "q \<in> ps"
    and i: "i < size_of E T" "i < off \<or> off + 16 \<le> i" and k: "keeps (list_cells off hs ps) M M'"
  shows "M' (q + of_nat i) = M (q + of_nat i)"
proof -
  let ?a = "q + of_nat i"
  have a: "?a \<in> block q (size_of E T)" by (rule in_block [OF i(1)])
  have "?a \<notin> cell c" if c: "c \<in> list_cells off hs ps" for c
  proof -
    from c consider "c \<in> hs" | r where "r \<in> ps" "c = r + of_nat off" unfolding list_cells_def by blast
    then show ?thesis
    proof cases
      case 1
      then have "cell c \<inter> block q (size_of E T) = {}" using p q unfolding placed_structs_def by blast
      then show ?thesis using a by blast
    next
      case 2
      show ?thesis
      proof (cases "r = q")
        case True
        have "off + 16 \<le> 2 ^ 64" "i < 2 ^ 64"
          using member_cell(1) [OF E p] p i(1) unfolding placed_structs_def by linarith+
        then show ?thesis using outside_block [of off "off + 16" i q] i(2) True 2(2) by (simp add: cell_def)
      next
        case False
        then have "block r (size_of E T) \<inter> block q (size_of E T) = {}" using p q 2(1) unfolding placed_structs_def by blast
        then show ?thesis using a member_cell(2) [OF E p, of r] 2(2) by blast
      qed
    qed
  qed
  then show ?thesis using k unfolding keeps_def by blast
qed

lemma member_kept:
  assumes E: "env_ok E" and p: "placed_structs E T m off hs ps" and q: "q \<in> ps" and sep: "separate E T m n"
    and k: "keeps (list_cells off hs ps) M M'"
  shows "get_member E T q n M' = get_member E T q n M"
proof (cases "map_of (names_of E T) n")
  case (Some r)
  obtain o2 l2 where n: "map_of (names_of E T) n = Some (o2, l2)" using Some by (cases r) auto
  have m: "map_of (names_of E T) m = Some (8 * off, 128)" using p unfolding placed_structs_def by blast
  have range: "8 * off + 128 \<le> o2 \<or> o2 + l2 \<le> 8 * off" by (rule separate_lookup [OF E sep m n])
  have inside: "o2 + l2 \<le> 8 * size_of E T" by (rule lookup_inside [OF E n])
  have "bit_at M' q j \<longleftrightarrow> bit_at M q j" if "o2 \<le> j" "j < o2 + l2" for j
  proof -
    have "j div 8 < size_of E T" "j div 8 < off \<or> off + 16 \<le> j div 8" using that range inside by linarith+
    then show ?thesis using byte_kept [OF E p q _ _ k] by (simp add: bit_at_def)
  qed
  then have "read_bits M' q o2 l2 = read_bits M q o2 l2" by (simp add: read_bits_def)
  then show ?thesis by (simp add: get_member_def n)
qed (simp add: get_member_def)

section \<open>Calls on abstract lists, in memory\<close>

lemma calls_in_memory:
  assumes "cells_apart D" and "lists_in (heap_of D M) A" and "run_all (spec_call D) calls A = Some A'"
  shows "\<exists>M'. run_all (m_list_call delta D) calls M = Some M' \<and> lists_in (heap_of D M') A' \<and> keeps D M M'"
proof -
  have "ring_deque.holds_lists D (heap_of D M) A" using assms(2) by (simp add: lists_in_holds)
  from ring_deque.calls.run [OF this assms(3)] obtain h' where
    h': "run_all (list_call delta) calls (heap_of D M) = Some h'" "lists_in h' A'"
    unfolding lists_in_holds by blast
  from bytes.run [of D M "heap_of D M" delta calls h'] assms(1) h'(1) obtain M' where
    "run_all (m_list_call delta D) calls M = Some M'" "heap_of D M' = h'" by blast
  then show ?thesis using h'(2) keeps_calls [of D M delta calls] unfolding result_keeps_def by blast
qed

text \<open>C5: structures in memory are on lists by one of their members. Whatever calls of the list functions a client
  makes on them, with the entries it adds and removes as the functions ask for, the bytes hold the lists that the
  same calls give on abstract lists; every member of every structure that shares no union with the list member
  keeps its value; and no byte outside the structures and the list heads changes.\<close>

theorem struct_lists_in_memory:
  fixes E T hs ps off
  defines "D \<equiv> list_cells off hs ps"
  assumes "env_ok E" and "placed_structs E T m off hs ps"
    and "lists_in (heap_of D M) A" and "run_all (spec_call D) calls A = Some A'"
  shows "\<exists>M'. run_all (m_list_call delta D) calls M = Some M' \<and> lists_in (heap_of D M') A'
    \<and> (\<forall>p \<in> ps. \<forall>n. separate E T m n \<longrightarrow> get_member E T p n M' = get_member E T p n M)
    \<and> (\<forall>a. a \<notin> (\<Union>p \<in> ps. block p (size_of E T)) \<union> (\<Union>h \<in> hs. cell h) \<longrightarrow> M' a = M a)"
proof -
  obtain M' where M': "run_all (m_list_call delta D) calls M = Some M'" "lists_in (heap_of D M') A'" and k: "keeps D M M'"
    using calls_in_memory [OF placed_cells_apart [OF assms(2,3)] assms(4,5) [unfolded D_def]] unfolding D_def by blast
  have "get_member E T p n M' = get_member E T p n M" if "p \<in> ps" "separate E T m n" for p n
    by (rule member_kept [OF assms(2,3) that k [unfolded D_def]])
  moreover have "M' a = M a" if a: "a \<notin> (\<Union>p \<in> ps. block p (size_of E T)) \<union> (\<Union>h \<in> hs. cell h)" for a
  proof -
    have "a \<notin> cell c" if "c \<in> D" for c using that a member_cell(2) [OF assms(2,3)] unfolding D_def list_cells_def by blast
    then show ?thesis using k unfolding keeps_def by blast
  qed
  ultimately show ?thesis using M' by blast
qed

text \<open>Two pulse width modulator chips on a list by their member \<open>list\<close>, and one taken off again.\<close>

definition list_env :: env where
  "list_env = sample_env\<lparr>ext_size := (\<lambda>n. if n = ''struct list_head'' then 16 else 8), ext_align := (\<lambda>n. 8)\<rparr>"

lemma list_env_simps:
  "ext_size list_env n = (if n = ''struct list_head'' then 16 else 8)" "ext_align list_env n = 8"
  by (simp_all add: list_env_def)

lemma list_env_ok: "env_ok list_env"
  by (simp add: env_ok_def list_env_def sample_env_def)

lemma pwm_chip_layout:
  "size_of list_env struct_pwm_chip = 64" "map_of (names_of list_env struct_pwm_chip) ''list'' = Some (8 * 8, 128)"
  by (simp_all add: struct_pwm_chip_def list_env_simps layout_compute Let_def del: slots.simps layout.simps)

lemma pwm_chips_placed: "placed_structs list_env struct_pwm_chip ''list'' 8 {0x3000} {0x1000, 0x2000}"
proof -
  have 1: "block 0x1000 64 \<inter> block 0x2000 64 = {}" using blocks_apart [of 64 "0x1000" 64 "0x1000"] by simp
  have 2: "block 0x1000 64 \<inter> block 0x3000 16 = {}" using blocks_apart [of 64 "0x2000" 16 "0x1000"] by simp
  have 3: "block 0x2000 64 \<inter> block 0x3000 16 = {}" using blocks_apart [of 64 "0x1000" 16 "0x2000"] by simp
  show ?thesis using 1 2 3 by (simp add: placed_structs_def pwm_chip_layout cell_def Int_commute)
qed

theorem struct_lists_in_memory_witness:
  "\<exists>M'. run_all (m_list_call None (list_cells 8 {0x3000} {0x1000, 0x2000}))
      [Init 0x3000, Enqueue 0x1008 0x3000, Enqueue 0x2008 0x3000, Unlink 0x1008] (\<lambda>a. 7) = Some M'
    \<and> lists_in (heap_of (list_cells 8 {0x3000} {0x1000, 0x2000}) M') [(0x3000, [0x2008])]
    \<and> get_member list_env struct_pwm_chip 0x1000 ''base'' M' = get_member list_env struct_pwm_chip 0x1000 ''base'' (\<lambda>a. 7)"
proof -
  have "separate list_env struct_pwm_chip ''list'' ''base''"
    by (simp add: separate_def struct_pwm_chip_def)
  moreover have "run_all (spec_call (list_cells 8 {0x3000} {0x1000, 0x2000}))
      [Init 0x3000, Enqueue 0x1008 0x3000, Enqueue 0x2008 0x3000, Unlink 0x1008] [] = Some [(0x3000, [0x2008])]"
    by (simp add: list_cells_def)
  moreover have "lists_in (heap_of (list_cells 8 {0x3000} {0x1000, 0x2000}) (\<lambda>a. 7)) []" by (simp add: lists_in_def)
  ultimately show ?thesis using struct_lists_in_memory [OF list_env_ok pwm_chips_placed] by blast
qed

end
