(* ===== verification/Sample_Mains.thy ===== *)
theory Sample_Mains
  imports Prelude
begin

text \<open>
  The small programs of \<open>util.c\<close> and \<open>main.c\<close>: two that only return, and one that prints the time.
  The C library's time functions are parameters. \<open>localtime\<close> gives \<open>NULL\<close> for a time whose year
  it cannot hold, and \<open>asctime\<close> gives the text of a calendar time.
\<close>

definition util_main :: int where "util_main = 0"

definition main_main :: int where "main_main = 0"

section \<open>The time\<close>

record timespec =
  tv_sec :: int
  tv_nsec :: int

text \<open>\<open>timespec_get\<close> fills the structure, or fails and leaves it as it is.\<close>

record ('w, 'tm) time_lib =
  lib_timespec_get :: "'w \<Rightarrow> timespec option \<times> 'w"
  lib_localtime :: "int \<Rightarrow> 'tm option"
  lib_asctime :: "'tm \<Rightarrow> string"

datatype printed = Seconds_line int int | Now_line string

text \<open>The local \<open>ts\<close> is not initialised: its value on entry is an argument. The result is the lines printed so
  far and how the program ends, with a status or by following the \<open>NULL\<close> that \<open>localtime\<close> returned.\<close>

datatype ending = Exit int | Null_dereference

definition time_main :: "('w, 'tm) time_lib \<Rightarrow> timespec \<Rightarrow> 'w \<Rightarrow> printed list \<times> ending" where
  "time_main L ts w =
     (let (r, w) = lib_timespec_get L w;
          ts = (case r of None \<Rightarrow> ts | Some t \<Rightarrow> t);
          out = [Seconds_line (tv_sec ts) (tv_nsec ts)]
      in case lib_localtime L (tv_sec ts) of
           None \<Rightarrow> (out, Null_dereference)
         | Some tm \<Rightarrow> (out @ [Now_line (lib_asctime L tm)], Exit 0))"

text \<open>The results of the two calls are not looked at. The program prints the time and returns 0 exactly when the time it
  has can be converted; when \<open>timespec_get\<close> fails, that time is whatever the stack held.\<close>

lemma time_main_outcomes:
  "snd (time_main L ts w) = Exit 0 \<longleftrightarrow>
     lib_localtime L (tv_sec (case fst (lib_timespec_get L w) of None \<Rightarrow> ts | Some t \<Rightarrow> t)) \<noteq> None"
  "fst (lib_timespec_get L w) = None \<Longrightarrow> hd (fst (time_main L ts w)) = Seconds_line (tv_sec ts) (tv_nsec ts)"
  by (auto simp: time_main_def Let_def case_prod_unfold split: option.splits)

end
