(* ===== verification/Spec2Isabelle.thy ===== *)
theory Spec2Isabelle
  imports Kernel_List Dev_Num Fact_Bench Open_Descriptors Server_Drains Event_Loops Echo_Answers Whole_Programs Kernel_Modules
    Char_Files Sensor_Sessions Wait_Queue User_Invoke Fs_Structs Device_Structs Bus_Structs Input_Structs Media_Structs Task_Struct Sk_Buff
    Struct_Access Skb_Memory List_Memory Sample_Mains
begin

text \<open>
  A verification library for a collection of small C programs and kernel modules, the kernel list
  functions they rest on, and the structure declarations of the kernel headers beside them.

  The program. \<open>factorial.c\<close> is a benchmark, \<open>server.c\<close> and \<open>epoll.c\<close> are two socket servers around
  \<open>epoll\<close>; \<open>kmalloc.c\<close>, \<open>helloworld.c\<close>, \<open>helloworld-params.c\<close>, \<open>std-timer.c\<close>, \<open>chardev.c\<close>, \<open>bma150.c\<close>,
  \<open>waitqueue.c\<close> and \<open>user-invoke.c\<close> are kernel modules; \<open>util.c\<close> holds the circular lists,
  \<open>container_of\<close> and the device numbers; \<open>fs.c\<close>, \<open>input.c\<close> and the header files declare structures.
  The parts do not call one another at run time, except that \<open>fs.c\<close> splits device numbers with the
  macros of \<open>util.c\<close>, \<open>chardev.c\<close> does so too, and structures embed one another and the list heads.

  The theories.
  \<^item> \<open>Prelude\<close>: C integers as words, addresses, the collections of rewrite rules, the option monad.
  \<^item> \<open>Simulation\<close>: the contract between a specification and an implementation, step by step, and what it
    gives for whole runs.
  \<^item> \<open>Node_Deque\<close>, \<open>Kernel_List\<close>: the contract of a list of nodes, what sequences of its operations do to
    several lists (a simulation for every instance of the contract), and \<open>util.c\<close>'s lists on a heap from
    addresses to link pairs. A read or write outside the heap is \<open>None\<close>. The invariant \<open>ring\<close> says that
    a head and its entries form a circle; every operation refines one on the list of the entries.
    The debugging checks that another file defines are a parameter.
  \<^item> \<open>Dev_Num\<close>: \<open>MAJOR\<close>, \<open>MINOR\<close>, \<open>MKDEV\<close> of \<open>util.c\<close> and \<open>imajor\<close>, \<open>iminor\<close> of \<open>fs.c\<close>, on 32-bit words.
  \<^item> \<open>Fact_Bench\<close>: \<open>factorial.c\<close>, on 64-bit words with their wrap-around.
  \<^item> \<open>Sockets\<close>: what the servers share: the system calls as a record of functions on a kernel state,
    a process as that state and the trace of its actions, and the contract of an event handler.
  \<^item> \<open>Epoll_Server\<close>: \<open>server.c\<close>, with the level-triggered handler \<open>lt\<close> that \<open>main\<close> uses and the
    edge-triggered \<open>et\<close>. \<open>Epoll_Echo\<close>: \<open>epoll.c\<close>. The endless loops are \<open>partial_function (option)\<close>:
    not returning is \<open>None\<close>, and what makes a loop return is proved, not assumed.
  \<^item> \<open>Open_Descriptors\<close>: \<open>server.c\<close> on a system that notes every call on a descriptor that the program has closed.
  \<^item> \<open>Epoll_Set\<close>: what the system documents of an epoll set, as a view of the kernel state that says what each
    descriptor is registered for. \<open>Stream_Sockets\<close>: what it documents of stream sockets, as two views, the
    bytes that have arrived and those that are pending. \<open>Server_Streams\<close>: what \<open>server.c\<close> prints, for each
    connection over any number of rounds, message by message, and \<open>Server_Drains\<close>: that a connection
    is drained, because it is registered level-triggered.
  \<^item> \<open>Event_Loops\<close>: the loops of both programs as instances of one loop over batches of events, and the
    contract of a loop with a listening socket that is registered edge-triggered. \<open>Echo_Protocol\<close>: the order of
    the calls of \<open>epoll.c\<close> on each connection, from what is registered in the epoll set, and the contract of an
    invariant of its turns. \<open>Echo_Streams\<close>: what \<open>write\<close> is asked to send as long as connections do not
    disturb each other, and what is sent where writes take all they are asked to; \<open>Echo_Answers\<close>:
    that clients are answered, within two turns for each byte. \<open>Whole_Programs\<close>: both programs from \<open>main\<close> to
    their end, with the start-up in front of the loop: every way each can end, when it runs for ever, and the
    account of every client at the end.
  \<^item> \<open>Module_Lifecycle\<close>, \<open>Kernel_Modules\<close>: the contract between a module and the kernel that loads and
    unloads it, what a module holds being a multiset; the small modules.
  \<^item> \<open>Char_Dev\<close>, \<open>Bma150\<close>: the two drivers. Each call to the kernel is recorded with its result, and
    what the driver holds is computed from the record. \<open>Char_Files\<close>: the character device in use, a step
    relation on events in which programs open, use and close it while the module is loaded and unloaded; the
    module loader (whether it gives a reference on the module that owns a character device, \<open>cdev_owner\<close>, and
    whether it lets a module go) is a parameter. \<open>Sensor_Sessions\<close>: the accelerometer from the registration of
    its input device on, with any number of interrupts, or of polls of the polled device that was registered.
  \<^item> \<open>Step_Systems\<close>, \<open>Wait_Queue\<close>, \<open>User_Invoke\<close>: modules whose work runs beside their own code, as
    step relations; the contract of a system that always finishes, and that of a system of labelled
    events with an invariant.
  \<^item> \<open>C_Layout\<close>: declarations of C structures and their layout by the System V ABI for x86-64, in any
    configuration, with \<open>offsetof\<close> and \<open>container_of\<close>. \<open>Fs_Structs\<close> (\<open>fs.c\<close>, \<open>util.c\<close>), \<open>Device_Structs\<close>
    (\<open>ioport.h\<close>, \<open>device.h\<close>, \<open>platform_device.h\<close>, \<open>irq.h\<close>, \<open>irq.c\<close>), \<open>Bus_Structs\<close> (\<open>i2c.h\<close>, \<open>spi.h\<close>,
    \<open>regmap.h\<close>, \<open>rtc.h\<close>), \<open>Input_Structs\<close> (\<open>input.c\<close>, \<open>input-polldev.h\<close>, \<open>bma150.h\<close>), \<open>Media_Structs\<close>
    (\<open>fb.h\<close>, \<open>iio.h\<close>, \<open>pwm.h\<close>), \<open>Task_Struct\<close> (\<open>sched.h\<close>) and \<open>Sk_Buff\<close> (\<open>skbuff.h\<close>) hold the declarations,
    member by member and conditional by conditional, and what the comments say of their layout.
  \<^item> \<open>C_Memory\<close>: the same structures in memory, as bytes by address, with the contract of reading and
    writing named members; which names share no storage, decided on the declaration alone.
    \<open>Struct_Access\<close>: the list of all structures, their well-formedness, and that contract for each of
    them. \<open>Skb_Memory\<close>: what \<open>skbuff.h\<close> says of copying headers and of masks, in memory.
    \<open>List_Memory\<close>: the list functions of \<open>util.c\<close> on bytes. They refine the ones on the heap, and these the
    abstract lists, so that structures in memory can be followed from list to list.
  \<^item> \<open>Sample_Mains\<close>: the main functions of \<open>util.c\<close> and \<open>main.c\<close>.

  What the lemmas show. Lists: every operation keeps the ring and does to the entries what its
  comment says, with a frame; the misuse cases fault or break the list in a stated way. Numbers and
  benchmark: round trips and the exact ranges in which the results are right. Servers: what each
  handler does per event, that draining and repeated rounds print the same, bounds of the buffers, that no closed
  descriptor is used by \<open>lt\<close>, when a loop returns, and what happens where a result is not checked; over whole
  runs, for each connection the account of the bytes that arrived, and the protocol it follows. Modules:
  what they hold on every path through init and exit; that the code of the character device only runs while
  its module is there, in runs without a load that fails after the device was made live, and what such a load
  leaves behind; that the samples of the sensor arrive in order at the device that was registered. Step relations: invariants by rule induction
  and a rank, so that every run ends. Layout: members inside their structure, \<open>container_of\<close> as an
  inverse, and the fixed places of the members whose place matters. Memory: members that are in no
  union together do not disturb each other, bit-fields included, and block copies of members.

  Bounds and fuel. No fuel is used. The loops over words end by a measure on the distance to the
  bound; the read loop of \<open>et\<close> returns after as many turns as the socket has chunks; the server drains a
  connection within as many rounds as it has bytes pending, the echo server answers within two turns for each byte; a run of the
  wait queue module has at most 19 steps, the sum of the positions its two threads can pass.

  What is a parameter. Everything the repository does not contain: system calls, kernel
  functions, constants and types of other headers, the debugging checks of the lists. What is
  assumed of them is a named predicate with their documented behaviour (\<open>recv_bounded\<close>,
  \<open>descriptors_ok\<close>, \<open>stream_sockets\<close>, \<open>level_triggered\<close>, \<open>epoll_set\<close>, \<open>recv_registers_nothing\<close>, \<open>edge_triggered\<close>, \<open>quiet_kernel\<close>,
  \<open>output_sockets\<close>, \<open>read_bounded\<close>, \<open>startup_leaves\<close>, \<open>startup_keeps\<close>, \<open>documented_sign_extend\<close>, \<open>sensor_bus\<close>,
  \<open>errors_negative\<close>, \<open>region_starts_at_0\<close>, \<open>documented_loader\<close>, \<open>env_ok\<close>), and every theorem that
  assumes one is applied to a concrete instance. What is reported of a descriptor depends on how it is
  registered: \<open>level_triggered\<close> and \<open>quiet_kernel\<close> speak only of the registrations they name. Three
  predicates are not laws of the system but conditions on a run: \<open>reads_succeed\<close> and \<open>accepts_succeed\<close>, and
  \<open>takes_all\<close>, that no write is short. What a failed read leads to is stated too: \<open>epoll.c\<close> asks for
  2^64-1 bytes.

  What is not modelled. \<open>api.c\<close> has prototypes only, \<open>rules.c\<close> a line that is no declaration; a main
  function of \<open>util.c\<close> stands inside a comment. Names the files use without
  declaring them (\<open>major\<close>, \<open>dummy_class\<close> in \<open>chardev.c\<close>, \<open>path\<close> in \<open>user-invoke.c\<close>, the open and close
  handlers of \<open>bma150.c\<close>) are state or parameters. Of the layout, big-endian bit-fields are modelled only
  by their masks, and other ABIs not at all. Weak memory (\<open>WRITE_ONCE\<close>) is not modelled. Loading and unloading
  are single steps of the character device's sessions: an open between \<open>cdev_add\<close> and the end of init is not
  modelled. The remaining lines of the sources are comments, prototypes, include guards and the
  registration macros of the modules (\<open>module_init\<close>, \<open>MODULE_LICENSE\<close>).
\<close>

section \<open>Structures on a list\<close>

lemma remove1_map_add: "remove1 (p + c) (map (\<lambda>p. p + c) ps) = map (\<lambda>p. p + c) (remove1 p ps)"
  for p c :: addr
  by (induction ps) auto

text \<open>C16: a list whose entries are members of structures of one type is a list of these structures: removing
  the entry of one of them leaves the entries of the others in order, and \<open>container_of\<close> gives the
  others back from what is left on the list.\<close>

theorem unlink_structure:
  assumes "offset_of E T m = Some off" and "p \<in> set ps"
    and "ring h head (map (\<lambda>p. p + of_nat off) ps)" and "u_list_del_entry_valid cfg (p + of_nat off) h"
  shows "\<exists>h' es. list_del cfg delta (p + of_nat off) h = Some h' \<and> ring h' head es
    \<and> map (\<lambda>e. container_of E e T m) es = map Some (remove1 p ps)"
proof -
  obtain h' where h': "list_del cfg delta (p + of_nat off) h = Some h'"
      "ring h' head (remove1 (p + of_nat off) (map (\<lambda>p. p + of_nat off) ps))"
    using ring_del_in [OF assms(3) _ assms(4), of delta] assms(2) by auto
  have "map (\<lambda>e. container_of E e T m) (map (\<lambda>p. p + of_nat off) (remove1 p ps)) = map Some (remove1 p ps)"
    by (simp add: container_of_def assms(1))
  with h' show ?thesis unfolding remove1_map_add by blast
qed

text \<open>Two pulse width modulator chips, which are on a list by their member at offset 8.\<close>

theorem unlink_structure_witness:
  "\<exists>h' es. list_del None None 0x2000 sample_heap2 = Some h' \<and> ring h' 0x1000 es
    \<and> map (\<lambda>e. container_of sample_env e struct_pwm_chip ''list'') es = [Some 0x2FF8]"
proof -
  have off: "offset_of sample_env struct_pwm_chip ''list'' = Some 8"
    by (simp add: offset_of_def struct_pwm_chip_def sample_env_def layout_compute Let_def del: slots.simps layout.simps)
  show ?thesis
    using unlink_structure [OF off, of "0x1FF8" "[0x1FF8, 0x2FF8]" sample_heap2 "0x1000" None None]
    by (simp add: sample_ring2 u_list_del_entry_valid_def)
qed

section \<open>Layouts that do not depend on the configuration\<close>

text \<open>The structures without conditionals and foreign types have one size everywhere.\<close>

lemma fixed_sizes:
  "size_of E struct_rtc_time = 36" "size_of E struct_input_value = 8" "size_of E struct_fb_cmap = 40"
  "size_of E struct_fb_fix_screeninfo = 80" "size_of E struct_file_handle = 8" "size_of E struct_bma150_cfg = 13"
  by (simp_all add: struct_rtc_time_def struct_input_value_def struct_fb_cmap_def struct_fb_fix_screeninfo_def
      struct_file_handle_def struct_bma150_cfg_def layout_compute Let_def del: slots.simps layout.simps)

end
